(* ===== verification/Prelude.thy ===== *)
theory Prelude
  imports Main "HOL-Library.Word" "HOL-Library.AList"
begin

text \<open>
  Shared vocabulary of the development: the machine types of the Go sources, the outcome of
  a Go call (a returned value, a blocked goroutine or a panic), the fact collections the
  component theories fill, generic lemmas on lists, association lists and words, and the
  interface of a transition system with an invariant (locale \<open>invariant_system\<close>), which every
  step relation of the development interprets.
\<close>

unbundle bit_operations_syntax

section \<open>Machine types\<close>

type_synonym byte = "8 word"
type_synonym u16 = "16 word"
type_synonym u32 = "32 word"
type_synonym i64 = "64 word"
type_synonym bytes = "byte list"

section \<open>Fact collections\<close>

named_theorems wire_simps \<open>evaluation of the byte-level encoders and decoders\<close>
named_theorems wf_intros \<open>preservation of the well-formedness invariants\<close>
named_theorems frame_simps \<open>state components an operation leaves unchanged\<close>

section \<open>Outcome of a Go call\<close>

text \<open>
  A call returns a value, blocks (no case of the select statement it waits in is ready), or
  panics. A blocked call is given with the state in which it waits.
\<close>

datatype 'a outcome = Ret 'a | Block | Panic string

fun is_panic :: "'a outcome \<Rightarrow> bool" where
  "is_panic (Panic m) = True"
| "is_panic _ = False"

section \<open>Transition systems and invariants\<close>

inductive reachable :: "('s \<Rightarrow> bool) \<Rightarrow> ('s \<Rightarrow> 's \<Rightarrow> bool) \<Rightarrow> 's \<Rightarrow> bool"
  for start :: "'s \<Rightarrow> bool" and step :: "'s \<Rightarrow> 's \<Rightarrow> bool" where
  reachable_start: "start s \<Longrightarrow> reachable start step s"
| reachable_step: "reachable start step s \<Longrightarrow> step s t \<Longrightarrow> reachable start step t"

locale invariant_system =
  fixes start :: "'s \<Rightarrow> bool"
    and step :: "'s \<Rightarrow> 's \<Rightarrow> bool"
    and inv :: "'s \<Rightarrow> bool"
  assumes inv_start: "start s \<Longrightarrow> inv s"
    and inv_step: "inv s \<Longrightarrow> step s t \<Longrightarrow> inv t"
begin

lemma inv_reachable: "reachable start step s \<Longrightarrow> inv s"
  by (induction rule: reachable.induct) (auto intro: inv_start inv_step)

lemma reachable_inv_induct:
  assumes "reachable start step s"
    and "\<And>s. start s \<Longrightarrow> P s"
    and "\<And>s t. inv s \<Longrightarrow> P s \<Longrightarrow> step s t \<Longrightarrow> P t"
  shows "P s"
  using assms(1)
proof (induction rule: reachable.induct)
  case (reachable_start s)
  then show ?case by (rule assms(2))
next
  case (reachable_step s t)
  then show ?case by (blast intro: assms(3) inv_reachable)
qed

lemma inv_run: "inv s \<Longrightarrow> step\<^sup>*\<^sup>* s t \<Longrightarrow> inv t"
  by (rotate_tac 1) (induction rule: rtranclp_induct; blast intro: inv_step)

end

section \<open>Lists\<close>

lemma nth_update_same [simp]: "i < length xs \<Longrightarrow> xs[i := x] ! i = x"
  by simp

lemma length_eq_12D:
  assumes "length xs = 12"
  obtains a b c d e f g h i j k l where "xs = [a, b, c, d, e, f, g, h, i, j, k, l]"
  using assms by (auto simp: length_Suc_conv eval_nat_numeral)

lemma map_upd_eq_self: "(\<And>x. x \<in> set xs \<Longrightarrow> f x = x) \<Longrightarrow> map f xs = xs"
  by (induction xs) auto

section \<open>Association lists\<close>

text \<open>Go maps that the code iterates over are association lists with distinct keys.\<close>

lemma distinct_keys_update [wf_intros]:
  "distinct (map fst m) \<Longrightarrow> distinct (map fst (AList.update k v m))"
  by (rule distinct_update)

lemma distinct_keys_delete [wf_intros]:
  "distinct (map fst m) \<Longrightarrow> distinct (map fst (AList.delete k m))"
  by (rule distinct_delete)

lemma map_of_update_same [simp]: "map_of (AList.update k v m) k = Some v"
  by (simp add: update_conv)

lemma map_of_update_other [simp]: "k \<noteq> l \<Longrightarrow> map_of (AList.update k v m) l = map_of m l"
  by (simp add: update_conv)

lemma map_of_delete_same [simp]: "map_of (AList.delete k m) k = None"
  by (simp add: delete_conv)

lemma map_of_delete_other [simp]: "k \<noteq> l \<Longrightarrow> map_of (AList.delete k m) l = map_of m l"
  by (simp add: delete_conv)

lemma map_of_update_Some:
  "map_of (AList.update k v m) l = Some w \<longleftrightarrow> (if l = k then v = w else map_of m l = Some w)"
  by (simp add: update_conv)

lemma map_of_delete_Some:
  "map_of (AList.delete k m) l = Some w \<longleftrightarrow> l \<noteq> k \<and> map_of m l = Some w"
  by (simp add: delete_conv)

lemma set_update_subset: "set (AList.update k v m) \<subseteq> insert (k, v) (set m)"
  by (induction m) auto

lemma set_delete_subset: "set (AList.delete k m) \<subseteq> set m"
  by (induction m) auto

lemma distinct_snd_update:
  "distinct (map snd m) \<Longrightarrow> v \<notin> snd ` set m \<Longrightarrow> distinct (map snd (AList.update k v m))"
proof (induction m)
  case (Cons x m)
  then show ?case using set_update_subset [of k v m] by (cases x) (auto 0 3)
qed simp

lemma distinct_snd_delete: "distinct (map snd m) \<Longrightarrow> distinct (map snd (AList.delete k m))"
  by (induction m) (auto simp: AList.delete_eq)

lemma snd_delete_other:
  assumes "distinct (map snd m)" and "map_of m k = Some c" and "(i, d) \<in> set (AList.delete k m)"
  shows "d \<noteq> c"
  using assms by (induction m) (auto simp: AList.delete_eq image_iff split: if_splits dest!: map_of_SomeD)

section \<open>Words\<close>

lemma unat_minus_le: "b \<le> a \<Longrightarrow> unat (a - b) = unat a - unat b" for a b :: "'a::len word"
  by (simp add: unat_sub)

lemma unat_lt_pow: "unat w < 2 ^ LENGTH('a)" for w :: "'a::len word"
  by (rule unsigned_less)

lemma minus_one_complement: "NOT (n - 1) = - n" for n :: "'a::len word"
  by (simp add: not_eq_complement)

lemma word_AND_bit_eq: "(x AND 2 ^ k = 2 ^ k) \<longleftrightarrow> bit x k" if "k < LENGTH('a)"
  for x :: "'a::len word"
proof
  assume "x AND 2 ^ k = 2 ^ k"
  then have "bit (x AND 2 ^ k) k" using that by (simp add: bit_simps)
  then show "bit x k" by (simp add: bit_simps)
next
  assume "bit x k"
  then show "x AND 2 ^ k = 2 ^ k" by (auto intro!: bit_word_eqI simp: bit_simps)
qed

end
