(* ===== verification/Go_Lib.thy ===== *)
theory Go_Lib
  imports Prelude
begin

text \<open>
  The parts of the Go language and its standard library the sources rely on: the big-endian
  accessors of encoding/binary on a byte slice, and buffered channels with the non-blocking
  send and receive of a select statement with a default case. The interface of a bounded
  queue is the locale \<open>bounded_queue\<close>; a Go channel is its interpretation.
\<close>

section \<open>encoding/binary, big endian\<close>

text \<open>
  \<open>PutUint16 i v b\<close> is \<open>binary.BigEndian.PutUint16(b[i:i+2], v)\<close>: it writes in place.
  The slices the code passes always lie inside the array (it panics otherwise).
\<close>

definition PutUint16 :: "nat \<Rightarrow> u16 \<Rightarrow> bytes \<Rightarrow> bytes" where
  "PutUint16 i v b = b[i := ucast (drop_bit 8 v), i + 1 := ucast v]"

definition PutUint32 :: "nat \<Rightarrow> u32 \<Rightarrow> bytes \<Rightarrow> bytes" where
  "PutUint32 i v b = b[i := ucast (drop_bit 24 v), i + 1 := ucast (drop_bit 16 v),
     i + 2 := ucast (drop_bit 8 v), i + 3 := ucast v]"

definition Uint16 :: "nat \<Rightarrow> bytes \<Rightarrow> u16" where
  "Uint16 i b = ucast (b ! (i + 1)) OR push_bit 8 (ucast (b ! i))"

definition Uint32 :: "nat \<Rightarrow> bytes \<Rightarrow> u32" where
  "Uint32 i b = ucast (b ! (i + 3)) OR push_bit 8 (ucast (b ! (i + 2)))
     OR push_bit 16 (ucast (b ! (i + 1))) OR push_bit 24 (ucast (b ! i))"

lemma length_PutUint16 [simp]: "length (PutUint16 i v b) = length b"
  by (simp add: PutUint16_def)

lemma length_PutUint32 [simp]: "length (PutUint32 i v b) = length b"
  by (simp add: PutUint32_def)

lemma join16 [wire_simps]:
  "(ucast (ucast v :: byte) OR push_bit 8 (ucast (ucast (drop_bit 8 v) :: byte)) :: u16) = v"
  by (rule bit_word_eqI) (auto simp: bit_simps)

lemma join32 [wire_simps]:
  "(ucast (ucast v :: byte) OR push_bit 8 (ucast (ucast (drop_bit 8 v) :: byte))
    OR push_bit 16 (ucast (ucast (drop_bit 16 v) :: byte))
    OR push_bit 24 (ucast (ucast (drop_bit 24 v) :: byte)) :: u32) = v"
proof (rule bit_word_eqI)
  fix n assume "n < LENGTH(32)"
  then have n: "n < 8 \<or> (8 \<le> n \<and> n < 16) \<or> (16 \<le> n \<and> n < 24) \<or> (24 \<le> n \<and> n < 32)"
    by auto
  then show "bit (ucast (ucast v :: byte) OR push_bit 8 (ucast (ucast (drop_bit 8 v) :: byte))
    OR push_bit 16 (ucast (ucast (drop_bit 16 v) :: byte))
    OR push_bit 24 (ucast (ucast (drop_bit 24 v) :: byte)) :: u32) n = bit v n"
    by (auto simp: bit_simps)
qed

lemma split16 [wire_simps]:
  fixes x y :: byte
  shows "(ucast (drop_bit 8 (ucast y OR push_bit 8 (ucast x) :: u16)) :: byte) = x"
    and "(ucast (ucast y OR push_bit 8 (ucast x) :: u16) :: byte) = y"
  by (rule bit_word_eqI, auto simp: bit_simps dest: bit_imp_le_length)+

lemma split32 [wire_simps]:
  fixes a b c d :: byte
  defines "w \<equiv> (ucast d OR push_bit 8 (ucast c) OR push_bit 16 (ucast b)
    OR push_bit 24 (ucast a) :: u32)"
  shows "(ucast (drop_bit 24 w) :: byte) = a" and "(ucast (drop_bit 16 w) :: byte) = b"
    and "(ucast (drop_bit 8 w) :: byte) = c" and "(ucast w :: byte) = d"
  unfolding w_def by (rule bit_word_eqI, auto simp: bit_simps dest: bit_imp_le_length)+

lemma bytes_of_Uint16 [wire_simps]:
  "ucast (drop_bit 8 (Uint16 i b)) = b ! i" "ucast (Uint16 i b) = b ! (i + 1)"
  by (simp_all only: Uint16_def split16)

lemma bytes_of_Uint32 [wire_simps]:
  "ucast (drop_bit 24 (Uint32 i b)) = b ! i" "ucast (drop_bit 16 (Uint32 i b)) = b ! (i + 1)"
  "ucast (drop_bit 8 (Uint32 i b)) = b ! (i + 2)" "ucast (Uint32 i b) = b ! (i + 3)"
  by (simp_all only: Uint32_def split32)

section \<open>Buffered channels\<close>

text \<open>
  \<open>trySend\<close> is the send case of a select: None when it would block (the buffer is full);
  \<open>tryRecv\<close> the receive case: None when it would block, \<open>Some None\<close> for the zero value a
  closed and drained channel yields. A send on a closed channel panics in Go; the code
  closes only channels it never sends on.
\<close>

record 'a chan =
  chbuf :: "'a list"
  chcap :: nat
  chclosed :: bool

definition make_chan :: "nat \<Rightarrow> 'a chan" where
  "make_chan n = \<lparr>chbuf = [], chcap = n, chclosed = False\<rparr>"

definition trySend :: "'a \<Rightarrow> 'a chan \<Rightarrow> 'a chan option" where
  "trySend x c = (if length (chbuf c) < chcap c then Some (c\<lparr>chbuf := chbuf c @ [x]\<rparr>) else None)"

definition tryRecv :: "'a chan \<Rightarrow> ('a option \<times> 'a chan) option" where
  "tryRecv c = (case chbuf c of
      x # xs \<Rightarrow> Some (Some x, c\<lparr>chbuf := xs\<rparr>)
    | [] \<Rightarrow> if chclosed c then Some (None, c) else None)"

definition close_chan :: "'a chan \<Rightarrow> 'a chan" where
  "close_chan c = c\<lparr>chclosed := True\<rparr>"

definition chan_ok :: "'a chan \<Rightarrow> bool" where
  "chan_ok c \<longleftrightarrow> length (chbuf c) \<le> chcap c"

lemma chan_ok_make [simp]: "chan_ok (make_chan n)"
  by (simp add: chan_ok_def make_chan_def)

lemma tryRecv_Some:
  "tryRecv c = Some (Some x, q) \<Longrightarrow>
    chbuf c = x # chbuf q \<and> chcap q = chcap c \<and> (chan_ok c \<longrightarrow> chan_ok q)"
  by (auto simp: tryRecv_def chan_ok_def split: list.splits if_splits)

text \<open>The contract of a bounded first-in first-out queue, as the senders rely on it.\<close>

locale bounded_queue =
  fixes put :: "'a \<Rightarrow> 'q \<Rightarrow> 'q option"
    and get :: "'q \<Rightarrow> ('a option \<times> 'q) option"
    and content :: "'q \<Rightarrow> 'a list"
    and capacity :: "'q \<Rightarrow> nat"
    and ok :: "'q \<Rightarrow> bool"
  assumes put_Some: "put x q = Some q' \<Longrightarrow> ok q \<Longrightarrow>
      content q' = content q @ [x] \<and> capacity q' = capacity q \<and> ok q'"
    and put_None: "put x q = None \<longleftrightarrow> capacity q \<le> length (content q)"
    and get_content: "content q = x # xs \<Longrightarrow>
      \<exists>q'. get q = Some (Some x, q') \<and> content q' = xs \<and> capacity q' = capacity q \<and> (ok q \<longrightarrow> ok q')"
    and bounded: "ok q \<Longrightarrow> length (content q) \<le> capacity q"
begin

lemma put_ok: "put x q = Some q' \<Longrightarrow> ok q \<Longrightarrow> ok q'"
  using put_Some by blast

lemma put_content: "put x q = Some q' \<Longrightarrow> ok q \<Longrightarrow> content q' = content q @ [x]"
  using put_Some by blast

lemma put_room: "length (content q) < capacity q \<Longrightarrow> \<exists>q'. put x q = Some q'"
  using put_None [of x q] by (cases "put x q") auto

lemma put_full: "ok q \<Longrightarrow> put x q = None \<Longrightarrow> length (content q) = capacity q"
  using put_None [of x q] bounded [of q] by simp

lemma get_then_room:
  assumes "ok q" and "content q = x # xs"
  obtains q' where "get q = Some (Some x, q')" and "put y q' \<noteq> None"
proof -
  obtain q' where q': "get q = Some (Some x, q')" "content q' = xs" "capacity q' = capacity q"
    using get_content [OF assms(2)] by blast
  have "length (content q') < capacity q'"
    using bounded [OF assms(1)] assms(2) q'(2,3) by simp
  then have "put y q' \<noteq> None" by (simp add: put_None)
  with q'(1) show thesis by (rule that)
qed

end

interpretation ch: bounded_queue trySend tryRecv chbuf chcap chan_ok
  by unfold_locales
    (auto simp: trySend_def tryRecv_def chan_ok_def split: if_splits list.splits)

text \<open>
  A channel of capacity 1 that carries no data (\<open>chan struct{}\<close>) is a token: present or not.
\<close>

end
