(* ===== verification/Yamux_Const.thy ===== *)
theory Yamux_Const
  imports Go_Lib
begin

text \<open>
  yamux/const.go, util.go, mux.go (configuration) and addr.go: the protocol constants, the
  12-byte frame header with its accessors and encoder, the configuration and its check, the
  channel helpers and the address fallbacks.
\<close>

section \<open>Errors\<close>

text \<open>
  The package's error values; \<open>EOF\<close>, \<open>ErrUnexpectedEOF\<close> and \<open>ErrShortWrite\<close> are io's,
  \<open>Errorf\<close> is an error built by fmt.Errorf, \<open>ConnError\<close> one of the underlying connection.
\<close>

datatype yerror =
    ErrInvalidVersion | ErrInvalidMsgType | ErrSessionShutdown | ErrStreamsExhausted
  | ErrDuplicateStream | ErrRecvWindowExceeded | ErrTimeout | ErrStreamClosed
  | ErrUnexpectedFlag | ErrRemoteGoAway | ErrConnectionReset
  | EOF | ErrUnexpectedEOF | ErrShortWrite | Errorf string | ConnError string

section \<open>Constants\<close>

definition protoVersion :: byte where "protoVersion = 0"

definition typeData :: byte where "typeData = 0"
definition typeWindowUpdate :: byte where "typeWindowUpdate = 1"
definition typePing :: byte where "typePing = 2"
definition typeGoAway :: byte where "typeGoAway = 3"

definition flagSYN :: u16 where "flagSYN = 1"
definition flagACK :: u16 where "flagACK = 2"
definition flagFIN :: u16 where "flagFIN = 4"
definition flagRST :: u16 where "flagRST = 8"

definition initialStreamWindow :: u32 where "initialStreamWindow = 256 * 1024"

definition goAwayNormal :: u32 where "goAwayNormal = 0"
definition goAwayProtoErr :: u32 where "goAwayProtoErr = 1"
definition goAwayInternalErr :: u32 where "goAwayInternalErr = 2"

definition headerSize :: nat where "headerSize = 1 + 1 + 2 + 4 + 4"

lemmas type_defs = typeData_def typeWindowUpdate_def typePing_def typeGoAway_def
lemmas flag_defs = flagSYN_def flagACK_def flagFIN_def flagRST_def
lemmas goAway_defs = goAwayNormal_def goAwayProtoErr_def goAwayInternalErr_def

lemma headerSize_12 [simp]: "headerSize = 12"
  by (simp add: headerSize_def)

text \<open>\<open>flags&f == f\<close>\<close>

definition has_flag :: "u16 \<Rightarrow> u16 \<Rightarrow> bool" where
  "has_flag flags f \<longleftrightarrow> flags AND f = f"

lemma has_flag_bits [wire_simps]:
  "has_flag flags flagSYN \<longleftrightarrow> bit flags 0" "has_flag flags flagACK \<longleftrightarrow> bit flags 1"
  "has_flag flags flagFIN \<longleftrightarrow> bit flags 2" "has_flag flags flagRST \<longleftrightarrow> bit flags 3"
  using word_AND_bit_eq [of 0 flags] word_AND_bit_eq [of 1 flags] word_AND_bit_eq [of 2 flags]
    word_AND_bit_eq [of 3 flags]
  by (simp_all add: has_flag_def flag_defs)

section \<open>The frame header\<close>

text \<open>
  A header is a byte slice made with \<open>make([]byte, headerSize)\<close>; the accessors index it,
  so they are used on slices of that length only (\<open>header_ok\<close>, kept by every operation).
\<close>

type_synonym header = bytes

definition header_ok :: "header \<Rightarrow> bool" where
  "header_ok h \<longleftrightarrow> length h = headerSize"

definition make_header :: header where
  "make_header = replicate headerSize 0"

definition Version :: "header \<Rightarrow> byte" where "Version h = h ! 0"
definition MsgType :: "header \<Rightarrow> byte" where "MsgType h = h ! 1"
definition Flags :: "header \<Rightarrow> u16" where "Flags h = Uint16 2 h"
definition StreamID :: "header \<Rightarrow> u32" where "StreamID h = Uint32 4 h"
definition Length :: "header \<Rightarrow> u32" where "Length h = Uint32 8 h"

definition encode :: "byte \<Rightarrow> u16 \<Rightarrow> u32 \<Rightarrow> u32 \<Rightarrow> header \<Rightarrow> header" where
  "encode msgType flags streamID len h =
     PutUint32 8 len (PutUint32 4 streamID (PutUint16 2 flags (h[0 := protoVersion, 1 := msgType])))"

lemmas header_accessor_defs = Version_def MsgType_def Flags_def StreamID_def Length_def

lemma length_encode [simp]: "length (encode t f i l h) = length h"
  by (simp add: encode_def)

lemma header_ok_encode [simp]: "header_ok (encode t f i l h) \<longleftrightarrow> header_ok h"
  by (simp add: header_ok_def)

lemma header_ok_make [simp]: "header_ok make_header"
  by (simp add: header_ok_def make_header_def)

text \<open>The bytes on the wire: network order, one field after the other.\<close>

definition wire_header :: "byte \<Rightarrow> u16 \<Rightarrow> u32 \<Rightarrow> u32 \<Rightarrow> bytes" where
  "wire_header t f i l =
     [protoVersion, t, ucast (drop_bit 8 f), ucast f,
      ucast (drop_bit 24 i), ucast (drop_bit 16 i), ucast (drop_bit 8 i), ucast i,
      ucast (drop_bit 24 l), ucast (drop_bit 16 l), ucast (drop_bit 8 l), ucast l]"

lemma encode_wire: "header_ok h \<Longrightarrow> encode t f i l h = wire_header t f i l"
  unfolding header_ok_def headerSize_12
  by (erule length_eq_12D)
    (simp add: encode_def wire_header_def PutUint16_def PutUint32_def numeral_nat)

lemma decode_wire:
  "Version (wire_header t f i l) = protoVersion" "MsgType (wire_header t f i l) = t"
  "Flags (wire_header t f i l) = f" "StreamID (wire_header t f i l) = i"
  "Length (wire_header t f i l) = l"
  using join16 [of f] join32 [of i] join32 [of l]
  by (simp_all add: wire_header_def header_accessor_defs Uint16_def Uint32_def numeral_nat)

lemma wire_decode:
  assumes "header_ok h"
  shows "wire_header (MsgType h) (Flags h) (StreamID h) (Length h) = h[0 := protoVersion]"
  using assms unfolding header_ok_def headerSize_12
  by (elim length_eq_12D)
    (simp add: wire_header_def header_accessor_defs bytes_of_Uint16 bytes_of_Uint32)

lemma decode_encode [simp]:
  assumes "header_ok h"
  shows "Version (encode t f i l h) = protoVersion" "MsgType (encode t f i l h) = t"
    "Flags (encode t f i l h) = f" "StreamID (encode t f i l h) = i" "Length (encode t f i l h) = l"
  using assms by (simp_all add: encode_wire decode_wire)

section \<open>Configuration\<close>

text \<open>
  Go's \<open>int\<close> and \<open>time.Duration\<close> (nanoseconds) fields are only compared with 0 and stored,
  so they are integers here; the log destination is left out.
\<close>

record config =
  AcceptBacklog :: int
  EnableKeepAlive :: bool
  KeepAliveInterval :: int
  MaxStreamWindowSize :: u32

definition DefaultConfig :: config where
  "DefaultConfig = \<lparr>AcceptBacklog = 256, EnableKeepAlive = True,
     KeepAliveInterval = 30 * 1000000000, MaxStreamWindowSize = initialStreamWindow\<rparr>"

definition VerifyConfig :: "config \<Rightarrow> yerror option" where
  "VerifyConfig c =
     (if AcceptBacklog c \<le> 0 then Some (Errorf ''backlog must be positive'')
      else if KeepAliveInterval c = 0 then Some (Errorf ''keep-alive interval must be positive'')
      else if MaxStreamWindowSize c < initialStreamWindow
        then Some (Errorf ''MaxStreamWindowSize must be larger than 262144'')
      else None)"

definition config_ok :: "config \<Rightarrow> bool" where
  "config_ok c \<longleftrightarrow> 0 < AcceptBacklog c \<and> KeepAliveInterval c \<noteq> 0 \<and>
     initialStreamWindow \<le> MaxStreamWindowSize c"

lemma VerifyConfig_None: "VerifyConfig c = None \<longleftrightarrow> config_ok c"
  by (auto simp: VerifyConfig_def config_ok_def not_less not_le)

lemma DefaultConfig_ok [simp]: "config_ok DefaultConfig"
  by (simp add: config_ok_def DefaultConfig_def)

section \<open>Channel helpers\<close>

definition asyncSendErr :: "'e chan option \<Rightarrow> 'e \<Rightarrow> 'e chan option" where
  "asyncSendErr c err = (case c of
      None \<Rightarrow> None
    | Some ch \<Rightarrow> (case trySend err ch of None \<Rightarrow> Some ch | Some ch' \<Rightarrow> Some ch'))"

definition asyncNotify :: "unit chan \<Rightarrow> unit chan" where
  "asyncNotify c = (case trySend () c of None \<Rightarrow> c | Some c' \<Rightarrow> c')"

definition yamux_min :: "u32 \<Rightarrow> u32 \<Rightarrow> u32" where
  "yamux_min a b = (if a < b then a else b)"

lemma yamux_min_le: "yamux_min a b \<le> a" "yamux_min a b \<le> b"
  by (auto simp: yamux_min_def)

lemma asyncNotify_ok [simp]: "chan_ok c \<Longrightarrow> chan_ok (asyncNotify c)"
  by (auto simp: asyncNotify_def split: option.split dest: ch.put_ok)

lemma asyncNotify_nonempty: "0 < chcap c \<Longrightarrow> chbuf (asyncNotify c) \<noteq> []"
  by (auto simp: asyncNotify_def trySend_def)

lemma asyncNotify_cap [simp]: "chcap (asyncNotify c) = chcap c"
  by (auto simp: asyncNotify_def trySend_def)

section \<open>Addresses\<close>

text \<open>
  The connection either has addresses (the type assertion to \<open>hasAddr\<close> succeeds: the pair
  of its local and remote address) or it does not, and a \<open>yamuxAddr\<close> stands in.
\<close>

datatype 'a addr = ConnAddr 'a | YamuxAddr string

fun Network :: "('a \<Rightarrow> string) \<Rightarrow> 'a addr \<Rightarrow> string" where
  "Network net (ConnAddr a) = net a"
| "Network net (YamuxAddr s) = ''yamux''"

fun addr_String :: "('a \<Rightarrow> string) \<Rightarrow> 'a addr \<Rightarrow> string" where
  "addr_String str (ConnAddr a) = str a"
| "addr_String str (YamuxAddr s) = ''yamux:'' @ s"

definition LocalAddr :: "('a \<times> 'a) option \<Rightarrow> 'a addr" where
  "LocalAddr hasAddr = (case hasAddr of None \<Rightarrow> YamuxAddr ''local'' | Some (l, r) \<Rightarrow> ConnAddr l)"

definition RemoteAddr :: "('a \<times> 'a) option \<Rightarrow> 'a addr" where
  "RemoteAddr hasAddr = (case hasAddr of None \<Rightarrow> YamuxAddr ''remote'' | Some (l, r) \<Rightarrow> ConnAddr r)"

section \<open>Properties\<close>

text \<open>
  Encoding writes the version byte and every field in network order, and the accessors
  read back exactly what was encoded; conversely a 12-byte header of the current version is
  the encoding of its own fields.
\<close>

theorem header_codec:
  assumes "header_ok h"
  shows "encode t f i l h = wire_header t f i l \<and>
    Version (encode t f i l h) = protoVersion \<and> MsgType (encode t f i l h) = t \<and>
    Flags (encode t f i l h) = f \<and> StreamID (encode t f i l h) = i \<and> Length (encode t f i l h) = l \<and>
    (Version h = protoVersion \<longrightarrow> encode (MsgType h) (Flags h) (StreamID h) (Length h) h = h)"
proof -
  have "h[0 := protoVersion] = h" if "Version h = protoVersion"
    using that list_update_id [of h 0] by (simp add: Version_def)
  then show ?thesis
    using assms wire_decode [OF assms] by (simp add: encode_wire decode_wire)
qed

theorem header_codec_witness:
  "encode typePing flagACK 0x01020304 77 make_header = [0, 2, 0, 2, 1, 2, 3, 4, 0, 0, 0, 77] \<and>
   StreamID (encode typePing flagACK 0x01020304 77 make_header) = 0x01020304"
proof -
  have "wire_header typePing flagACK 0x01020304 77 = [0, 2, 0, 2, 1, 2, 3, 4, 0, 0, 0, 77]"
    by (simp add: wire_header_def typePing_def flagACK_def protoVersion_def drop_bit_eq_div)
  with header_codec [OF header_ok_make, of typePing flagACK "0x01020304" 77] show ?thesis by metis
qed

end
