(* ===== verification/Yamux_State.thy ===== *)
theory Yamux_State
  imports Yamux_Const
begin

text \<open>
  The state of yamux (session.go, stream.go): streams, the session, the connection under it
  and the two goroutines' mailboxes. A \<open>*Stream\<close> is an index into the session's object
  table \<open>objs\<close>, because a stream outlives its entry in the \<open>streams\<close> map and is shared
  between that map, the accept queue and the application. The mutexes are left out: every
  definition below is one critical section, and the points where the code blocks on a
  channel split a method into its parts.
\<close>

section \<open>Streams\<close>

datatype streamState =
    streamInit | streamSYNSent | streamSYNReceived | streamEstablished
  | streamLocalClose | streamRemoteClose | streamClosed | streamReset

record stream =
  recvWindow :: u32
  sendWindow :: u32
  stream_id :: u32
  state :: streamState
  recvBuf :: bytes
  controlHdr :: header
  controlErr :: "yerror option chan"
  sendHdr :: header
  sendErr :: "yerror option chan"
  recvNotifyCh :: "unit chan"
  sendNotifyCh :: "unit chan"
  readDeadline :: "int option"
  writeDeadline :: "int option"

definition new_stream :: "u32 \<Rightarrow> streamState \<Rightarrow> stream" where
  "new_stream i st = \<lparr>recvWindow = initialStreamWindow, sendWindow = initialStreamWindow,
     stream_id = i, state = st, recvBuf = [],
     controlHdr = make_header, controlErr = make_chan 1,
     sendHdr = make_header, sendErr = make_chan 1,
     recvNotifyCh = make_chan 1, sendNotifyCh = make_chan 1,
     readDeadline = None, writeDeadline = None\<rparr>"

definition stream_ok :: "stream \<Rightarrow> bool" where
  "stream_ok st \<longleftrightarrow> header_ok (controlHdr st) \<and> header_ok (sendHdr st) \<and>
     chan_ok (recvNotifyCh st) \<and> chcap (recvNotifyCh st) = 1 \<and>
     chan_ok (sendNotifyCh st) \<and> chcap (sendNotifyCh st) = 1 \<and>
     chan_ok (controlErr st) \<and> chcap (controlErr st) = 1 \<and>
     chan_ok (sendErr st) \<and> chcap (sendErr st) = 1"

lemma stream_ok_new [simp]: "stream_ok (new_stream i st)"
  by (simp add: stream_ok_def new_stream_def make_chan_def chan_ok_def)

section \<open>The connection\<close>

text \<open>
  \<open>conn_in\<close> holds the bytes the buffered reader will still deliver and \<open>conn_end\<close> the error
  after them (None while the peer may send more: a read then blocks). \<open>conn_out\<close> collects
  what was written. \<open>conn_wplan\<close> is the environment's answer to each Write: how many bytes it
  accepts, and an error or none; when it is used up every Write succeeds in full.
\<close>

datatype wres = WOk nat | WErr nat yerror

record conn =
  conn_in :: bytes
  conn_end :: "yerror option"
  conn_out :: bytes
  conn_wplan :: "wres list"
  conn_closed :: bool

definition err_closed :: yerror where
  "err_closed = ConnError ''use of closed network connection''"

fun conn_Write :: "bytes \<Rightarrow> conn \<Rightarrow> (nat \<times> yerror option) \<times> conn" where
  "conn_Write b c =
     (if conn_closed c then ((0, Some err_closed), c)
      else case conn_wplan c of
        [] \<Rightarrow> ((length b, None), c\<lparr>conn_out := conn_out c @ b\<rparr>)
      | WOk n # ws \<Rightarrow> ((min n (length b), None),
          c\<lparr>conn_out := conn_out c @ take n b, conn_wplan := ws\<rparr>)
      | WErr n e # ws \<Rightarrow> ((min n (length b), Some e),
          c\<lparr>conn_out := conn_out c @ take n b, conn_wplan := ws\<rparr>))"

declare conn_Write.simps [simp del]

definition conn_Close :: "conn \<Rightarrow> conn" where
  "conn_Close c = c\<lparr>conn_closed := True,
     conn_end := (case conn_end c of None \<Rightarrow> Some err_closed | Some e \<Rightarrow> Some e)\<rparr>"

section \<open>Sessions\<close>

text \<open>
  \<open>errref\<close> names the error channel of a send request: none, a stream's \<open>controlErr\<close> or
  \<open>sendErr\<close>, or a channel made for one call of \<open>waitForSend\<close>.
\<close>

datatype errref = NoErr | ControlErr nat | SendErr nat | FreshErr nat

record sendReady =
  Hdr :: "header option"
  Body :: "bytes option"
  Err :: errref

text \<open>
  The fields after \<open>shutdownCh\<close> are not fields of the Go struct: the object tables, whether
  the send goroutine has returned, the runtime's choices in a select statement with several
  ready cases (\<open>coins\<close>), and the time.
\<close>

record session =
  remoteGoAway :: u32
  localGoAway :: u32
  nextStreamID :: u32
  cfg :: config
  yconn :: conn
  pings :: "(u32 \<times> nat) list"
  pingID :: u32
  streams :: "(u32 \<times> nat) list"
  acceptCh :: "nat chan"
  sendCh :: "sendReady chan"
  shutdown :: bool
  shutdownErr :: "yerror option"
  shutdownCh :: "unit chan"
  objs :: "stream list"
  errChs :: "yerror option chan list"
  pingChs :: "unit chan list"
  send_exited :: bool
  coins :: "bool list"
  clock :: int

definition newSession :: "config \<Rightarrow> conn \<Rightarrow> bool \<Rightarrow> session" where
  "newSession config c client =
     \<lparr>remoteGoAway = 0, localGoAway = 0,
      nextStreamID = (if client then 1 else 2),
      cfg = config, yconn = c, pings = [], pingID = 0, streams = [],
      acceptCh = make_chan (nat (AcceptBacklog config)), sendCh = make_chan 64,
      shutdown = False, shutdownErr = None, shutdownCh = make_chan 0,
      objs = [], errChs = [], pingChs = [], send_exited = False, coins = [], clock = 0\<rparr>"

definition yamux_Server :: "conn \<Rightarrow> config option \<Rightarrow> yerror + session" where
  "yamux_Server c config =
     (let config = (case config of None \<Rightarrow> DefaultConfig | Some k \<Rightarrow> k)
      in case VerifyConfig config of Some e \<Rightarrow> Inl e | None \<Rightarrow> Inr (newSession config c False))"

definition yamux_Client :: "conn \<Rightarrow> config option \<Rightarrow> yerror + session" where
  "yamux_Client c config =
     (let config = (case config of None \<Rightarrow> DefaultConfig | Some k \<Rightarrow> k)
      in case VerifyConfig config of Some e \<Rightarrow> Inl e | None \<Rightarrow> Inr (newSession config c True))"

definition IsClosed :: "session \<Rightarrow> bool" where
  "IsClosed s = chclosed (shutdownCh s)"

text \<open>The object table.\<close>

definition strm :: "session \<Rightarrow> nat \<Rightarrow> stream" where
  "strm s p = objs s ! p"

definition upd :: "nat \<Rightarrow> (stream \<Rightarrow> stream) \<Rightarrow> session \<Rightarrow> session" where
  "upd p f s = s\<lparr>objs := (objs s)[p := f (objs s ! p)]\<rparr>"

definition newStream :: "u32 \<Rightarrow> streamState \<Rightarrow> session \<Rightarrow> nat \<times> session" where
  "newStream i st s = (length (objs s), s\<lparr>objs := objs s @ [new_stream i st]\<rparr>)"

lemma strm_upd_same [simp]: "p < length (objs s) \<Longrightarrow> strm (upd p f s) p = f (strm s p)"
  by (simp add: strm_def upd_def)

lemma strm_upd_other [simp]: "p \<noteq> q \<Longrightarrow> strm (upd p f s) q = strm s q"
  by (simp add: strm_def upd_def)

lemma upd_sel [simp]:
  "remoteGoAway (upd p f s) = remoteGoAway s" "localGoAway (upd p f s) = localGoAway s"
  "nextStreamID (upd p f s) = nextStreamID s" "cfg (upd p f s) = cfg s"
  "yconn (upd p f s) = yconn s" "pings (upd p f s) = pings s" "pingID (upd p f s) = pingID s"
  "streams (upd p f s) = streams s" "acceptCh (upd p f s) = acceptCh s"
  "sendCh (upd p f s) = sendCh s" "shutdown (upd p f s) = shutdown s"
  "shutdownErr (upd p f s) = shutdownErr s" "shutdownCh (upd p f s) = shutdownCh s"
  "length (objs (upd p f s)) = length (objs s)" "errChs (upd p f s) = errChs s"
  "pingChs (upd p f s) = pingChs s" "send_exited (upd p f s) = send_exited s"
  "coins (upd p f s) = coins s" "clock (upd p f s) = clock s"
  by (simp_all add: upd_def)

lemma strm_ghost [simp]:
  "strm (s\<lparr>remoteGoAway := g\<rparr>) p = strm s p" "strm (s\<lparr>localGoAway := g\<rparr>) p = strm s p"
  "strm (s\<lparr>nextStreamID := g\<rparr>) p = strm s p" "strm (s\<lparr>yconn := c\<rparr>) p = strm s p"
  "strm (s\<lparr>pings := m\<rparr>) p = strm s p" "strm (s\<lparr>pingID := g\<rparr>) p = strm s p"
  "strm (s\<lparr>streams := ms\<rparr>) p = strm s p" "strm (s\<lparr>acceptCh := ac\<rparr>) p = strm s p"
  "strm (s\<lparr>sendCh := q\<rparr>) p = strm s p" "strm (s\<lparr>errChs := es\<rparr>) p = strm s p"
  "strm (s\<lparr>pingChs := ps\<rparr>) p = strm s p" "strm (s\<lparr>send_exited := b\<rparr>) p = strm s p"
  "strm (s\<lparr>coins := cs\<rparr>) p = strm s p" "strm (s\<lparr>clock := k\<rparr>) p = strm s p"
  by (simp_all add: strm_def)

section \<open>Select statements\<close>

text \<open>
  A select over two cases takes a ready one; when both are ready the runtime chooses (the
  next coin; the first case when none is left).
\<close>

datatype sel = First | Second

definition select2 :: "bool \<Rightarrow> bool \<Rightarrow> session \<Rightarrow> sel option \<times> session" where
  "select2 a b s =
     (if a \<and> b then (case coins s of
          [] \<Rightarrow> (Some First, s)
        | c # cs \<Rightarrow> (Some (if c then First else Second), s\<lparr>coins := cs\<rparr>))
      else if a then (Some First, s)
      else if b then (Some Second, s)
      else (None, s))"

lemma select2_None: "fst (select2 a b s) = None \<longleftrightarrow> \<not> a \<and> \<not> b"
  by (auto simp: select2_def split: list.splits)

lemma select2_First: "select2 a b s = (Some First, s') \<Longrightarrow> a"
  by (auto simp: select2_def split: list.splits if_splits)

lemma select2_Second: "select2 a b s = (Some Second, s') \<Longrightarrow> b"
  by (auto simp: select2_def split: list.splits if_splits)

lemma select2_simps [simp]:
  "select2 True False s = (Some First, s)" "select2 False True s = (Some Second, s)"
  "select2 False False s = (None, s)"
  by (simp_all add: select2_def)

lemma select2_state: "select2 a b s = (r, s') \<Longrightarrow> s' = s\<lparr>coins := coins s'\<rparr>"
  by (auto simp: select2_def split: list.splits if_splits)

section \<open>Well-formed sessions\<close>

text \<open>
  Every reference points to an object, headers have their length, channels respect their
  capacity, the channel of a pending ping is open, and the shutdown flag, the shutdown channel and the connection agree.
\<close>

definition ref_ok :: "session \<Rightarrow> errref \<Rightarrow> bool" where
  "ref_ok s r = (case r of NoErr \<Rightarrow> True
     | ControlErr p \<Rightarrow> p < length (objs s)
     | SendErr p \<Rightarrow> p < length (objs s)
     | FreshErr n \<Rightarrow> n < length (errChs s))"

definition ready_ok :: "session \<Rightarrow> sendReady \<Rightarrow> bool" where
  "ready_ok s r \<longleftrightarrow> ref_ok s (Err r) \<and> (case Hdr r of None \<Rightarrow> True | Some h \<Rightarrow> header_ok h)"

definition objs_ok :: "session \<Rightarrow> bool" where
  "objs_ok s \<longleftrightarrow> (\<forall>st \<in> set (objs s). stream_ok st) \<and>
     (\<forall>c \<in> set (errChs s). chan_ok c \<and> chcap c = 1)"

definition table_ok :: "session \<Rightarrow> bool" where
  "table_ok s \<longleftrightarrow> distinct (map fst (streams s)) \<and>
     (\<forall>(i, p) \<in> set (streams s). p < length (objs s) \<and> stream_id (strm s p) = i) \<and>
     (\<forall>p \<in> set (chbuf (acceptCh s)). p < length (objs s)) \<and>
     distinct (map fst (pings s)) \<and> distinct (map snd (pings s)) \<and>
     (\<forall>(i, c) \<in> set (pings s). c < length (pingChs s) \<and> \<not> chclosed (pingChs s ! c))"

definition chans_ok :: "session \<Rightarrow> bool" where
  "chans_ok s \<longleftrightarrow> chan_ok (acceptCh s) \<and> chcap (acceptCh s) = nat (AcceptBacklog (cfg s)) \<and>
     chan_ok (sendCh s) \<and> chcap (sendCh s) = 64 \<and>
     (\<forall>r \<in> set (chbuf (sendCh s)). ready_ok s r)"

definition shutdown_ok :: "session \<Rightarrow> bool" where
  "shutdown_ok s \<longleftrightarrow> (shutdown s \<longleftrightarrow> chclosed (shutdownCh s)) \<and>
     (shutdown s \<longrightarrow> shutdownErr s \<noteq> None \<and> conn_closed (yconn s) \<and> conn_end (yconn s) \<noteq> None)"

definition session_ok :: "session \<Rightarrow> bool" where
  "session_ok s \<longleftrightarrow> objs_ok s \<and> table_ok s \<and> chans_ok s \<and> shutdown_ok s \<and> config_ok (cfg s)"

lemmas session_ok_defs = session_ok_def objs_ok_def table_ok_def chans_ok_def shutdown_ok_def

lemma newSession_ok: "config_ok c \<Longrightarrow> session_ok (newSession c k b)"
  by (simp add: session_ok_defs newSession_def make_chan_def chan_ok_def)

lemma stream_ok_strm: "session_ok s \<Longrightarrow> p < length (objs s) \<Longrightarrow> stream_ok (strm s p)"
  by (simp add: session_ok_defs strm_def)

end
