(* ===== verification/Yamux_Send.thy ===== *)
theory Yamux_Send
  imports Yamux_State
begin

text \<open>
  The sending side of a session (session.go) and the operations it needs from stream.go:
  closing the session, the send goroutine, and the calls that hand it a header and wait.
  When a caller waits for the send goroutine, that goroutine runs (\<open>send_step\<close>); the choice
  a select makes between a ready send and a closed \<open>shutdownCh\<close> is \<open>select2\<close>'s.
\<close>

section \<open>Closing\<close>

definition set_state :: "nat \<Rightarrow> streamState \<Rightarrow> session \<Rightarrow> session" where
  "set_state p st = upd p (\<lambda>x. x\<lparr>state := st\<rparr>)"

definition notifyWaiting :: "nat \<Rightarrow> session \<Rightarrow> session" where
  "notifyWaiting p = upd p (\<lambda>x. x\<lparr>recvNotifyCh := asyncNotify (recvNotifyCh x),
     sendNotifyCh := asyncNotify (sendNotifyCh x)\<rparr>)"

definition forceClose :: "nat \<Rightarrow> session \<Rightarrow> session" where
  "forceClose p s = notifyWaiting p (set_state p streamClosed s)"

definition closeStream :: "u32 \<Rightarrow> session \<Rightarrow> session" where
  "closeStream i s = s\<lparr>streams := AList.delete i (streams s)\<rparr>"

text \<open>Close holds the shutdown lock and the stream lock; it always returns nil.\<close>

definition Session_Close :: "session \<Rightarrow> session" where
  "Session_Close s =
     (if shutdown s then s
      else
        let s = s\<lparr>shutdown := True\<rparr>;
            s = (if shutdownErr s = None then s\<lparr>shutdownErr := Some ErrSessionShutdown\<rparr> else s);
            s = s\<lparr>shutdownCh := close_chan (shutdownCh s)\<rparr>;
            s = s\<lparr>yconn := conn_Close (yconn s)\<rparr>
        in fold (\<lambda>(i, p). forceClose p) (streams s) s)"

definition exitErr :: "yerror \<Rightarrow> session \<Rightarrow> session" where
  "exitErr e s = Session_Close (if shutdownErr s = None then s\<lparr>shutdownErr := Some e\<rparr> else s)"

definition goAway :: "u32 \<Rightarrow> session \<Rightarrow> header \<times> session" where
  "goAway reason s = (encode typeGoAway 0 0 reason make_header, s\<lparr>localGoAway := 1\<rparr>)"

section \<open>Error channels\<close>

definition errch :: "errref \<Rightarrow> session \<Rightarrow> yerror option chan option" where
  "errch r s = (case r of NoErr \<Rightarrow> None
     | ControlErr p \<Rightarrow> Some (controlErr (strm s p))
     | SendErr p \<Rightarrow> Some (sendErr (strm s p))
     | FreshErr n \<Rightarrow> Some (errChs s ! n))"

definition set_errch :: "errref \<Rightarrow> yerror option chan \<Rightarrow> session \<Rightarrow> session" where
  "set_errch r c s = (case r of NoErr \<Rightarrow> s
     | ControlErr p \<Rightarrow> upd p (\<lambda>x. x\<lparr>controlErr := c\<rparr>) s
     | SendErr p \<Rightarrow> upd p (\<lambda>x. x\<lparr>sendErr := c\<rparr>) s
     | FreshErr n \<Rightarrow> s\<lparr>errChs := (errChs s)[n := c]\<rparr>)"

definition putErr :: "errref \<Rightarrow> yerror option \<Rightarrow> session \<Rightarrow> session" where
  "putErr r e s = (case asyncSendErr (errch r s) e of None \<Rightarrow> s | Some c \<Rightarrow> set_errch r c s)"

section \<open>The send goroutine\<close>

text \<open>
  The header loop of send() re-slices and writes until everything is sent; io.Copy from a
  bytes.Reader is one Write of the rest, and a short one is io.ErrShortWrite.
\<close>

function write_hdr :: "bytes \<Rightarrow> conn \<Rightarrow> yerror option \<times> conn" where
  "write_hdr b c =
     (if b = [] then (None, c)
      else case conn_Write b c of
        ((n, Some e), c') \<Rightarrow> (Some e, c')
      | ((n, None), c') \<Rightarrow> write_hdr (drop n b) c')"
  by pat_completeness auto
termination
  by (relation "measure (\<lambda>(b, c). length b + length (conn_wplan c))")
    (auto simp: conn_Write.simps split: if_splits list.splits wres.splits)

declare write_hdr.simps [simp del]

definition copy_body :: "bytes \<Rightarrow> conn \<Rightarrow> yerror option \<times> conn" where
  "copy_body b c =
     (if b = [] then (None, c)
      else case conn_Write b c of
        ((n, Some e), c') \<Rightarrow> (Some e, c')
      | ((n, None), c') \<Rightarrow> (if n \<noteq> length b then Some ErrShortWrite else None, c'))"

text \<open>What the body of the loop does with one request.\<close>

definition send_one :: "sendReady \<Rightarrow> session \<Rightarrow> session" where
  "send_one r s =
     (case (case Hdr r of None \<Rightarrow> (None, yconn s) | Some h \<Rightarrow> write_hdr h (yconn s)) of
        (Some e, c) \<Rightarrow> exitErr e (putErr (Err r) (Some e) (s\<lparr>yconn := c\<rparr>))\<lparr>send_exited := True\<rparr>
      | (None, c) \<Rightarrow>
        (case (case Body r of None \<Rightarrow> (None, c) | Some b \<Rightarrow> copy_body b c) of
           (Some e, c') \<Rightarrow> exitErr e (putErr (Err r) (Some e) (s\<lparr>yconn := c'\<rparr>))\<lparr>send_exited := True\<rparr>
         | (None, c') \<Rightarrow> putErr (Err r) None (s\<lparr>yconn := c'\<rparr>)))"

text \<open>One iteration of the loop; the state is unchanged while the goroutine is blocked.\<close>

definition send_step :: "session \<Rightarrow> session" where
  "send_step s =
     (if send_exited s then s
      else case select2 (chbuf (sendCh s) \<noteq> []) (chclosed (shutdownCh s)) s of
        (None, s') \<Rightarrow> s'
      | (Some Second, s') \<Rightarrow> s'\<lparr>send_exited := True\<rparr>
      | (Some First, s') \<Rightarrow>
          (case tryRecv (sendCh s') of
             Some (Some r, q) \<Rightarrow> send_one r (s'\<lparr>sendCh := q\<rparr>)
           | _ \<Rightarrow> s'))"

section \<open>Handing over a request\<close>

text \<open>The select of \<open>sendNoWait\<close>, which is also the first one of \<open>waitForSendErr\<close>.\<close>

definition offer :: "sendReady \<Rightarrow> session \<Rightarrow> yerror option outcome \<times> session" where
  "offer r s =
     (case select2 (length (chbuf (sendCh s)) < chcap (sendCh s)) (chclosed (shutdownCh s)) s of
        (None, s') \<Rightarrow> (Block, s')
      | (Some Second, s') \<Rightarrow> (Ret (Some ErrSessionShutdown), s')
      | (Some First, s') \<Rightarrow>
          (case trySend r (sendCh s') of
             Some q \<Rightarrow> (Ret None, s'\<lparr>sendCh := q\<rparr>)
           | None \<Rightarrow> (Block, s')))"

definition offer_wait :: "sendReady \<Rightarrow> session \<Rightarrow> yerror option outcome \<times> session" where
  "offer_wait r s = (case offer r s of (Block, s') \<Rightarrow> offer r (send_step s') | res \<Rightarrow> res)"

definition sendNoWait :: "header \<Rightarrow> session \<Rightarrow> yerror option outcome \<times> session" where
  "sendNoWait hdr s = offer_wait \<lparr>Hdr = Some hdr, Body = None, Err = NoErr\<rparr> s"

text \<open>
  The second select of \<open>waitForSendErr\<close>. The request is somewhere in the queue, so the send
  goroutine reaches it within as many iterations as the queue is long.
\<close>

fun awaitErr :: "nat \<Rightarrow> errref \<Rightarrow> session \<Rightarrow> yerror option outcome \<times> session" where
  "awaitErr n r s =
     (case select2 (case errch r s of None \<Rightarrow> False | Some c \<Rightarrow> chbuf c \<noteq> []) (chclosed (shutdownCh s)) s of
        (Some Second, s') \<Rightarrow> (Ret (Some ErrSessionShutdown), s')
      | (Some First, s') \<Rightarrow>
          (case map_option tryRecv (errch r s') of
             Some (Some (Some e, c)) \<Rightarrow> (Ret e, set_errch r c s')
           | _ \<Rightarrow> (Block, s'))
      | (None, s') \<Rightarrow> (case n of 0 \<Rightarrow> (Block, s') | Suc m \<Rightarrow> awaitErr m r (send_step s')))"

declare awaitErr.simps [simp del]

definition waitForSendErr ::
  "header \<Rightarrow> bytes option \<Rightarrow> errref \<Rightarrow> session \<Rightarrow> yerror option outcome \<times> session" where
  "waitForSendErr hdr body errCh s =
     (case offer_wait \<lparr>Hdr = Some hdr, Body = body, Err = errCh\<rparr> s of
        (Ret None, s') \<Rightarrow> awaitErr (length (chbuf (sendCh s'))) errCh s'
      | res \<Rightarrow> res)"

definition waitForSend :: "header \<Rightarrow> bytes option \<Rightarrow> session \<Rightarrow> yerror option outcome \<times> session" where
  "waitForSend hdr body s =
     waitForSendErr hdr body (FreshErr (length (errChs s))) (s\<lparr>errChs := errChs s @ [make_chan 1]\<rparr>)"

definition GoAway :: "session \<Rightarrow> yerror option outcome \<times> session" where
  "GoAway s = (case goAway goAwayNormal s of (hdr, s') \<Rightarrow> waitForSend hdr None s')"

section \<open>Every operation keeps a session well-formed\<close>

text \<open>
  A stream only moves forward, in the preorder of its states: it leaves streamInit for good, a side that has stopped writing
  never writes again, and the end of the peer's data is final.
\<close>

definition writable :: "streamState \<Rightarrow> bool" where
  "writable st \<longleftrightarrow> st \<noteq> streamLocalClose \<and> st \<noteq> streamClosed \<and> st \<noteq> streamReset"

definition remote_done :: "streamState \<Rightarrow> bool" where
  "remote_done st \<longleftrightarrow> st = streamRemoteClose \<or> st = streamClosed \<or> st = streamReset"

instantiation streamState :: preorder
begin

definition less_eq_streamState :: "streamState \<Rightarrow> streamState \<Rightarrow> bool" where
  "a \<le> b \<longleftrightarrow> (a \<noteq> streamInit \<longrightarrow> b \<noteq> streamInit) \<and> (writable b \<longrightarrow> writable a) \<and>
     (remote_done a \<longrightarrow> remote_done b)"

definition less_streamState :: "streamState \<Rightarrow> streamState \<Rightarrow> bool" where
  "a < b \<longleftrightarrow> a \<le> b \<and> \<not> b \<le> (a :: streamState)"

instance
  by standard (auto simp: less_eq_streamState_def less_streamState_def)

end

abbreviation later :: "streamState \<Rightarrow> streamState \<Rightarrow> bool" where
  "later a b \<equiv> a \<le> b"

lemmas later_def = less_eq_streamState_def

lemma later_moves [simp]:
  "later a streamClosed" "later a streamReset" "later streamInit streamSYNSent"
  "later streamSYNReceived streamEstablished" "later streamSYNSent streamEstablished"
  "later streamSYNSent streamRemoteClose" "later streamSYNReceived streamRemoteClose"
  "later streamEstablished streamRemoteClose" "later streamSYNSent streamLocalClose"
  "later streamSYNReceived streamLocalClose" "later streamEstablished streamLocalClose"
  by (simp_all add: later_def writable_def remote_done_def)

text \<open>
  \<open>evolves s s'\<close>: the later state is well-formed, its tables only grow, streams keep their
  identity and move forward, new ones have left streamInit, and a shut-down session stays so.
  Every operation is shown to evolve the state.
\<close>

definition evolves :: "session \<Rightarrow> session \<Rightarrow> bool" where
  "evolves s s' \<longleftrightarrow> session_ok s' \<and> cfg s' = cfg s \<and>
     length (objs s) \<le> length (objs s') \<and> length (errChs s) \<le> length (errChs s') \<and>
     length (pingChs s) \<le> length (pingChs s') \<and>
     (\<forall>p < length (objs s). stream_id (strm s' p) = stream_id (strm s p) \<and>
       later (state (strm s p)) (state (strm s' p))) \<and>
     (\<forall>p. length (objs s) \<le> p \<and> p < length (objs s') \<longrightarrow> state (strm s' p) \<noteq> streamInit) \<and>
     (shutdown s \<longrightarrow> shutdown s') \<and>
     length (conn_in (yconn s')) \<le> length (conn_in (yconn s))"

lemma evolves_ok: "evolves s s' \<Longrightarrow> session_ok s'"
  by (simp add: evolves_def)

lemma evolves_refl: "session_ok s \<Longrightarrow> evolves s s"
  by (auto simp: evolves_def)

lemma evolves_trans [trans]: "evolves s t \<Longrightarrow> evolves t u \<Longrightarrow> evolves s u"
proof -
  assume st: "evolves s t" and tu: "evolves t u"
  have "state (strm u p) \<noteq> streamInit" if "length (objs s) \<le> p" "p < length (objs u)" for p
  proof (cases "p < length (objs t)")
    case True
    then show ?thesis using st tu that by (simp add: evolves_def later_def)
  next
    case False
    then show ?thesis using tu that by (simp add: evolves_def)
  qed
  with st tu show ?thesis by (auto simp: evolves_def intro: order_trans)
qed

lemma evolves_ptr: "evolves s s' \<Longrightarrow> p < length (objs s) \<Longrightarrow> p < length (objs s')"
  by (simp add: evolves_def)

lemma evolves_ref: "evolves s s' \<Longrightarrow> ref_ok s r \<Longrightarrow> ref_ok s' r"
  by (auto simp: evolves_def ref_ok_def split: errref.splits)

lemma session_ok_upd:
  assumes "session_ok s"
    and "\<And>st. stream_ok st \<Longrightarrow> stream_ok (f st)" and "\<And>st. stream_id (f st) = stream_id st"
  shows "session_ok (upd p f s)"
proof -
  have obj: "stream_ok st" if "st \<in> set ((objs s)[p := f (objs s ! p)])" for st
  proof (cases "p < length (objs s)")
    case True
    then have "stream_ok (objs s ! p)" using assms(1) by (simp add: session_ok_defs)
    then show ?thesis
      using that assms(1) set_update_subset_insert [of "objs s" p "f (objs s ! p)"]
      by (auto simp: session_ok_defs intro: assms(2))
  next
    case False
    then have "st \<in> set (objs s)" using that by (simp add: list_update_beyond)
    then show ?thesis using assms(1) by (simp add: session_ok_defs)
  qed
  have sid: "stream_id (strm (upd p f s) q) = stream_id (strm s q)" if "q < length (objs s)" for q
    using that by (cases "q = p") (simp_all add: assms(3))
  show ?thesis
    using assms(1) obj sid
    by (auto simp: session_ok_defs ready_ok_def ref_ok_def upd_def strm_def
        split: errref.splits option.splits)
qed

lemma evolves_upd [wf_intros]:
  assumes "session_ok s"
    and "\<And>st. stream_ok st \<Longrightarrow> stream_ok (f st)" and "\<And>st. stream_id (f st) = stream_id st"
    and "later (state (strm s p)) (state (f (strm s p)))"
  shows "evolves s (upd p f s)"
proof -
  have "stream_id (strm (upd p f s) q) = stream_id (strm s q) \<and>
      later (state (strm s q)) (state (strm (upd p f s) q))" if "q < length (objs s)" for q
    using that assms(3,4) by (cases "q = p") simp_all
  then show ?thesis by (auto simp: evolves_def session_ok_upd [OF assms(1-3)])
qed

lemma stream_ok_state [simp]: "stream_ok (st\<lparr>state := x\<rparr>) = stream_ok st"
  by (simp add: stream_ok_def)

lemma evolves_set_state [wf_intros]:
  "session_ok s \<Longrightarrow> later (state (strm s p)) st \<Longrightarrow> evolves s (set_state p st s)"
  unfolding set_state_def by (rule evolves_upd) auto

lemma evolves_notifyWaiting [wf_intros]: "session_ok s \<Longrightarrow> evolves s (notifyWaiting p s)"
  unfolding notifyWaiting_def by (rule evolves_upd) (auto simp: stream_ok_def)

lemma evolves_forceClose [wf_intros]: "session_ok s \<Longrightarrow> evolves s (forceClose p s)"
  unfolding forceClose_def
  by (meson evolves_trans evolves_ok evolves_set_state evolves_notifyWaiting later_moves(1))

lemma evolves_closeStream [wf_intros]: "session_ok s \<Longrightarrow> evolves s (closeStream i s)"
  using set_delete_subset [of i "streams s"]
  by (auto simp: evolves_def closeStream_def session_ok_defs strm_def ready_ok_def ref_ok_def
      distinct_keys_delete split: errref.splits option.splits)

lemma evolves_fold_forceClose:
  "session_ok s \<Longrightarrow> evolves s (fold (\<lambda>(i, p). forceClose p) xs s)"
proof (induction xs arbitrary: s)
  case Nil
  then show ?case by (simp add: evolves_refl)
next
  case (Cons x xs)
  obtain i p where x: "x = (i, p)" by (cases x)
  have "evolves s (forceClose p s)" using Cons.prems by (rule evolves_forceClose)
  also have "evolves \<dots> (fold (\<lambda>(i, p). forceClose p) xs \<dots>)"
    by (rule Cons.IH) (rule evolves_ok [OF calculation])
  finally show ?case by (simp add: x)
qed

text \<open>The state in which Close notifies the streams.\<close>

definition mark_closed :: "session \<Rightarrow> session" where
  "mark_closed s = s\<lparr>shutdown := True,
     shutdownErr := (if shutdownErr s = None then Some ErrSessionShutdown else shutdownErr s),
     shutdownCh := close_chan (shutdownCh s), yconn := conn_Close (yconn s)\<rparr>"

lemma Session_Close_eq:
  "Session_Close s = (if shutdown s then s
     else fold (\<lambda>(i, p). forceClose p) (streams s) (mark_closed s))"
  by (cases s) (simp add: Session_Close_def mark_closed_def Let_def)

lemma evolves_mark_closed: "session_ok s \<Longrightarrow> evolves s (mark_closed s)"
  by (auto simp: mark_closed_def evolves_def session_ok_defs close_chan_def conn_Close_def strm_def
      ready_ok_def ref_ok_def split: errref.splits option.splits)

lemma evolves_Session_Close [wf_intros]: "session_ok s \<Longrightarrow> evolves s (Session_Close s)"
  unfolding Session_Close_eq
  by (auto intro: evolves_refl evolves_trans evolves_mark_closed
      evolves_fold_forceClose [OF evolves_ok])

lemma evolves_exitErr [wf_intros]: "session_ok s \<Longrightarrow> evolves s (exitErr e s)"
proof -
  assume ok: "session_ok s"
  let ?t = "if shutdownErr s = None then s\<lparr>shutdownErr := Some e\<rparr> else s"
  have "evolves s ?t"
    using ok by (auto simp: evolves_def session_ok_defs strm_def ready_ok_def ref_ok_def
        split: errref.splits option.splits)
  also have "evolves ?t (Session_Close ?t)"
    by (rule evolves_Session_Close) (rule evolves_ok [OF calculation])
  finally show ?thesis by (simp add: exitErr_def)
qed

lemma forceClose_sel [simp]:
  "shutdown (forceClose p s) = shutdown s" "shutdownErr (forceClose p s) = shutdownErr s"
  "shutdownCh (forceClose p s) = shutdownCh s" "yconn (forceClose p s) = yconn s"
  "streams (forceClose p s) = streams s" "sendCh (forceClose p s) = sendCh s"
  "acceptCh (forceClose p s) = acceptCh s" "nextStreamID (forceClose p s) = nextStreamID s"
  "localGoAway (forceClose p s) = localGoAway s" "remoteGoAway (forceClose p s) = remoteGoAway s"
  "length (objs (forceClose p s)) = length (objs s)"
  by (simp_all add: forceClose_def notifyWaiting_def set_state_def)

lemma fold_forceClose_sel [simp]:
  "shutdown (fold (\<lambda>(i, p). forceClose p) xs s) = shutdown s"
  "shutdownErr (fold (\<lambda>(i, p). forceClose p) xs s) = shutdownErr s"
  "shutdownCh (fold (\<lambda>(i, p). forceClose p) xs s) = shutdownCh s"
  "yconn (fold (\<lambda>(i, p). forceClose p) xs s) = yconn s"
  "streams (fold (\<lambda>(i, p). forceClose p) xs s) = streams s"
  "sendCh (fold (\<lambda>(i, p). forceClose p) xs s) = sendCh s"
  "acceptCh (fold (\<lambda>(i, p). forceClose p) xs s) = acceptCh s"
  by (induction xs arbitrary: s) auto

lemma Session_Close_shutdown [simp]: "shutdown (Session_Close s)"
  by (simp add: Session_Close_eq mark_closed_def)

lemma exitErr_shutdown [simp]: "shutdown (exitErr e s)"
  by (simp add: exitErr_def)

lemma asyncSendErr_ok:
  "asyncSendErr co e = Some c \<Longrightarrow> (\<And>d. co = Some d \<Longrightarrow> chan_ok d \<and> chcap d = 1) \<Longrightarrow>
    chan_ok c \<and> chcap c = 1"
  by (auto simp: asyncSendErr_def trySend_def chan_ok_def split: option.splits if_splits)

lemma errch_ok:
  assumes "session_ok s" and "ref_ok s r" and "errch r s = Some c"
  shows "chan_ok c \<and> chcap c = 1"
proof (cases r)
  case (FreshErr n)
  with assms show ?thesis by (auto simp: errch_def ref_ok_def session_ok_defs)
qed (use assms stream_ok_strm [OF assms(1)] in \<open>auto simp: errch_def ref_ok_def stream_ok_def\<close>)

lemma evolves_set_errch [wf_intros]:
  assumes "session_ok s" and "chan_ok c" and "chcap c = 1"
  shows "evolves s (set_errch r c s)"
proof (cases r)
  case (FreshErr n)
  have "set ((errChs s)[n := c]) \<subseteq> insert c (set (errChs s))" by (rule set_update_subset_insert)
  with assms FreshErr show ?thesis
    by (auto simp: set_errch_def evolves_def session_ok_defs strm_def ready_ok_def ref_ok_def
        split: errref.splits option.splits)
next
  case NoErr
  with assms show ?thesis by (simp add: set_errch_def evolves_refl)
qed (use assms in \<open>auto simp: set_errch_def intro!: evolves_upd, auto simp: stream_ok_def\<close>)

lemma evolves_putErr [wf_intros]:
  assumes "session_ok s" and "ref_ok s r"
  shows "evolves s (putErr r e s)"
proof (cases "asyncSendErr (errch r s) e")
  case None
  with assms show ?thesis by (simp add: putErr_def evolves_refl)
next
  case (Some c)
  then have "chan_ok c \<and> chcap c = 1"
    by (rule asyncSendErr_ok) (rule errch_ok [OF assms])
  with Some assms show ?thesis by (simp add: putErr_def evolves_set_errch)
qed

lemma conn_Write_keeps:
  "conn_Write b c = (r, c') \<Longrightarrow> conn_closed c' = conn_closed c \<and> conn_end c' = conn_end c
     \<and> conn_in c' = conn_in c"
  by (auto simp: conn_Write.simps split: if_splits list.splits wres.splits)

lemma write_hdr_keeps:
  "write_hdr b c = (r, c') \<Longrightarrow> conn_closed c' = conn_closed c \<and> conn_end c' = conn_end c
     \<and> conn_in c' = conn_in c"
proof (induction b c arbitrary: r c' rule: write_hdr.induct)
  case (1 b c)
  show ?case
  proof (cases "b = []")
    case True
    with "1.prems" show ?thesis by (subst (asm) write_hdr.simps) simp
  next
    case False
    obtain n x d where w: "conn_Write b c = ((n, x), d)" by (metis surj_pair)
    note keep = conn_Write_keeps [OF w]
    show ?thesis
    proof (cases x)
      case None
      with "1.prems" False w have "write_hdr (drop n b) d = (r, c')"
        by (subst (asm) write_hdr.simps) simp
      with "1.IH" [OF False w [symmetric]] None keep show ?thesis by simp
    next
      case (Some e)
      with "1.prems" False w keep show ?thesis by (subst (asm) write_hdr.simps) simp
    qed
  qed
qed

lemma copy_body_keeps:
  "copy_body b c = (r, c') \<Longrightarrow> conn_closed c' = conn_closed c \<and> conn_end c' = conn_end c
     \<and> conn_in c' = conn_in c"
  by (auto simp: copy_body_def split: if_splits prod.splits option.splits dest: conn_Write_keeps)

lemma evolves_set_conn:
  assumes "session_ok s" and "conn_closed c = conn_closed (yconn s)" and "conn_end c = conn_end (yconn s)"
    and "length (conn_in c) \<le> length (conn_in (yconn s))"
  shows "evolves s (s\<lparr>yconn := c\<rparr>)"
  using assms by (auto simp: evolves_def session_ok_defs strm_def ready_ok_def ref_ok_def
      split: errref.splits option.splits)

lemma evolves_ghost [wf_intros]:
  assumes "session_ok s"
  shows "evolves s (s\<lparr>send_exited := b\<rparr>)" "evolves s (s\<lparr>coins := cs\<rparr>)"
    "evolves s (s\<lparr>localGoAway := g\<rparr>)" "evolves s (s\<lparr>remoteGoAway := g\<rparr>)"
    "evolves s (s\<lparr>nextStreamID := i\<rparr>)" "evolves s (s\<lparr>pingID := i\<rparr>)" "evolves s (s\<lparr>clock := t\<rparr>)"
  using assms by (auto simp: evolves_def session_ok_defs strm_def ready_ok_def ref_ok_def
      split: errref.splits option.splits)

lemma evolves_write_error:
  assumes "session_ok s" and "ref_ok s r"
    and "conn_closed c = conn_closed (yconn s)" and "conn_end c = conn_end (yconn s)"
    and "length (conn_in c) \<le> length (conn_in (yconn s))"
  shows "evolves s (exitErr e (putErr r x (s\<lparr>yconn := c\<rparr>))\<lparr>send_exited := True\<rparr>)"
proof -
  have 1: "evolves s (s\<lparr>yconn := c\<rparr>)" using assms(1,3-5) by (rule evolves_set_conn)
  also have 2: "evolves (s\<lparr>yconn := c\<rparr>) (putErr r x (s\<lparr>yconn := c\<rparr>))"
    using evolves_ok [OF 1] evolves_ref [OF 1 assms(2)] by (rule evolves_putErr)
  also have 3: "evolves \<dots> (exitErr e \<dots>)" by (rule evolves_exitErr [OF evolves_ok [OF 2]])
  also have "evolves \<dots> (\<dots>\<lparr>send_exited := True\<rparr>)" by (rule evolves_ghost [OF evolves_ok [OF 3]])
  finally show ?thesis .
qed

lemma evolves_send_one [wf_intros]:
  assumes "session_ok s" and "ready_ok s r"
  shows "evolves s (send_one r s)"
proof -
  have ref: "ref_ok s (Err r)" using assms(2) by (simp add: ready_ok_def)
  have keeps: "conn_closed c = conn_closed (yconn s) \<and> conn_end c = conn_end (yconn s) \<and>
      conn_in c = conn_in (yconn s)"
    if "(case Hdr r of None \<Rightarrow> (None, yconn s) | Some h \<Rightarrow> write_hdr h (yconn s)) = (x, c)" for x c
    using that by (auto split: option.splits dest: write_hdr_keeps)
  have put: "evolves s (putErr (Err r) None (s\<lparr>yconn := c\<rparr>))"
    if "conn_closed c = conn_closed (yconn s) \<and> conn_end c = conn_end (yconn s) \<and>
      conn_in c = conn_in (yconn s)" for c
  proof -
    have 1: "evolves s (s\<lparr>yconn := c\<rparr>)" using assms(1) that by (simp add: evolves_set_conn)
    also have "evolves \<dots> (putErr (Err r) None \<dots>)"
      using evolves_ok [OF 1] evolves_ref [OF 1 ref] by (rule evolves_putErr)
    finally show ?thesis .
  qed
  show ?thesis
    unfolding send_one_def
    by (auto split: prod.splits option.splits dest!: keeps write_hdr_keeps copy_body_keeps
        intro!: evolves_write_error [OF assms(1) ref] put evolves_putErr [OF assms(1) ref])
qed

lemma evolves_set_sendCh:
  assumes "session_ok s" and "chan_ok q" and "chcap q = 64" and "\<forall>r \<in> set (chbuf q). ready_ok s r"
  shows "evolves s (s\<lparr>sendCh := q\<rparr>)"
  using assms by (auto simp: evolves_def session_ok_defs strm_def ready_ok_def ref_ok_def
      split: errref.splits option.splits)

lemma evolves_select2:
  "session_ok s \<Longrightarrow> select2 a b s = (r, s') \<Longrightarrow> evolves s s'"
  using select2_state [of a b s r s'] evolves_ghost(2) [of s "coins s'"] by simp

lemma evolves_send_step [wf_intros]:
  assumes ok: "session_ok s"
  shows "evolves s (send_step s)"
proof (cases "select2 (chbuf (sendCh s) \<noteq> []) (chclosed (shutdownCh s)) s")
  case (Pair r s')
  have ev: "evolves s s'" using ok Pair by (rule evolves_select2)
  note ok' = evolves_ok [OF ev]
  have ex: "evolves s (s'\<lparr>send_exited := True\<rparr>)"
    by (rule evolves_trans [OF ev]) (rule evolves_ghost [OF ok'])
  have one: "evolves s (send_one x (s'\<lparr>sendCh := q\<rparr>))"
    if recv: "tryRecv (sendCh s') = Some (Some x, q)" for x q
  proof -
    have q: "chan_ok q" "chcap q = 64" "\<forall>r \<in> set (chbuf q). ready_ok s' r" and x: "ready_ok s' x"
      using tryRecv_Some [OF recv] ok' by (auto simp: session_ok_def chans_ok_def)
    have 1: "evolves s' (s'\<lparr>sendCh := q\<rparr>)" using ok' q by (rule evolves_set_sendCh)
    have "ready_ok (s'\<lparr>sendCh := q\<rparr>) x" using x by (simp add: ready_ok_def ref_ok_def split: errref.splits)
    then have "evolves (s'\<lparr>sendCh := q\<rparr>) (send_one x (s'\<lparr>sendCh := q\<rparr>))"
      by (rule evolves_send_one [OF evolves_ok [OF 1]])
    with ev 1 show ?thesis by (blast intro: evolves_trans)
  qed
  show ?thesis
    using ok ev ex one Pair
    by (auto simp: send_step_def evolves_refl split: option.splits sel.splits prod.splits)
qed

lemma evolves_offer:
  assumes ok: "session_ok s" and r: "ready_ok s r" and off: "offer r s = (x, s')"
  shows "evolves s s'"
proof (cases "select2 (length (chbuf (sendCh s)) < chcap (sendCh s)) (chclosed (shutdownCh s)) s")
  case (Pair y t)
  have ev: "evolves s t" using ok Pair by (rule evolves_select2)
  have "evolves s (t\<lparr>sendCh := q\<rparr>)" if "trySend r (sendCh t) = Some q" for q
  proof (rule evolves_trans [OF ev], rule evolves_set_sendCh [OF evolves_ok [OF ev]])
    show "chan_ok q" "chcap q = 64" "\<forall>x \<in> set (chbuf q). ready_ok t x"
      using that evolves_ok [OF ev] r evolves_ref [OF ev]
      by (auto simp: trySend_def session_ok_defs chan_ok_def ready_ok_def split: if_splits)
  qed
  then show ?thesis
    using off ev Pair by (auto simp: offer_def split: option.splits sel.splits)
qed

lemma evolves_offer_wait:
  assumes ok: "session_ok s" and r: "ready_ok s r" and off: "offer_wait r s = (x, s')"
  shows "evolves s s'"
proof (cases "offer r s")
  case (Pair y t)
  then have ev: "evolves s t" using evolves_offer ok r by blast
  have ev2: "evolves s (send_step t)"
    by (rule evolves_trans [OF ev]) (rule evolves_send_step [OF evolves_ok [OF ev]])
  have "ready_ok (send_step t) r" using r evolves_ref [OF ev2] by (auto simp: ready_ok_def)
  then have "evolves s s''" if "offer r (send_step t) = (z, s'')" for z s''
    using evolves_trans [OF ev2] evolves_offer [OF evolves_ok [OF ev2] _ that] by blast
  then show ?thesis using off Pair ev by (auto simp: offer_wait_def split: outcome.splits)
qed

lemma evolves_sendNoWait:
  assumes "session_ok s" and "header_ok h" and "sendNoWait h s = (x, s')"
  shows "evolves s s'"
  using assms evolves_offer_wait [of s "\<lparr>Hdr = Some h, Body = None, Err = NoErr\<rparr>" x s']
  by (simp add: sendNoWait_def ready_ok_def ref_ok_def)

lemma evolves_take_err:
  assumes "session_ok s" and "ref_ok s r" and "map_option tryRecv (errch r s) = Some (Some (Some e, c))"
  shows "evolves s (set_errch r c s)"
proof -
  obtain d where d: "errch r s = Some d" "tryRecv d = Some (Some e, c)" using assms(3) by auto
  have "chan_ok d \<and> chcap d = 1" by (rule errch_ok [OF assms(1,2) d(1)])
  with d(2) have "chan_ok c \<and> chcap c = 1"
    by (auto simp: tryRecv_def chan_ok_def split: list.splits if_splits)
  with assms(1) show ?thesis by (blast intro: evolves_set_errch)
qed

lemma evolves_awaitErr:
  "session_ok s \<Longrightarrow> ref_ok s r \<Longrightarrow> awaitErr n r s = (x, s') \<Longrightarrow> evolves s s'"
proof (induction n arbitrary: s)
  case 0
  show ?case
  proof (cases "select2 (case errch r s of None \<Rightarrow> False | Some c \<Rightarrow> chbuf c \<noteq> [])
      (chclosed (shutdownCh s)) s")
    case (Pair y t)
    then have ev: "evolves s t" using 0 by (blast intro: evolves_select2)
    from 0 Pair ev show ?thesis
      by (subst (asm) awaitErr.simps)
        (auto split: option.splits sel.splits prod.splits
          intro: evolves_trans evolves_take_err [OF evolves_ok evolves_ref])
  qed
next
  case (Suc n)
  show ?case
  proof (cases "select2 (case errch r s of None \<Rightarrow> False | Some c \<Rightarrow> chbuf c \<noteq> [])
      (chclosed (shutdownCh s)) s")
    case (Pair y t)
    then have ev: "evolves s t" using Suc.prems by (blast intro: evolves_select2)
    have ev2: "evolves s (send_step t)"
      by (rule evolves_trans [OF ev]) (rule evolves_send_step [OF evolves_ok [OF ev]])
    have "evolves s s'" if "awaitErr n r (send_step t) = (x, s')"
      using evolves_trans [OF ev2] Suc.IH [OF evolves_ok [OF ev2] evolves_ref [OF ev2] that]
        Suc.prems(2) by blast
    with Suc.prems Pair ev show ?thesis
      by (subst (asm) awaitErr.simps)
        (auto split: option.splits sel.splits prod.splits
          intro: evolves_trans evolves_take_err [OF evolves_ok evolves_ref])
  qed
qed

lemma evolves_waitForSendErr:
  assumes ok: "session_ok s" and h: "header_ok h" and r: "ref_ok s r"
    and w: "waitForSendErr h b r s = (x, s')"
  shows "evolves s s'"
proof (cases "offer_wait \<lparr>Hdr = Some h, Body = b, Err = r\<rparr> s")
  case (Pair y t)
  have ev: "evolves s t"
    using ok _ Pair by (rule evolves_offer_wait) (simp add: ready_ok_def h r)
  from w Pair ev show ?thesis
    by (auto simp: waitForSendErr_def split: outcome.splits option.splits
        dest!: evolves_awaitErr [OF evolves_ok [OF ev] evolves_ref [OF ev r]]
        intro: evolves_trans)
qed

lemma evolves_new_errch: "session_ok s \<Longrightarrow> evolves s (s\<lparr>errChs := errChs s @ [make_chan 1]\<rparr>)"
  by (auto simp: evolves_def session_ok_defs strm_def ready_ok_def ref_ok_def make_chan_def
      chan_ok_def split: errref.splits option.splits)

lemma evolves_waitForSend:
  assumes ok: "session_ok s" and h: "header_ok h" and w: "waitForSend h b s = (x, s')"
  shows "evolves s s'"
proof -
  note ev = evolves_new_errch [OF ok]
  have "ref_ok (s\<lparr>errChs := errChs s @ [make_chan 1]\<rparr>) (FreshErr (length (errChs s)))"
    by (simp add: ref_ok_def)
  with ev w h show ?thesis
    unfolding waitForSend_def by (blast intro: evolves_trans evolves_waitForSendErr evolves_ok)
qed

lemma evolves_goAway: "session_ok s \<Longrightarrow> evolves s (snd (goAway c s))"
  unfolding goAway_def by (simp add: evolves_ghost)

lemma evolves_GoAway: "session_ok s \<Longrightarrow> GoAway s = (x, s') \<Longrightarrow> evolves s s'"
proof -
  assume ok: "session_ok s" and g: "GoAway s = (x, s')"
  let ?t = "s\<lparr>localGoAway := 1\<rparr>"
  have ev: "evolves s ?t" using ok by (rule evolves_ghost)
  have "waitForSend (encode typeGoAway 0 0 goAwayNormal make_header) None ?t = (x, s')"
    using g by (simp add: GoAway_def goAway_def)
  then have "evolves ?t s'" by (rule evolves_waitForSend [OF evolves_ok [OF ev], rotated]) simp
  with ev show ?thesis by (rule evolves_trans)
qed

section \<open>The undisturbed case\<close>

text \<open>
  When the connection works, nothing is queued and the session is open, a request is written
  to the connection before \<open>waitForSendErr\<close> returns, header first.
\<close>

definition quiet :: "session \<Rightarrow> bool" where
  "quiet s \<longleftrightarrow> session_ok s \<and> \<not> shutdown s \<and> chbuf (sendCh s) = [] \<and> \<not> send_exited s \<and>
     \<not> conn_closed (yconn s) \<and> conn_wplan (yconn s) = []"

definition emit :: "bytes \<Rightarrow> session \<Rightarrow> session" where
  "emit b s = s\<lparr>yconn := (yconn s)\<lparr>conn_out := conn_out (yconn s) @ b\<rparr>\<rparr>"

lemma emit_emit [simp]: "emit b (emit a s) = emit (a @ b) s"
  by (simp add: emit_def)

lemma conn_Write_quiet:
  "\<not> conn_closed c \<Longrightarrow> conn_wplan c = [] \<Longrightarrow>
    conn_Write b c = ((length b, None), c\<lparr>conn_out := conn_out c @ b\<rparr>)"
  by (simp add: conn_Write.simps)

lemma write_hdr_quiet:
  "\<not> conn_closed c \<Longrightarrow> conn_wplan c = [] \<Longrightarrow>
    write_hdr b c = (None, c\<lparr>conn_out := conn_out c @ b\<rparr>)"
  by (subst write_hdr.simps, subst write_hdr.simps) (simp add: conn_Write_quiet)

lemma copy_body_quiet:
  "\<not> conn_closed c \<Longrightarrow> conn_wplan c = [] \<Longrightarrow>
    copy_body b c = (None, c\<lparr>conn_out := conn_out c @ b\<rparr>)"
  by (simp add: copy_body_def conn_Write_quiet)

lemma chan_pop_push [simp]: "chbuf c = [] \<Longrightarrow> c\<lparr>chbuf := []\<rparr> = c"
  by simp

lemma send_one_quiet:
  assumes "quiet s"
  shows "send_one \<lparr>Hdr = Some h, Body = b, Err = r\<rparr> s =
    putErr r None (emit (h @ (case b of None \<Rightarrow> [] | Some x \<Rightarrow> x)) s)"
  using assms
  by (auto simp: send_one_def quiet_def write_hdr_quiet copy_body_quiet emit_def split: option.splits)

lemma errch_set_errch:
  "ref_ok s r \<Longrightarrow> r \<noteq> NoErr \<Longrightarrow> errch r (set_errch r c s) = Some c"
  by (cases r) (auto simp: errch_def set_errch_def ref_ok_def)

lemma upd_upd: "upd p f (upd p g s) = upd p (\<lambda>x. f (g x)) s"
  by (cases "p < length (objs s)") (auto simp: upd_def list_update_beyond)

lemma set_errch_twice: "set_errch r c (set_errch r d s) = set_errch r c s"
  by (cases r) (simp_all add: set_errch_def upd_upd)

lemma set_errch_same: "errch r s = Some c \<Longrightarrow> set_errch r c s = s"
  by (cases r) (auto simp: errch_def set_errch_def upd_def strm_def)

lemma set_errch_sel [simp]:
  "sendCh (set_errch r c s) = sendCh s" "shutdownCh (set_errch r c s) = shutdownCh s"
  "send_exited (set_errch r c s) = send_exited s" "yconn (set_errch r c s) = yconn s"
  "shutdown (set_errch r c s) = shutdown s" "coins (set_errch r c s) = coins s"
  by (cases r; simp add: set_errch_def)+

lemma emit_sel [simp]:
  "sendCh (emit b s) = sendCh s" "shutdownCh (emit b s) = shutdownCh s"
  "send_exited (emit b s) = send_exited s" "objs (emit b s) = objs s" "errChs (emit b s) = errChs s"
  "shutdown (emit b s) = shutdown s" "cfg (emit b s) = cfg s" "streams (emit b s) = streams s"
  "nextStreamID (emit b s) = nextStreamID s" "localGoAway (emit b s) = localGoAway s"
  "remoteGoAway (emit b s) = remoteGoAway s" "acceptCh (emit b s) = acceptCh s"
  "conn_out (yconn (emit b s)) = conn_out (yconn s) @ b" "pings (emit b s) = pings s"
  by (simp_all add: emit_def)

lemma strm_emit [simp]: "strm (emit b s) p = strm s p"
  by (simp add: strm_def)

lemma errch_emit [simp]: "errch r (emit b s) = errch r s"
  by (simp add: errch_def strm_def split: errref.split)

text \<open>A request put on an empty queue is taken from it by the next iteration of send().\<close>

lemma waitForSendErr_quiet:
  assumes q: "quiet s" and ref: "ref_ok s r" and c: "errch r s = Some c" and empty: "chbuf c = []"
  shows "waitForSendErr h b r s =
    (Ret None, emit (h @ (case b of None \<Rightarrow> [] | Some x \<Rightarrow> x)) s)"
proof -
  let ?r = "\<lparr>Hdr = Some h, Body = b, Err = r\<rparr>"
  let ?out = "h @ (case b of None \<Rightarrow> [] | Some x \<Rightarrow> x)"
  let ?t = "s\<lparr>sendCh := (sendCh s)\<lparr>chbuf := [?r]\<rparr>\<rparr>"
  have ok: "session_ok s" and opn: "\<not> chclosed (shutdownCh s)" and sq: "chbuf (sendCh s) = []"
    and cap: "chcap (sendCh s) = 64" and run: "\<not> send_exited s"
    using q by (auto simp: quiet_def session_ok_defs)
  have r: "r \<noteq> NoErr" using c by (auto simp: errch_def)
  have c1: "chcap c = 1" using errch_ok [OF ok ref c] by simp
  have off: "offer_wait ?r s = (Ret None, ?t)"
    using opn sq cap by (simp add: offer_wait_def offer_def trySend_def)
  have recv: "tryRecv (sendCh ?t) = Some (Some ?r, sendCh s)"
    using sq by (simp add: tryRecv_def)
  have step: "send_step ?t = putErr r None (emit ?out s)"
    using opn run recv send_one_quiet [OF q, of h b r] by (simp add: send_step_def)
  let ?u = "set_errch r (c\<lparr>chbuf := [None]\<rparr>) (emit ?out s)"
  have put: "putErr r None (emit ?out s) = ?u"
    using c empty c1 by (simp add: putErr_def asyncSendErr_def trySend_def)
  have refe: "ref_ok (emit ?out s) r" using ref by (simp add: ref_ok_def split: errref.splits)
  have first: "awaitErr (Suc 0) r ?t = awaitErr 0 r ?u"
    using opn c empty step put
    by (subst awaitErr.simps) (simp add: errch_def strm_def split: errref.splits)
  have "awaitErr 0 r ?u = (Ret None, set_errch r (c\<lparr>chbuf := []\<rparr>) ?u)"
    using opn errch_set_errch [OF refe r]
    by (subst awaitErr.simps) (simp add: tryRecv_def)
  also have "set_errch r (c\<lparr>chbuf := []\<rparr>) ?u = emit ?out s"
    using empty c by (simp add: set_errch_twice set_errch_same)
  finally show ?thesis
    using off first by (simp add: waitForSendErr_def)
qed

text \<open>The same for a request that carries no error channel: it stays queued.\<close>

definition queued :: "sendReady \<Rightarrow> session \<Rightarrow> session" where
  "queued r s = s\<lparr>sendCh := (sendCh s)\<lparr>chbuf := chbuf (sendCh s) @ [r]\<rparr>\<rparr>"

lemma sendNoWait_room:
  assumes "\<not> chclosed (shutdownCh s)" and "length (chbuf (sendCh s)) < chcap (sendCh s)"
  shows "sendNoWait h s = (Ret None, queued \<lparr>Hdr = Some h, Body = None, Err = NoErr\<rparr> s)"
  using assms by (simp add: sendNoWait_def offer_wait_def offer_def trySend_def queued_def)

end
