(* ===== verification/Yamux_Stream.thy ===== *)
theory Yamux_Stream
  imports Yamux_Send
begin

text \<open>
  yamux/stream.go: flags and state changes, the window updates, reading, writing and closing
  a stream. A method that waits for the send goroutine in its middle is given as the part
  before (\<open>..._begin\<close>), the part after (\<open>..._finish\<close>) and their composition; the parts are
  also the steps of the interleaved model of two endpoints (Yamux_Credit).
\<close>

section \<open>Flags\<close>

definition sendFlags :: "nat \<Rightarrow> session \<Rightarrow> u16 \<times> session" where
  "sendFlags p s = (case state (strm s p) of
      streamInit \<Rightarrow> (flagSYN, set_state p streamSYNSent s)
    | streamSYNReceived \<Rightarrow> (flagACK, set_state p streamEstablished s)
    | _ \<Rightarrow> (0, s))"

definition processFlags :: "nat \<Rightarrow> u16 \<Rightarrow> session \<Rightarrow> yerror option \<times> session" where
  "processFlags p flags s =
     (if has_flag flags flagACK then
        (None, if state (strm s p) = streamSYNSent then set_state p streamEstablished s else s)
      else if has_flag flags flagFIN then
        (case state (strm s p) of
           streamSYNSent \<Rightarrow> (None, notifyWaiting p (set_state p streamRemoteClose s))
         | streamSYNReceived \<Rightarrow> (None, notifyWaiting p (set_state p streamRemoteClose s))
         | streamEstablished \<Rightarrow> (None, notifyWaiting p (set_state p streamRemoteClose s))
         | streamLocalClose \<Rightarrow>
             (None, notifyWaiting p (closeStream (stream_id (strm s p)) (set_state p streamClosed s)))
         | _ \<Rightarrow> (Some ErrUnexpectedFlag, s))
      else if has_flag flags flagRST then
        (None, notifyWaiting p (closeStream (stream_id (strm s p)) (set_state p streamReset s)))
      else (None, s))"

section \<open>Window updates\<close>

text \<open>
  The part of \<open>sendWindowUpdate\<close> before it waits: nothing to send, or the header and the
  delta the window grows by once the update has been sent.
\<close>

definition sendWindowUpdate_begin :: "nat \<Rightarrow> session \<Rightarrow> (header \<times> u32) option \<times> session" where
  "sendWindowUpdate_begin p s =
     (let mx = MaxStreamWindowSize (cfg s);
          delta = mx - recvWindow (strm s p);
          (flags, s) = sendFlags p s
      in if delta < mx div 2 \<and> flags = 0 then (None, s)
         else let hdr = encode typeWindowUpdate flags (stream_id (strm s p)) delta
                          (controlHdr (strm s p))
              in (Some (hdr, delta), upd p (\<lambda>x. x\<lparr>controlHdr := hdr\<rparr>) s))"

definition sendWindowUpdate_finish :: "nat \<Rightarrow> u32 \<Rightarrow> session \<Rightarrow> session" where
  "sendWindowUpdate_finish p delta = upd p (\<lambda>x. x\<lparr>recvWindow := recvWindow x + delta\<rparr>)"

definition sendWindowUpdate :: "nat \<Rightarrow> session \<Rightarrow> yerror option outcome \<times> session" where
  "sendWindowUpdate p s =
     (case sendWindowUpdate_begin p s of
        (None, s) \<Rightarrow> (Ret None, s)
      | (Some (hdr, delta), s) \<Rightarrow>
          (case waitForSendErr hdr None (ControlErr p) s of
             (Ret None, s) \<Rightarrow> (Ret None, sendWindowUpdate_finish p delta s)
           | res \<Rightarrow> res))"

definition incrSendWindow :: "nat \<Rightarrow> header \<Rightarrow> u16 \<Rightarrow> session \<Rightarrow> yerror option \<times> session" where
  "incrSendWindow p hdr flags s =
     (case processFlags p flags s of
        (Some e, s) \<Rightarrow> (Some e, s)
      | (None, s) \<Rightarrow> (None, upd p (\<lambda>x. x\<lparr>sendWindow := sendWindow x + Length hdr,
                                 sendNotifyCh := asyncNotify (sendNotifyCh x)\<rparr>) s))"

section \<open>Receiving data\<close>

text \<open>
  \<open>readData\<close> copies the payload from the connection. An end of the input inside it is no
  error for io.Copy; another read error is. The call blocks while the payload is incomplete
  and more may come; it is then retried from the state before the call.
\<close>

definition readData :: "nat \<Rightarrow> header \<Rightarrow> u16 \<Rightarrow> session \<Rightarrow> yerror option outcome \<times> session" where
  "readData p hdr flags s0 =
     (case processFlags p flags s0 of
        (Some e, s) \<Rightarrow> (Ret (Some e), s)
      | (None, s) \<Rightarrow>
          let len = Length hdr in
          if len = 0 then (Ret None, s)
          else if recvWindow (strm s p) < len then (Ret (Some ErrRecvWindowExceeded), s)
          else
            let avail = conn_in (yconn s);
                data = take (unat len) avail;
                s1 = upd p (\<lambda>x. x\<lparr>recvBuf := recvBuf x @ data\<rparr>)
                       (s\<lparr>yconn := (yconn s)\<lparr>conn_in := drop (unat len) avail\<rparr>\<rparr>);
                s2 = upd p (\<lambda>x. x\<lparr>recvWindow := recvWindow x + NOT (len - 1),
                       recvNotifyCh := asyncNotify (recvNotifyCh x)\<rparr>) s1
            in if unat len \<le> length avail then (Ret None, s2)
               else case conn_end (yconn s) of
                 None \<Rightarrow> (Block, s0)
               | Some e \<Rightarrow> if e = EOF then (Ret None, s2) else (Ret (Some e), s1))"

section \<open>Reading a stream\<close>

definition timeout_ready :: "int option \<Rightarrow> session \<Rightarrow> bool" where
  "timeout_ready d s = (case d of None \<Rightarrow> False | Some t \<Rightarrow> t \<le> clock s)"

text \<open>
  \<open>Read\<close> of at most n bytes. Its loop goes back to START after taking the notification; one
  channel of capacity 1 holds it, so the loop runs at most twice (the counter). The deferred
  \<open>asyncNotify\<close> runs on every return.
\<close>

fun Read_loop :: "nat \<Rightarrow> nat \<Rightarrow> nat \<Rightarrow> session \<Rightarrow> (bytes \<times> yerror option) outcome \<times> session" where
  "Read_loop k p n s =
     (let st = strm s p in
      if (state st = streamRemoteClose \<or> state st = streamClosed) \<and> recvBuf st = []
        then (Ret ([], Some EOF), s)
      else if state st = streamReset then (Ret ([], Some ErrConnectionReset), s)
      else if recvBuf st \<noteq> [] then
        (let data = take n (recvBuf st);
             s = upd p (\<lambda>x. x\<lparr>recvBuf := drop n (recvBuf x)\<rparr>) s
         in case sendWindowUpdate p s of
              (Ret err, s) \<Rightarrow> (Ret (data, err), s)
            | (Block, s) \<Rightarrow> (Block, s)
            | (Panic m, s) \<Rightarrow> (Panic m, s))
      else
        (case select2 (chbuf (recvNotifyCh st) \<noteq> []) (timeout_ready (readDeadline st) s) s of
           (None, s) \<Rightarrow> (Block, s)
         | (Some Second, s) \<Rightarrow> (Ret ([], Some ErrTimeout), s)
         | (Some First, s) \<Rightarrow>
             (case k of
                0 \<Rightarrow> (Block, s)
              | Suc k \<Rightarrow> Read_loop k p n
                  (upd p (\<lambda>x. x\<lparr>recvNotifyCh := (recvNotifyCh x)\<lparr>chbuf := tl (chbuf (recvNotifyCh x))\<rparr>\<rparr>) s))))"

declare Read_loop.simps [simp del]

definition Read :: "nat \<Rightarrow> nat \<Rightarrow> session \<Rightarrow> (bytes \<times> yerror option) outcome \<times> session" where
  "Read p n s =
     (case Read_loop (length (chbuf (recvNotifyCh (strm s p)))) p n s of
        (Ret r, s) \<Rightarrow> (Ret r, upd p (\<lambda>x. x\<lparr>recvNotifyCh := asyncNotify (recvNotifyCh x)\<rparr>) s)
      | res \<Rightarrow> res)"

section \<open>Writing a stream\<close>

datatype write_step = WDone nat "yerror option" | WWait | WSend header bytes u32

text \<open>
  The part of \<open>write\<close> up to the wait: an immediate return, the wait for window, or a data
  frame to send. \<open>uint32(len(b))\<close> truncates.
\<close>

definition write_begin :: "nat \<Rightarrow> bytes \<Rightarrow> session \<Rightarrow> write_step \<times> session" where
  "write_begin p b s =
     (let st = strm s p in
      if state st = streamLocalClose \<or> state st = streamClosed
        then (WDone 0 (Some ErrStreamClosed), s)
      else if state st = streamReset then (WDone 0 (Some ErrConnectionReset), s)
      else if sendWindow st = 0 then (WWait, s)
      else
        let (flags, s) = sendFlags p s;
            mx = yamux_min (sendWindow st) (of_nat (length b));
            body = take (unat mx) b;
            hdr = encode typeData flags (stream_id st) mx (sendHdr st)
        in (WSend hdr body mx, upd p (\<lambda>x. x\<lparr>sendHdr := hdr\<rparr>) s))"

definition write_finish :: "nat \<Rightarrow> u32 \<Rightarrow> session \<Rightarrow> session" where
  "write_finish p mx = upd p (\<lambda>x. x\<lparr>sendWindow := sendWindow x + NOT (mx - 1)\<rparr>)"

fun write_loop :: "nat \<Rightarrow> nat \<Rightarrow> bytes \<Rightarrow> session \<Rightarrow> (nat \<times> yerror option) outcome \<times> session" where
  "write_loop k p b s =
     (case write_begin p b s of
        (WDone n e, s) \<Rightarrow> (Ret (n, e), s)
      | (WSend hdr body mx, s) \<Rightarrow>
          (case waitForSendErr hdr (Some body) (SendErr p) s of
             (Ret None, s) \<Rightarrow> (Ret (unat mx, None), write_finish p mx s)
           | (Ret (Some e), s) \<Rightarrow> (Ret (0, Some e), s)
           | (Block, s) \<Rightarrow> (Block, s)
           | (Panic m, s) \<Rightarrow> (Panic m, s))
      | (WWait, s) \<Rightarrow>
          (case select2 (chbuf (sendNotifyCh (strm s p)) \<noteq> [])
                  (timeout_ready (writeDeadline (strm s p)) s) s of
             (None, s) \<Rightarrow> (Block, s)
           | (Some Second, s) \<Rightarrow> (Ret (0, Some ErrTimeout), s)
           | (Some First, s) \<Rightarrow>
               (case k of
                  0 \<Rightarrow> (Block, s)
                | Suc k \<Rightarrow> write_loop k p b
                    (upd p (\<lambda>x. x\<lparr>sendNotifyCh := (sendNotifyCh x)\<lparr>chbuf := tl (chbuf (sendNotifyCh x))\<rparr>\<rparr>) s))))"

declare write_loop.simps [simp del]

definition stream_write :: "nat \<Rightarrow> bytes \<Rightarrow> session \<Rightarrow> (nat \<times> yerror option) outcome \<times> session" where
  "stream_write p b s = write_loop (length (chbuf (sendNotifyCh (strm s p)))) p b s"

text \<open>\<open>Write\<close> repeats \<open>write\<close> on what is left; None is a loop that never ends.\<close>

partial_function (option) Write_loop ::
  "nat \<Rightarrow> bytes \<Rightarrow> nat \<Rightarrow> session \<Rightarrow> ((nat \<times> yerror option) outcome \<times> session) option" where
  "Write_loop p b sent s =
     (if sent < length b then
        (case stream_write p (drop sent b) s of
           (Ret (n, None), s) \<Rightarrow> Write_loop p b (sent + n) s
         | (Ret (n, Some e), s) \<Rightarrow> Some (Ret (sent + n, Some e), s)
         | (Block, s) \<Rightarrow> Some (Block, s)
         | (Panic m, s) \<Rightarrow> Some (Panic m, s))
      else Some (Ret (sent, None), s))"

definition Write :: "nat \<Rightarrow> bytes \<Rightarrow> session \<Rightarrow> ((nat \<times> yerror option) outcome \<times> session) option" where
  "Write p b s = Write_loop p b 0 s"

section \<open>Closing a stream\<close>

definition sendClose :: "nat \<Rightarrow> session \<Rightarrow> yerror option outcome \<times> session" where
  "sendClose p s =
     (let (flags, s) = sendFlags p s;
          flags = flags OR flagFIN;
          hdr = encode typeWindowUpdate flags (stream_id (strm s p)) 0 (controlHdr (strm s p))
      in waitForSendErr hdr None (ControlErr p) (upd p (\<lambda>x. x\<lparr>controlHdr := hdr\<rparr>) s))"

definition Stream_Close :: "nat \<Rightarrow> session \<Rightarrow> unit outcome \<times> session" where
  "Stream_Close p s =
     (let send_close = (\<lambda>s. case sendClose p s of
            (Ret _, s) \<Rightarrow> (Ret (), notifyWaiting p s)
          | (Block, s) \<Rightarrow> (Block, s)
          | (Panic m, s) \<Rightarrow> (Panic m, s))
      in case state (strm s p) of
           streamSYNSent \<Rightarrow> send_close (set_state p streamLocalClose s)
         | streamSYNReceived \<Rightarrow> send_close (set_state p streamLocalClose s)
         | streamEstablished \<Rightarrow> send_close (set_state p streamLocalClose s)
         | streamLocalClose \<Rightarrow> (Ret (), s)
         | streamRemoteClose \<Rightarrow>
             send_close (closeStream (stream_id (strm s p)) (set_state p streamClosed s))
         | streamClosed \<Rightarrow> (Ret (), s)
         | streamReset \<Rightarrow> (Ret (), s)
         | streamInit \<Rightarrow> (Panic ''unhandled state'', s))"

section \<open>Deadlines\<close>

definition SetReadDeadline :: "nat \<Rightarrow> int option \<Rightarrow> session \<Rightarrow> session" where
  "SetReadDeadline p t = upd p (\<lambda>x. x\<lparr>readDeadline := t\<rparr>)"

definition SetWriteDeadline :: "nat \<Rightarrow> int option \<Rightarrow> session \<Rightarrow> session" where
  "SetWriteDeadline p t = upd p (\<lambda>x. x\<lparr>writeDeadline := t\<rparr>)"

definition SetDeadline :: "nat \<Rightarrow> int option \<Rightarrow> session \<Rightarrow> session" where
  "SetDeadline p t s = SetWriteDeadline p t (SetReadDeadline p t s)"

section \<open>Stream operations keep a session well-formed\<close>

lemma chan_ok_tl [simp]: "chan_ok c \<Longrightarrow> chan_ok (c\<lparr>chbuf := tl (chbuf c)\<rparr>)"
  by (auto simp: chan_ok_def)

lemma stream_ok_fields [simp]:
  "stream_ok (st\<lparr>recvWindow := w\<rparr>) = stream_ok st" "stream_ok (st\<lparr>sendWindow := w\<rparr>) = stream_ok st"
  "stream_ok (st\<lparr>recvBuf := b\<rparr>) = stream_ok st"
  "stream_ok (st\<lparr>readDeadline := d\<rparr>) = stream_ok st" "stream_ok (st\<lparr>writeDeadline := d\<rparr>) = stream_ok st"
  "stream_ok st \<Longrightarrow> header_ok h \<Longrightarrow> stream_ok (st\<lparr>controlHdr := h\<rparr>)"
  "stream_ok st \<Longrightarrow> header_ok h \<Longrightarrow> stream_ok (st\<lparr>sendHdr := h\<rparr>)"
  "stream_ok st \<Longrightarrow> stream_ok (st\<lparr>recvNotifyCh := asyncNotify (recvNotifyCh st)\<rparr>)"
  "stream_ok st \<Longrightarrow> stream_ok (st\<lparr>sendNotifyCh := asyncNotify (sendNotifyCh st)\<rparr>)"
  "stream_ok st \<Longrightarrow> stream_ok (st\<lparr>recvNotifyCh := (recvNotifyCh st)\<lparr>chbuf := tl (chbuf (recvNotifyCh st))\<rparr>\<rparr>)"
  "stream_ok st \<Longrightarrow> stream_ok (st\<lparr>sendNotifyCh := (sendNotifyCh st)\<lparr>chbuf := tl (chbuf (sendNotifyCh st))\<rparr>\<rparr>)"
  by (auto simp: stream_ok_def)

lemma evolves_sendFlags: "session_ok s \<Longrightarrow> sendFlags p s = (f, s') \<Longrightarrow> evolves s s'"
  by (auto simp: sendFlags_def evolves_refl evolves_set_state split: streamState.splits)

lemma evolves_drop_stream:
  "session_ok s \<Longrightarrow> later (state (strm s p)) st \<Longrightarrow>
    evolves s (notifyWaiting p (closeStream i (set_state p st s)))"
  by (meson evolves_trans evolves_ok evolves_set_state evolves_closeStream evolves_notifyWaiting)

lemma evolves_notify_state:
  "session_ok s \<Longrightarrow> later (state (strm s p)) st \<Longrightarrow> evolves s (notifyWaiting p (set_state p st s))"
  by (meson evolves_trans evolves_ok evolves_set_state evolves_notifyWaiting)

lemma evolves_processFlags: "session_ok s \<Longrightarrow> processFlags p f s = (e, s') \<Longrightarrow> evolves s s'"
  unfolding processFlags_def
  by (auto split: if_splits streamState.splits
      intro: evolves_refl evolves_set_state evolves_drop_stream evolves_notify_state)

lemma evolves_swu_begin:
  assumes ok: "session_ok s" and p: "p < length (objs s)"
    and b: "sendWindowUpdate_begin p s = (r, s')"
  shows "evolves s s' \<and> (\<forall>h d. r = Some (h, d) \<longrightarrow> header_ok h)"
proof (cases "sendFlags p s")
  case (Pair f t)
  have ev: "evolves s t" using ok Pair by (rule evolves_sendFlags)
  have h: "header_ok (controlHdr (strm t p))"
    using stream_ok_strm [OF evolves_ok [OF ev] evolves_ptr [OF ev p]] by (simp add: stream_ok_def)
  have "evolves s (upd p (\<lambda>x. x\<lparr>controlHdr := encode a b c d (controlHdr (strm t p))\<rparr>) t)" for a b c d
    by (rule evolves_trans [OF ev], rule evolves_upd [OF evolves_ok [OF ev]]) (simp_all add: h)
  with b Pair ev h show ?thesis
    by (auto simp: sendWindowUpdate_begin_def Let_def split: if_splits)
qed

lemma evolves_swu_finish: "session_ok s \<Longrightarrow> evolves s (sendWindowUpdate_finish p d s)"
  unfolding sendWindowUpdate_finish_def by (rule evolves_upd) auto

lemma evolves_sendWindowUpdate:
  assumes ok: "session_ok s" and p: "p < length (objs s)" and w: "sendWindowUpdate p s = (r, s')"
  shows "evolves s s'"
proof (cases "sendWindowUpdate_begin p s")
  case (Pair x t)
  note ev = evolves_swu_begin [OF ok p Pair]
  show ?thesis
  proof (cases x)
    case None
    with w Pair ev show ?thesis by (simp add: sendWindowUpdate_def)
  next
    case (Some hd)
    obtain h d where hd: "hd = (h, d)" by (cases hd)
    have t: "evolves s t" and h: "header_ok h" using ev Some hd by auto
    have "ref_ok t (ControlErr p)" using evolves_ptr [OF t p] by (simp add: ref_ok_def)
    then have "evolves t u" if "waitForSendErr h None (ControlErr p) t = (y, u)" for y u
      using evolves_waitForSendErr [OF evolves_ok [OF t] h _ that] by blast
    with w Pair Some hd t show ?thesis
      by (auto simp: sendWindowUpdate_def split: prod.splits outcome.splits option.splits
          intro: evolves_trans evolves_swu_finish [OF evolves_ok])
  qed
qed

lemma evolves_incrSendWindow:
  assumes ok: "session_ok s" and i: "incrSendWindow p h f s = (r, s')"
  shows "evolves s s'"
proof (cases "processFlags p f s")
  case (Pair e t)
  have ev: "evolves s t" using ok Pair by (rule evolves_processFlags)
  have "evolves s (upd p (\<lambda>x. x\<lparr>sendWindow := sendWindow x + Length h,
      sendNotifyCh := asyncNotify (sendNotifyCh x)\<rparr>) t)"
    by (rule evolves_trans [OF ev], rule evolves_upd [OF evolves_ok [OF ev]])
      (auto simp: stream_ok_def)
  with i Pair ev show ?thesis by (auto simp: incrSendWindow_def split: option.splits)
qed

lemma evolves_set_in:
  "session_ok s \<Longrightarrow> evolves s (s\<lparr>yconn := (yconn s)\<lparr>conn_in := drop n (conn_in (yconn s))\<rparr>\<rparr>)"
  by (rule evolves_set_conn) auto

lemma evolves_readData:
  assumes ok: "session_ok s" and r: "readData p h f s = (r, s')"
  shows "evolves s s'"
proof (cases "processFlags p f s")
  case (Pair e t)
  have ev: "evolves s t" using ok Pair by (rule evolves_processFlags)
  let ?s1 = "upd p (\<lambda>x. x\<lparr>recvBuf := recvBuf x @ take (unat (Length h)) (conn_in (yconn t))\<rparr>)
      (t\<lparr>yconn := (yconn t)\<lparr>conn_in := drop (unat (Length h)) (conn_in (yconn t))\<rparr>\<rparr>)"
  have i: "evolves s (t\<lparr>yconn := (yconn t)\<lparr>conn_in := drop (unat (Length h)) (conn_in (yconn t))\<rparr>\<rparr>)"
    by (rule evolves_trans [OF ev]) (rule evolves_set_in [OF evolves_ok [OF ev]])
  have s1: "evolves s ?s1"
    by (rule evolves_trans [OF i], rule evolves_upd [OF evolves_ok [OF i]]) auto
  have s2: "evolves s (upd p (\<lambda>x. x\<lparr>recvWindow := recvWindow x + NOT (Length h - 1),
      recvNotifyCh := asyncNotify (recvNotifyCh x)\<rparr>) ?s1)"
    by (rule evolves_trans [OF s1], rule evolves_upd [OF evolves_ok [OF s1]])
      (auto simp: stream_ok_def)
  from r Pair ev s1 s2 ok show ?thesis
    by (auto simp: readData_def Let_def evolves_refl split: option.splits if_splits)
qed

lemma evolves_Read_loop:
  "session_ok s \<Longrightarrow> p < length (objs s) \<Longrightarrow> Read_loop k p n s = (r, s') \<Longrightarrow> evolves s s'"
proof (induction k arbitrary: s)
  case 0
  have take: "evolves s (upd p (\<lambda>x. x\<lparr>recvBuf := drop n (recvBuf x)\<rparr>) s)"
    using 0 by (auto intro: evolves_upd)
  have swu: "evolves s u" if "sendWindowUpdate p (upd p (\<lambda>x. x\<lparr>recvBuf := drop n (recvBuf x)\<rparr>) s) = (y, u)" for y u
    using evolves_sendWindowUpdate [OF evolves_ok [OF take] _ that] 0(2) evolves_trans [OF take] by simp
  from 0 show ?case
    by (subst (asm) Read_loop.simps)
      (auto simp: Let_def evolves_refl split: if_splits prod.splits outcome.splits option.splits sel.splits
        dest: evolves_select2 swu)
next
  case (Suc k)
  have take: "evolves s (upd p (\<lambda>x. x\<lparr>recvBuf := drop n (recvBuf x)\<rparr>) s)"
    using Suc.prems by (auto intro: evolves_upd)
  have swu: "evolves s u" if "sendWindowUpdate p (upd p (\<lambda>x. x\<lparr>recvBuf := drop n (recvBuf x)\<rparr>) s) = (y, u)" for y u
    using evolves_sendWindowUpdate [OF evolves_ok [OF take] _ that] Suc.prems(2) evolves_trans [OF take]
    by simp
  have again: "evolves s s'" if sel: "select2 a b s = (y, t)" and
    rec: "Read_loop k p n (upd p (\<lambda>x. x\<lparr>recvNotifyCh := (recvNotifyCh x)\<lparr>chbuf := tl (chbuf (recvNotifyCh x))\<rparr>\<rparr>) t) = (r, s')"
    for a b y t
  proof -
    have ev: "evolves s t" using Suc.prems(1) sel by (rule evolves_select2)
    have ev2: "evolves s (upd p (\<lambda>x. x\<lparr>recvNotifyCh := (recvNotifyCh x)\<lparr>chbuf := tl (chbuf (recvNotifyCh x))\<rparr>\<rparr>) t)"
      by (rule evolves_trans [OF ev], rule evolves_upd [OF evolves_ok [OF ev]]) auto
    show ?thesis
      using evolves_trans [OF ev2] Suc.IH [OF evolves_ok [OF ev2] evolves_ptr [OF ev2 Suc.prems(2)] rec]
      by blast
  qed
  from Suc.prems show ?case
    by (subst (asm) Read_loop.simps)
      (auto simp: Let_def evolves_refl split: if_splits prod.splits outcome.splits option.splits sel.splits
        dest: evolves_select2 swu again)
qed

lemma evolves_Read:
  assumes "session_ok s" and "p < length (objs s)" and "Read p n s = (r, s')"
  shows "evolves s s'"
proof (cases "Read_loop (length (chbuf (recvNotifyCh (strm s p)))) p n s")
  case (Pair y t)
  have ev: "evolves s t" using assms(1,2) Pair by (rule evolves_Read_loop)
  have "evolves s (upd p (\<lambda>x. x\<lparr>recvNotifyCh := asyncNotify (recvNotifyCh x)\<rparr>) t)"
    by (rule evolves_trans [OF ev], rule evolves_upd [OF evolves_ok [OF ev]]) auto
  with assms(3) Pair ev show ?thesis by (auto simp: Read_def split: outcome.splits)
qed

lemma evolves_write_begin:
  assumes ok: "session_ok s" and p: "p < length (objs s)" and w: "write_begin p b s = (r, s')"
  shows "evolves s s' \<and> (\<forall>h d m. r = WSend h d m \<longrightarrow> header_ok h)"
proof (cases "sendFlags p s")
  case (Pair f t)
  have ev: "evolves s t" using ok Pair by (rule evolves_sendFlags)
  have h: "header_ok (sendHdr (strm s p))"
    using stream_ok_strm [OF ok p] by (simp add: stream_ok_def)
  have "evolves s (upd p (\<lambda>x. x\<lparr>sendHdr := encode a b c d (sendHdr (strm s p))\<rparr>) t)" for a b c d
    by (rule evolves_trans [OF ev], rule evolves_upd [OF evolves_ok [OF ev]]) (simp_all add: h)
  with w Pair ok h show ?thesis
    by (auto simp: write_begin_def Let_def evolves_refl split: if_splits)
qed

lemma evolves_write_wait:
  assumes ok: "session_ok s" and p: "p < length (objs s)"
    and b: "write_begin p b s = (WWait, t)" and sel: "select2 c d t = (y, u)"
  shows "evolves s u"
proof -
  have t: "evolves s t" using evolves_write_begin [OF ok p b] by simp
  show ?thesis by (rule evolves_trans [OF t evolves_select2 [OF evolves_ok [OF t] sel]])
qed

lemma evolves_write_finish: "session_ok s \<Longrightarrow> evolves s (write_finish p d s)"
  unfolding write_finish_def by (rule evolves_upd) auto

lemma evolves_write_send:
  assumes ok: "session_ok s" and p: "p < length (objs s)"
    and b: "write_begin p b s = (WSend h d m, t)" and w: "waitForSendErr h (Some d) (SendErr p) t = (r, u)"
  shows "evolves s u"
proof -
  note ev = evolves_write_begin [OF ok p b]
  then have t: "evolves s t" and h: "header_ok h" by auto
  have "ref_ok t (SendErr p)" using evolves_ptr [OF t p] by (simp add: ref_ok_def)
  then have "evolves t u" by (rule evolves_waitForSendErr [OF evolves_ok [OF t] h _ w])
  with t show ?thesis by (rule evolves_trans)
qed

lemma evolves_write_loop:
  "session_ok s \<Longrightarrow> p < length (objs s) \<Longrightarrow> write_loop k p b s = (r, s') \<Longrightarrow> evolves s s'"
proof (induction k arbitrary: s)
  case 0
  from 0 show ?case
    by (subst (asm) write_loop.simps)
      (auto split: write_step.splits prod.splits outcome.splits option.splits sel.splits
        dest: evolves_write_begin evolves_write_send evolves_write_wait
        intro: evolves_trans [OF _ evolves_write_finish] evolves_ok evolves_trans)
next
  case (Suc k)
  have again: "evolves s s'" if w: "write_begin p b s = (WWait, u)" and sel: "select2 c d u = (y, t)" and
    rec: "write_loop k p b (upd p (\<lambda>x. x\<lparr>sendNotifyCh := (sendNotifyCh x)\<lparr>chbuf := tl (chbuf (sendNotifyCh x))\<rparr>\<rparr>) t) = (r, s')"
    for c d y t u
  proof -
    have u: "evolves s u" using evolves_write_begin [OF Suc.prems(1,2) w] by simp
    have ev: "evolves s t" by (rule evolves_trans [OF u evolves_select2 [OF evolves_ok [OF u] sel]])
    have ev2: "evolves s (upd p (\<lambda>x. x\<lparr>sendNotifyCh := (sendNotifyCh x)\<lparr>chbuf := tl (chbuf (sendNotifyCh x))\<rparr>\<rparr>) t)"
      by (rule evolves_trans [OF ev], rule evolves_upd [OF evolves_ok [OF ev]]) auto
    show ?thesis
      using evolves_trans [OF ev2] Suc.IH [OF evolves_ok [OF ev2] evolves_ptr [OF ev2 Suc.prems(2)] rec]
      by blast
  qed
  from Suc.prems show ?case
    by (subst (asm) write_loop.simps)
      (auto split: write_step.splits prod.splits outcome.splits option.splits sel.splits
        dest: evolves_write_begin evolves_write_send evolves_write_wait again
        intro: evolves_trans [OF _ evolves_write_finish] evolves_ok evolves_trans)
qed

lemma evolves_stream_write:
  "session_ok s \<Longrightarrow> p < length (objs s) \<Longrightarrow> stream_write p b s = (r, s') \<Longrightarrow> evolves s s'"
  unfolding stream_write_def by (rule evolves_write_loop)

lemma evolves_Write_loop:
  assumes "Write_loop p b k s = Some rs"
  shows "session_ok s \<longrightarrow> p < length (objs s) \<longrightarrow> evolves s (snd rs)"
proof (rule Write_loop.raw_induct [where P = "\<lambda>p b k s rs. session_ok s \<longrightarrow> p < length (objs s) \<longrightarrow>
    evolves s (snd rs)", OF _ assms])
  fix f :: "nat \<Rightarrow> bytes \<Rightarrow> nat \<Rightarrow> session \<Rightarrow> ((nat \<times> yerror option) outcome \<times> session) option"
    and p b k s rs
  assume IH: "\<And>p b k s rs. f p b k s = Some rs \<Longrightarrow>
      session_ok s \<longrightarrow> p < length (objs s) \<longrightarrow> evolves s (snd rs)"
    and eq: "(if k < length b then
        (case stream_write p (drop k b) s of
           (Ret (n, None), s) \<Rightarrow> f p b (k + n) s
         | (Ret (n, Some e), s) \<Rightarrow> Some (Ret (k + n, Some e), s)
         | (Block, s) \<Rightarrow> Some (Block, s)
         | (Panic m, s) \<Rightarrow> Some (Panic m, s))
      else Some (Ret (k, None), s)) = Some rs"
  show "session_ok s \<longrightarrow> p < length (objs s) \<longrightarrow> evolves s (snd rs)"
  proof (intro impI)
    assume ok: "session_ok s" and p: "p < length (objs s)"
    show "evolves s (snd rs)"
    proof (cases "stream_write p (drop k b) s")
      case (Pair r t)
      have t: "evolves s t" using ok p Pair by (rule evolves_stream_write)
      have "evolves s (snd rs)" if "f p b m t = Some rs" for m
        using IH [OF that] t evolves_ok [OF t] evolves_ptr [OF t p] by (blast intro: evolves_trans)
      with eq Pair t ok show ?thesis
        by (cases rs; cases r) (auto split: if_splits option.splits intro: evolves_refl)
    qed
  qed
qed

lemma evolves_Write:
  "session_ok s \<Longrightarrow> p < length (objs s) \<Longrightarrow> Write p b s = Some (r, s') \<Longrightarrow> evolves s s'"
  using evolves_Write_loop [of p b 0 s "(r, s')"] by (simp add: Write_def)

lemma evolves_sendClose:
  assumes ok: "session_ok s" and p: "p < length (objs s)" and c: "sendClose p s = (r, s')"
  shows "evolves s s'"
proof (cases "sendFlags p s")
  case (Pair f t)
  have t: "evolves s t" using ok Pair by (rule evolves_sendFlags)
  have h: "header_ok (controlHdr (strm t p))"
    using stream_ok_strm [OF evolves_ok [OF t] evolves_ptr [OF t p]] by (simp add: stream_ok_def)
  let ?h = "encode typeWindowUpdate (f OR flagFIN) (stream_id (strm t p)) 0 (controlHdr (strm t p))"
  have u: "evolves s (upd p (\<lambda>x. x\<lparr>controlHdr := ?h\<rparr>) t)"
    by (rule evolves_trans [OF t], rule evolves_upd [OF evolves_ok [OF t]]) (simp_all add: h)
  have ref: "ref_ok (upd p (\<lambda>x. x\<lparr>controlHdr := ?h\<rparr>) t) (ControlErr p)"
    using evolves_ptr [OF u p] by (simp add: ref_ok_def)
  have "waitForSendErr ?h None (ControlErr p) (upd p (\<lambda>x. x\<lparr>controlHdr := ?h\<rparr>) t) = (r, s')"
    using c Pair by (simp add: sendClose_def Let_def)
  then have "evolves (upd p (\<lambda>x. x\<lparr>controlHdr := ?h\<rparr>) t) s'"
    by (rule evolves_waitForSendErr [OF evolves_ok [OF u] _ ref, rotated]) (simp add: h)
  with u show ?thesis by (rule evolves_trans)
qed

lemma evolves_Stream_Close:
  assumes ok: "session_ok s" and p: "p < length (objs s)" and c: "Stream_Close p s = (r, s')"
  shows "evolves s s'"
proof -
  have go: "evolves s (notifyWaiting p u)" "evolves s u"
    if t: "evolves s t" and sc: "sendClose p t = (y, u)" for t y u
  proof -
    show u: "evolves s u"
      using evolves_trans [OF t evolves_sendClose [OF evolves_ok [OF t] evolves_ptr [OF t p] sc]] .
    show "evolves s (notifyWaiting p u)"
      by (rule evolves_trans [OF u evolves_notifyWaiting [OF evolves_ok [OF u]]])
  qed
  have local: "evolves s (set_state p streamLocalClose s)" if "later (state (strm s p)) streamLocalClose"
    using ok that by (rule evolves_set_state)
  have both: "evolves s (closeStream i (set_state p streamClosed s))" for i
    using ok by (meson evolves_trans evolves_ok evolves_set_state evolves_closeStream later_moves(1))
  from c ok show ?thesis
    by (auto simp: Stream_Close_def Let_def evolves_refl local
        split: streamState.splits prod.splits outcome.splits dest: go [OF local, rotated] go [OF both])
qed

end
