(* ===== verification/Yamux_Flow.thy ===== *)
theory Yamux_Flow
  imports Yamux_Stream
begin

text \<open>
  What the operations of a stream do when nothing else interferes (\<open>quiet\<close>): the frames a
  write and a window update put on the connection and the windows they leave, what a data
  frame adds to the receive buffer, and what a read takes from it.
\<close>

section \<open>Quiet sessions\<close>

lemma quiet_ok: "quiet s \<Longrightarrow> session_ok s"
  by (simp add: quiet_def)

lemma quiet_emit [simp]: "quiet s \<Longrightarrow> quiet (emit b s)"
proof -
  assume q: "quiet s"
  have "evolves s (emit b s)"
    unfolding emit_def by (rule evolves_set_conn) (use q in \<open>auto simp: quiet_def\<close>)
  then show ?thesis using q by (simp add: quiet_def emit_def evolves_ok [of s])
qed

lemma quiet_upd:
  assumes "quiet s"
    and "\<And>st. stream_ok st \<Longrightarrow> stream_ok (f st)" and "\<And>st. stream_id (f st) = stream_id st"
  shows "quiet (upd p f s)"
  using assms session_ok_upd [OF quiet_ok [OF assms(1)] assms(2,3)]
  by (simp add: quiet_def)

lemma quiet_set_state [simp]: "quiet s \<Longrightarrow> quiet (set_state p st s)"
  unfolding set_state_def by (rule quiet_upd) auto

lemma set_state_sel [simp]:
  "cfg (set_state p st s) = cfg s" "yconn (set_state p st s) = yconn s"
  "streams (set_state p st s) = streams s" "length (objs (set_state p st s)) = length (objs s)"
  "clock (set_state p st s) = clock s" "acceptCh (set_state p st s) = acceptCh s"
  "p < length (objs s) \<Longrightarrow> strm (set_state p st s) p = (strm s p)\<lparr>state := st\<rparr>"
  by (simp_all add: set_state_def)

section \<open>Flags to send\<close>

definition flags_of :: "streamState \<Rightarrow> u16" where
  "flags_of st = (case st of streamInit \<Rightarrow> flagSYN | streamSYNReceived \<Rightarrow> flagACK | _ \<Rightarrow> 0)"

definition after_flags :: "streamState \<Rightarrow> streamState" where
  "after_flags st = (case st of streamInit \<Rightarrow> streamSYNSent
     | streamSYNReceived \<Rightarrow> streamEstablished | _ \<Rightarrow> st)"

lemma set_state_same [simp]: "set_state p (state (strm s p)) s = s"
  by (simp add: set_state_def upd_def strm_def)

lemma sendFlags_eq:
  "sendFlags p s = (flags_of (state (strm s p)), set_state p (after_flags (state (strm s p))) s)"
proof (cases "state (strm s p)")
qed (simp_all add: sendFlags_def flags_of_def after_flags_def, (metis set_state_same)+)

lemma after_flags_idem: "flags_of (after_flags st) = 0" "after_flags (after_flags st) = after_flags st"
  by (cases st; simp add: flags_of_def after_flags_def)+

section \<open>Window updates\<close>

lemma controlErr_ref:
  assumes "p < length (objs s)"
  shows "ref_ok s (ControlErr p)" "errch (ControlErr p) s = Some (controlErr (strm s p))"
    "ref_ok s (SendErr p)" "errch (SendErr p) s = Some (sendErr (strm s p))"
  using assms by (simp_all add: ref_ok_def errch_def)

lemma sendWindowUpdate_quiet:
  assumes q: "quiet s" and p: "p < length (objs s)" and e: "chbuf (controlErr (strm s p)) = []"
  defines "mx \<equiv> MaxStreamWindowSize (cfg s)" and "st \<equiv> state (strm s p)"
  defines "d \<equiv> mx - recvWindow (strm s p)"
  defines "h \<equiv> wire_header typeWindowUpdate (flags_of st) (stream_id (strm s p)) d"
  shows "sendWindowUpdate p s =
    (if d < mx div 2 \<and> flags_of st = 0 then (Ret None, s)
     else (Ret None, upd p (\<lambda>x. x\<lparr>state := after_flags st, controlHdr := h, recvWindow := mx\<rparr>)
             (emit h s)))"
proof (cases "d < mx div 2 \<and> flags_of st = 0")
  case True
  then have "after_flags st = st" by (auto simp: flags_of_def after_flags_def flag_defs split: streamState.splits)
  with True show ?thesis
    by (simp add: sendWindowUpdate_def sendWindowUpdate_begin_def sendFlags_eq d_def mx_def st_def)
next
  case False
  let ?u = "set_state p (after_flags st) s"
  let ?v = "upd p (\<lambda>x. x\<lparr>controlHdr := h\<rparr>) ?u"
  have hok: "header_ok (controlHdr (strm s p))"
    using stream_ok_strm [OF quiet_ok [OF q] p] by (simp add: stream_ok_def)
  have h: "encode typeWindowUpdate (flags_of st) (stream_id (strm ?u p)) d (controlHdr (strm ?u p)) = h"
    using p hok by (simp add: h_def encode_wire)
  have hh: "header_ok h" by (simp add: h_def wire_header_def header_ok_def)
  have b: "sendWindowUpdate_begin p s = (Some (h, d), ?v)"
    using False h by (simp add: sendWindowUpdate_begin_def sendFlags_eq Let_def d_def mx_def st_def)
  have qv: "quiet ?v" using q hh by (auto intro!: quiet_upd)
  have pv: "p < length (objs ?v)" using p by simp
  have "chbuf (controlErr (strm ?v p)) = []" using p e by simp
  then have w: "waitForSendErr h None (ControlErr p) ?v = (Ret None, emit h ?v)"
    using waitForSendErr_quiet [OF qv controlErr_ref(1,2) [OF pv]] by simp
  have "sendWindowUpdate_finish p d (emit h ?v) =
      upd p (\<lambda>x. x\<lparr>state := after_flags st, controlHdr := h, recvWindow := mx\<rparr>) (emit h s)"
    using p by (simp add: sendWindowUpdate_finish_def set_state_def emit_def upd_def strm_def d_def)
  with b w have "sendWindowUpdate p s = (Ret None, upd p (\<lambda>x. x\<lparr>state := after_flags st,
      controlHdr := h, recvWindow := mx\<rparr>) (emit h s))"
    by (simp add: sendWindowUpdate_def)
  with False show ?thesis by (simp only: if_False)
qed

section \<open>Writing\<close>

lemma write_begin_send:
  fixes b :: bytes
  assumes "writable (state (strm s p))" and "sendWindow (strm s p) \<noteq> 0"
    and "p < length (objs s)" and "header_ok (sendHdr (strm s p))"
  defines "mx \<equiv> yamux_min (sendWindow (strm s p)) (of_nat (length b))"
    and "st \<equiv> state (strm s p)"
  defines "h \<equiv> wire_header typeData (flags_of st) (stream_id (strm s p)) mx"
  shows "write_begin p b s = (WSend h (take (unat mx) b) mx,
    upd p (\<lambda>x. x\<lparr>state := after_flags st, sendHdr := h\<rparr>) s)"
  using assms
  by (simp add: write_begin_def writable_def sendFlags_eq Let_def encode_wire set_state_def upd_upd)

lemma unat_yamux_min_len:
  "unat (yamux_min w (of_nat n)) = min (unat w) (n mod 2 ^ 32)"
  by (simp add: yamux_min_def word_less_nat_alt unat_of_nat min_def)

lemma write_loop_quiet:
  fixes b :: bytes
  assumes q: "quiet s" and p: "p < length (objs s)" and e: "chbuf (sendErr (strm s p)) = []"
    and st: "writable (state (strm s p))" and w: "sendWindow (strm s p) \<noteq> 0"
  defines "mx \<equiv> yamux_min (sendWindow (strm s p)) (of_nat (length b))"
  defines "h \<equiv> wire_header typeData (flags_of (state (strm s p))) (stream_id (strm s p)) mx"
  shows "write_loop k p b s = (Ret (unat mx, None),
    upd p (\<lambda>x. x\<lparr>state := after_flags (state x), sendHdr := h, sendWindow := sendWindow x - mx\<rparr>)
      (emit (h @ take (unat mx) b) s))"
proof -
  let ?v = "upd p (\<lambda>x. x\<lparr>state := after_flags (state (strm s p)), sendHdr := h\<rparr>) s"
  have hok: "header_ok (sendHdr (strm s p))"
    using stream_ok_strm [OF quiet_ok [OF q] p] by (simp add: stream_ok_def)
  have hh: "header_ok h" by (simp add: h_def wire_header_def header_ok_def)
  have b: "write_begin p b s = (WSend h (take (unat mx) b) mx, ?v)"
    unfolding mx_def h_def using st w p hok by (rule write_begin_send)
  have qv: "quiet ?v" using q hh by (auto intro!: quiet_upd)
  have pv: "p < length (objs ?v)" using p by simp
  have "chbuf (sendErr (strm ?v p)) = []" using p e by simp
  then have w: "waitForSendErr h (Some (take (unat mx) b)) (SendErr p) ?v =
      (Ret None, emit (h @ take (unat mx) b) ?v)"
    using waitForSendErr_quiet [OF qv controlErr_ref(3,4) [OF pv]] by simp
  have "write_finish p mx (emit (h @ take (unat mx) b) ?v) =
    upd p (\<lambda>x. x\<lparr>state := after_flags (state x), sendHdr := h, sendWindow := sendWindow x - mx\<rparr>)
      (emit (h @ take (unat mx) b) s)"
    using p by (simp add: write_finish_def emit_def upd_def strm_def minus_one_complement)
  with b w show ?thesis by (subst write_loop.simps) simp
qed

text \<open>With no window the call waits: it takes the notification, if there is one, and blocks.\<close>

lemma stream_write_no_window:
  assumes ok: "session_ok s" and p: "p < length (objs s)" and st: "writable (state (strm s p))"
    and w: "sendWindow (strm s p) = 0" and d: "writeDeadline (strm s p) = None"
  shows "\<exists>c. stream_write p b s = (Block, upd p (\<lambda>x. x\<lparr>sendNotifyCh := c\<rparr>) s)"
proof -
  have wait: "write_begin p b t = (WWait, t)"
    if "state (strm t p) = state (strm s p)" "sendWindow (strm t p) = 0" for t
    using that st by (simp add: write_begin_def writable_def)
  have len: "length (chbuf (sendNotifyCh (strm s p))) \<le> 1"
    using stream_ok_strm [OF ok p] by (simp add: stream_ok_def chan_ok_def)
  show ?thesis
  proof (cases "chbuf (sendNotifyCh (strm s p)) = []")
    case True
    have "upd p (\<lambda>x. x\<lparr>sendNotifyCh := sendNotifyCh (strm s p)\<rparr>) s = s"
      by (simp add: upd_def strm_def)
    moreover have "stream_write p b s = (Block, s)"
      using True w d by (simp add: stream_write_def write_loop.simps [of 0] wait timeout_ready_def)
    ultimately show ?thesis by metis
  next
    case False
    with len have one: "length (chbuf (sendNotifyCh (strm s p))) = Suc 0"
      by (cases "chbuf (sendNotifyCh (strm s p))") auto
    then have tl: "tl (chbuf (sendNotifyCh (strm s p))) = []"
      by (cases "chbuf (sendNotifyCh (strm s p))") auto
    let ?t = "upd p (\<lambda>x. x\<lparr>sendNotifyCh := (sendNotifyCh x)\<lparr>chbuf := tl (chbuf (sendNotifyCh x))\<rparr>\<rparr>) s"
    have "write_loop 0 p b ?t = (Block, ?t)"
      using p w d tl by (subst write_loop.simps) (simp add: wait timeout_ready_def)
    then have "stream_write p b s = (Block, ?t)"
      using False one w d
      by (simp add: stream_write_def write_loop.simps [of "Suc 0"] wait timeout_ready_def)
    moreover have "?t = upd p (\<lambda>x. x\<lparr>sendNotifyCh := (sendNotifyCh (strm s p))\<lparr>chbuf := []\<rparr>\<rparr>) s"
      using tl by (simp add: upd_def strm_def)
    ultimately show ?thesis by metis
  qed
qed

text \<open>The state after one data frame of \<open>mx\<close> bytes.\<close>

definition after_frame :: "nat \<Rightarrow> u32 \<Rightarrow> bytes \<Rightarrow> session \<Rightarrow> session" where
  "after_frame p mx b s =
     (let h = wire_header typeData (flags_of (state (strm s p))) (stream_id (strm s p)) mx
      in upd p (\<lambda>x. x\<lparr>state := after_flags (state x), sendHdr := h, sendWindow := sendWindow x - mx\<rparr>)
           (emit (h @ take (unat mx) b) s))"

lemma header_ok_wire [simp]: "header_ok (wire_header t f i l)"
  by (simp add: wire_header_def header_ok_def)

lemma quiet_after_frame [simp]: "quiet s \<Longrightarrow> quiet (after_frame p mx b s)"
  unfolding after_frame_def Let_def by (rule quiet_upd) (auto simp: stream_ok_def)

lemma after_frame_sel:
  assumes "p < length (objs s)"
  shows "length (objs (after_frame p mx b s)) = length (objs s)"
    and "sendWindow (strm (after_frame p mx b s) p) = sendWindow (strm s p) - mx"
    and "state (strm (after_frame p mx b s) p) = after_flags (state (strm s p))"
    and "sendErr (strm (after_frame p mx b s) p) = sendErr (strm s p)"
    and "writeDeadline (strm (after_frame p mx b s) p) = writeDeadline (strm s p)"
    and "conn_out (yconn (after_frame p mx b s)) = conn_out (yconn s) @
      wire_header typeData (flags_of (state (strm s p))) (stream_id (strm s p)) mx @ take (unat mx) b"
  using assms by (simp_all add: after_frame_def Let_def)

lemma writable_after_flags [simp]: "writable (after_flags st) = writable st"
  by (cases st) (simp_all add: writable_def after_flags_def)

lemma stream_write_quiet:
  assumes "quiet s" and "p < length (objs s)" and "chbuf (sendErr (strm s p)) = []"
    and "writable (state (strm s p))" and "sendWindow (strm s p) \<noteq> 0"
  shows "stream_write p b s =
    (let mx = yamux_min (sendWindow (strm s p)) (of_nat (length b))
     in (Ret (unat mx, None), after_frame p mx b s))"
  using write_loop_quiet [OF assms] by (simp add: stream_write_def after_frame_def Let_def)

lemma Write_fits:
  assumes q: "quiet s" and p: "p < length (objs s)" and e: "chbuf (sendErr (strm s p)) = []"
    and st: "writable (state (strm s p))" and b: "b \<noteq> []"
    and fits: "length b \<le> unat (sendWindow (strm s p))"
  shows "Write p b s = Some (Ret (length b, None), after_frame p (of_nat (length b)) b s)"
proof -
  have lt: "length b < 2 ^ 32" using fits unat_lt_pow [of "sendWindow (strm s p)"] by simp
  have mx: "unat (yamux_min (sendWindow (strm s p)) (of_nat (length b))) = length b"
    using lt fits by (simp add: unat_yamux_min_len min_def)
  then have mx': "yamux_min (sendWindow (strm s p)) (of_nat (length b)) = of_nat (length b)"
    using lt by (simp add: word_unat_eq_iff unat_of_nat)
  have w: "sendWindow (strm s p) \<noteq> 0" using b fits by auto
  have "stream_write p b s = (Ret (length b, None), after_frame p (of_nat (length b)) b s)"
    using stream_write_quiet [OF q p e st w, of b] mx mx' by (simp add: Let_def)
  then show ?thesis
    using b by (simp add: Write_def Write_loop.simps [of _ _ 0] Write_loop.simps [of _ _ "length b"])
qed

lemma Write_blocked:
  assumes q: "quiet s" and p: "p < length (objs s)" and e: "chbuf (sendErr (strm s p)) = []"
    and st: "writable (state (strm s p))" and d: "writeDeadline (strm s p) = None"
    and w: "sendWindow (strm s p) \<noteq> 0"
    and more: "unat (sendWindow (strm s p)) < length b" and small: "length b < 2 ^ 32"
  shows "\<exists>c. Write p b s = Some (Block, upd p (\<lambda>x. x\<lparr>sendNotifyCh := c\<rparr>)
    (after_frame p (sendWindow (strm s p)) b s))"
proof -
  let ?w = "sendWindow (strm s p)" and ?t = "after_frame p (sendWindow (strm s p)) b s"
  have "unat (yamux_min ?w (of_nat (length b))) = unat ?w"
    using more small by (simp add: unat_yamux_min_len)
  then have mx: "yamux_min ?w (of_nat (length b)) = ?w" by (simp add: word_unat_eq_iff)
  have one: "stream_write p b s = (Ret (unat ?w, None), ?t)"
    using stream_write_quiet [OF q p e st w, of b] mx by (simp add: Let_def)
  have "\<exists>c. stream_write p (drop (unat ?w) b) ?t = (Block, upd p (\<lambda>x. x\<lparr>sendNotifyCh := c\<rparr>) ?t)"
    using quiet_ok [OF quiet_after_frame [OF q]]
    by (rule stream_write_no_window) (use p st d in \<open>simp_all add: after_frame_sel\<close>)
  with one more show ?thesis
    by (auto simp: Write_def Write_loop.simps [of _ _ 0] Write_loop.simps [of _ _ "unat ?w"])
qed

text \<open>
  A write of a positive multiple of \<open>2 ^ 32\<close> bytes truncates its length to 0: it sends empty
  frames for ever.
\<close>

definition stuck :: "nat \<Rightarrow> bytes \<Rightarrow> session \<Rightarrow> bool" where
  "stuck p b s \<longleftrightarrow> b \<noteq> [] \<and> length b mod 2 ^ 32 = 0 \<and> quiet s \<and> p < length (objs s) \<and>
     chbuf (sendErr (strm s p)) = [] \<and> writable (state (strm s p)) \<and> sendWindow (strm s p) \<noteq> 0"

lemma stuck_write:
  assumes "stuck p b s"
  shows "stream_write p b s = (Ret (0, None), after_frame p 0 b s)" "stuck p b (after_frame p 0 b s)"
proof -
  have "unat (yamux_min (sendWindow (strm s p)) (of_nat (length b))) = 0"
    using assms by (simp add: unat_yamux_min_len stuck_def)
  then have mx: "yamux_min (sendWindow (strm s p)) (of_nat (length b)) = 0"
    by (simp add: unat_eq_0)
  show "stream_write p b s = (Ret (0, None), after_frame p 0 b s)"
    using assms mx by (simp add: stuck_def stream_write_quiet Let_def)
  show "stuck p b (after_frame p 0 b s)"
    using assms by (simp add: stuck_def after_frame_sel)
qed

lemma Write_loop_stuck:
  assumes "Write_loop p b k s = Some rs"
  shows "\<not> (k = 0 \<and> stuck p b s)"
proof (rule Write_loop.raw_induct [where P = "\<lambda>p b k s rs. \<not> (k = 0 \<and> stuck p b s)", OF _ assms])
  fix f :: "nat \<Rightarrow> bytes \<Rightarrow> nat \<Rightarrow> session \<Rightarrow> ((nat \<times> yerror option) outcome \<times> session) option"
    and p b k s rs
  assume IH: "\<And>p b k s rs. f p b k s = Some rs \<Longrightarrow> \<not> (k = 0 \<and> stuck p b s)"
    and eq: "(if k < length b then
        (case stream_write p (drop k b) s of
           (Ret (n, None), s) \<Rightarrow> f p b (k + n) s
         | (Ret (n, Some e), s) \<Rightarrow> Some (Ret (k + n, Some e), s)
         | (Block, s) \<Rightarrow> Some (Block, s)
         | (Panic m, s) \<Rightarrow> Some (Panic m, s))
      else Some (Ret (k, None), s)) = Some rs"
  show "\<not> (k = 0 \<and> stuck p b s)"
  proof
    assume k: "k = 0 \<and> stuck p b s"
    then have "f p b 0 (after_frame p 0 b s) = Some rs"
      using eq stuck_write(1) [of p b s] by (auto simp: stuck_def)
    with IH stuck_write(2) k show False by blast
  qed
qed

section \<open>Receiving\<close>

lemma readData_complete:
  assumes f: "processFlags p fl s = (None, t)" and p: "p < length (objs t)"
    and len: "0 < Length h" "Length h \<le> recvWindow (strm t p)"
    and avail: "unat (Length h) \<le> length (conn_in (yconn t))"
  shows "\<exists>s'. readData p h fl s = (Ret None, s') \<and>
    recvBuf (strm s' p) = recvBuf (strm t p) @ take (unat (Length h)) (conn_in (yconn t)) \<and>
    recvWindow (strm s' p) = recvWindow (strm t p) - Length h \<and>
    conn_in (yconn s') = drop (unat (Length h)) (conn_in (yconn t)) \<and>
    conn_out (yconn s') = conn_out (yconn t)"
  using assms by (simp add: readData_def Let_def minus_one_complement not_less word_gt_0 upd_upd)

lemma Read_data:
  assumes q: "quiet s" and p: "p < length (objs s)" and e: "chbuf (controlErr (strm s p)) = []"
    and st: "state (strm s p) \<noteq> streamReset" and buf: "recvBuf (strm s p) \<noteq> []"
  shows "\<exists>s'. Read p n s = (Ret (take n (recvBuf (strm s p)), None), s') \<and>
    recvBuf (strm s' p) = drop n (recvBuf (strm s p))"
proof -
  let ?t = "upd p (\<lambda>x. x\<lparr>recvBuf := drop n (recvBuf x)\<rparr>) s"
  have qt: "quiet ?t" using q by (auto intro: quiet_upd)
  obtain u where u: "sendWindowUpdate p ?t = (Ret None, u)"
      "recvBuf (strm u p) = recvBuf (strm ?t p)" "length (objs u) = length (objs s)"
    using sendWindowUpdate_quiet [OF qt, of p] p e by (auto split: if_splits)
  have "Read_loop k p n s = (Ret (take n (recvBuf (strm s p)), None), u)" for k
    using st buf u(1) by (subst Read_loop.simps) (simp add: Let_def)
  with u p show ?thesis by (simp add: Read_def)
qed

lemma Read_eof:
  assumes "state (strm s p) = streamRemoteClose \<or> state (strm s p) = streamClosed"
    and "recvBuf (strm s p) = []"
  shows "fst (Read p n s) = Ret ([], Some EOF)"
  using assms by (simp add: Read_def Read_loop.simps Let_def)

section \<open>A concrete session\<close>

text \<open>A session with one established stream, for concrete instances of the theorems.\<close>

definition demo_conn :: conn where
  "demo_conn = \<lparr>conn_in = [], conn_end = None, conn_out = [], conn_wplan = [], conn_closed = False\<rparr>"

definition demo_session :: "bool \<Rightarrow> session" where
  "demo_session client = (newSession DefaultConfig demo_conn client)
     \<lparr>objs := [new_stream 1 streamEstablished], streams := [(1, 0)]\<rparr>"

lemma demo_session_ok: "session_ok (demo_session b)"
proof -
  have "config_ok DefaultConfig" by (simp add: config_ok_def DefaultConfig_def)
  then show ?thesis
    by (simp add: demo_session_def session_ok_defs newSession_def make_chan_def chan_ok_def strm_def)
      (simp add: new_stream_def)
qed

lemma demo_session_quiet: "quiet (demo_session b)"
  using demo_session_ok [of b]
  by (simp add: quiet_def) (simp add: demo_session_def newSession_def make_chan_def demo_conn_def)

lemma demo_session_sel [simp]:
  "objs (demo_session b) = [new_stream 1 streamEstablished]"
  "strm (demo_session b) 0 = new_stream 1 streamEstablished"
  "streams (demo_session b) = [(1, 0)]" "yconn (demo_session b) = demo_conn"
  by (simp_all add: demo_session_def newSession_def strm_def)

end
