(* ===== verification/Yamux_Frame.thy ===== *)
theory Yamux_Frame
  imports Yamux_Flow
begin

text \<open>
  What the send path leaves alone, in every environment: handing a frame to the send
  goroutine and waiting for it changes neither the stream table nor windows or buffers; it
  can at most end the session, which closes streams. From this follow the accounts of the
  window updates and of the writes.
\<close>

definition same_flow :: "stream \<Rightarrow> stream \<Rightarrow> bool" where
  "same_flow x y \<longleftrightarrow> recvWindow y = recvWindow x \<and> sendWindow y = sendWindow x \<and>
     recvBuf y = recvBuf x \<and> stream_id y = stream_id x \<and> (state y = state x \<or> state y = streamClosed)"

definition send_frame :: "session \<Rightarrow> session \<Rightarrow> bool" where
  "send_frame s s' \<longleftrightarrow> streams s' = streams s \<and> acceptCh s' = acceptCh s \<and>
     nextStreamID s' = nextStreamID s \<and> localGoAway s' = localGoAway s \<and>
     remoteGoAway s' = remoteGoAway s \<and> pings s' = pings s \<and> cfg s' = cfg s \<and>
     conn_in (yconn s') = conn_in (yconn s) \<and> length (objs s') = length (objs s) \<and>
     (\<forall>p < length (objs s). same_flow (strm s p) (strm s' p)) \<and> (shutdown s \<longrightarrow> shutdown s') \<and>
     (\<not> shutdown s' \<longrightarrow> (\<forall>p < length (objs s). state (strm s' p) = state (strm s p)))"

lemma same_flow_refl [simp]: "same_flow x x"
  by (simp add: same_flow_def)

lemma same_flow_trans: "same_flow x y \<Longrightarrow> same_flow y z \<Longrightarrow> same_flow x z"
  by (auto simp: same_flow_def)

lemma send_frame_refl [simp]: "send_frame s s"
  by (simp add: send_frame_def)

lemma send_frame_trans [trans]: "send_frame s t \<Longrightarrow> send_frame t u \<Longrightarrow> send_frame s u"
  unfolding send_frame_def by (metis same_flow_trans)

lemma send_frame_same:
  "objs s' = objs s \<Longrightarrow> streams s' = streams s \<Longrightarrow> acceptCh s' = acceptCh s \<Longrightarrow>
    nextStreamID s' = nextStreamID s \<Longrightarrow> localGoAway s' = localGoAway s \<Longrightarrow>
    remoteGoAway s' = remoteGoAway s \<Longrightarrow> pings s' = pings s \<Longrightarrow> cfg s' = cfg s \<Longrightarrow>
    conn_in (yconn s') = conn_in (yconn s) \<Longrightarrow> (shutdown s \<longrightarrow> shutdown s') \<Longrightarrow> send_frame s s'"
  by (simp add: send_frame_def strm_def)

lemma send_frame_upd:
  assumes "same_flow (strm s p) (f (strm s p))" and "state (f (strm s p)) = state (strm s p)"
  shows "send_frame s (upd p f s)"
proof -
  have "same_flow (strm s q) (strm (upd p f s) q) \<and> state (strm (upd p f s) q) = state (strm s q)"
    if "q < length (objs s)" for q
    using that assms by (cases "q = p") simp_all
  then show ?thesis by (simp add: send_frame_def)
qed

lemma send_frame_fold_forceClose:
  "shutdown s \<Longrightarrow> send_frame s (fold (\<lambda>(i, p). forceClose p) xs s)"
proof (induction xs arbitrary: s)
  case (Cons x xs)
  obtain i p where x: "x = (i, p)" by (cases x)
  have "same_flow (strm s q) (strm (forceClose p s) q)" if "q < length (objs s)" for q
    using that by (cases "q = p") (simp_all add: forceClose_def notifyWaiting_def set_state_def same_flow_def)
  then have "send_frame s (forceClose p s)"
    using Cons.prems
    by (simp add: send_frame_def) (simp add: forceClose_def notifyWaiting_def set_state_def)
  also have "send_frame \<dots> (fold (\<lambda>(i, p). forceClose p) xs \<dots>)"
    using Cons.prems by (intro Cons.IH) simp
  finally show ?case by (simp add: x)
qed simp

lemma send_frame_Session_Close [simp]: "send_frame s (Session_Close s)"
proof (cases "shutdown s")
  case False
  have "send_frame s (mark_closed s)"
    by (rule send_frame_same) (simp_all add: mark_closed_def conn_Close_def)
  also have "send_frame \<dots> (fold (\<lambda>(i, p). forceClose p) (streams s) (mark_closed s))"
    by (rule send_frame_fold_forceClose) (simp add: mark_closed_def)
  finally show ?thesis using False by (simp add: Session_Close_eq)
qed (simp add: Session_Close_eq)

lemma send_frame_exitErr [simp]: "send_frame s (exitErr e s)"
proof -
  let ?t = "if shutdownErr s = None then s\<lparr>shutdownErr := Some e\<rparr> else s"
  have "send_frame s ?t" by (rule send_frame_same) simp_all
  also have "send_frame ?t (Session_Close ?t)" by simp
  finally show ?thesis by (simp add: exitErr_def)
qed

lemma send_frame_set_errch [simp]: "send_frame s (set_errch r c s)"
  by (cases r) (auto simp: set_errch_def same_flow_def intro!: send_frame_upd send_frame_same)

lemma send_frame_putErr [simp]: "send_frame s (putErr r e s)"
  by (simp add: putErr_def split: option.split)

lemma send_frame_conn: "conn_in c = conn_in (yconn s) \<Longrightarrow> send_frame s (s\<lparr>yconn := c\<rparr>)"
  by (rule send_frame_same) simp_all

lemma send_frame_select2: "select2 a b s = (r, s') \<Longrightarrow> send_frame s s'"
  using select2_state [of a b s r s'] by (metis send_frame_same session.surjective
      session.update_convs(18) session.select_convs)

lemma send_frame_send_one [simp]: "send_frame s (send_one r s)"
proof -
  have err: "send_frame s (exitErr e (putErr x y (s\<lparr>yconn := c\<rparr>))\<lparr>send_exited := True\<rparr>)"
    if "conn_in c = conn_in (yconn s)" for e x y c
  proof -
    have "send_frame s (s\<lparr>yconn := c\<rparr>)" using that by (rule send_frame_conn)
    also have "send_frame \<dots> (putErr x y \<dots>)" by simp
    also have "send_frame \<dots> (exitErr e \<dots>)" by simp
    also have "send_frame \<dots> (\<dots>\<lparr>send_exited := True\<rparr>)" by (rule send_frame_same) simp_all
    finally show ?thesis .
  qed
  have put: "send_frame s (putErr x y (s\<lparr>yconn := c\<rparr>))" if "conn_in c = conn_in (yconn s)" for x y c
    by (rule send_frame_trans [OF send_frame_conn [OF that]]) simp
  show ?thesis
    unfolding send_one_def
    by (auto split: prod.splits option.splits dest!: write_hdr_keeps copy_body_keeps intro!: err put)
qed

lemma send_frame_send_step [simp]: "send_frame s (send_step s)"
proof (cases "select2 (chbuf (sendCh s) \<noteq> []) (chclosed (shutdownCh s)) s")
  case (Pair r t)
  have t: "send_frame s t" using Pair by (rule send_frame_select2)
  have x: "send_frame s (t\<lparr>send_exited := True\<rparr>)"
    by (rule send_frame_trans [OF t]) (rule send_frame_same; simp)
  have q: "send_frame s (send_one y (t\<lparr>sendCh := c\<rparr>))" for y c
    by (rule send_frame_trans [OF t], rule send_frame_trans [where t = "t\<lparr>sendCh := c\<rparr>"])
      (simp_all add: send_frame_same)
  from Pair t x q show ?thesis
    by (auto simp: send_step_def split: option.splits sel.splits prod.splits)
qed

lemma send_frame_offer: "offer r s = (x, s') \<Longrightarrow> send_frame s s'"
proof (cases "select2 (length (chbuf (sendCh s)) < chcap (sendCh s)) (chclosed (shutdownCh s)) s")
  case (Pair y t)
  assume o: "offer r s = (x, s')"
  have t: "send_frame s t" using Pair by (rule send_frame_select2)
  have q: "send_frame s (t\<lparr>sendCh := c\<rparr>)" for c
    by (rule send_frame_trans [OF t]) (simp add: send_frame_same)
  from o Pair t q show ?thesis by (auto simp: offer_def split: option.splits sel.splits)
qed

lemma send_frame_offer_wait: "offer_wait r s = (x, s') \<Longrightarrow> send_frame s s'"
proof (cases "offer r s")
  case (Pair y t)
  assume o: "offer_wait r s = (x, s')"
  have t: "send_frame s t" using Pair by (rule send_frame_offer)
  have "send_frame s u" if "offer r (send_step t) = (z, u)" for z u
    using t send_frame_send_step [of t] send_frame_offer [OF that] by (blast intro: send_frame_trans)
  with o Pair t show ?thesis by (auto simp: offer_wait_def split: outcome.splits)
qed

lemma send_frame_awaitErr: "awaitErr n r s = (x, s') \<Longrightarrow> send_frame s s'"
proof (induction n arbitrary: s)
  case 0
  obtain y t where Pair: "select2 (case errch r s of None \<Rightarrow> False | Some c \<Rightarrow> chbuf c \<noteq> [])
      (chclosed (shutdownCh s)) s = (y, t)" by fastforce
  then have t: "send_frame s t" by (rule send_frame_select2)
  have "send_frame s (set_errch r c t)" for c by (rule send_frame_trans [OF t]) simp
  with 0 Pair t show ?case
    by (subst (asm) awaitErr.simps) (auto split: option.splits sel.splits prod.splits)
next
  case (Suc n)
  obtain y t where Pair: "select2 (case errch r s of None \<Rightarrow> False | Some c \<Rightarrow> chbuf c \<noteq> [])
      (chclosed (shutdownCh s)) s = (y, t)" by fastforce
  then have t: "send_frame s t" by (rule send_frame_select2)
  have c: "send_frame s (set_errch r c t)" for c by (rule send_frame_trans [OF t]) simp
  have "send_frame s s'" if "awaitErr n r (send_step t) = (x, s')"
    using t send_frame_send_step [of t] Suc.IH [OF that] by (blast intro: send_frame_trans)
  with Suc.prems Pair t c show ?case
    by (subst (asm) awaitErr.simps) (auto split: option.splits sel.splits prod.splits)
qed

lemma send_frame_waitForSendErr: "waitForSendErr h b r s = (x, s') \<Longrightarrow> send_frame s s'"
  by (auto simp: waitForSendErr_def split: prod.splits outcome.splits option.splits
      dest!: send_frame_offer_wait send_frame_awaitErr intro: send_frame_trans)

lemma send_frame_sendNoWait: "sendNoWait h s = (x, s') \<Longrightarrow> send_frame s s'"
  unfolding sendNoWait_def by (rule send_frame_offer_wait)

lemma send_frameD:
  assumes "send_frame s s'" and "p < length (objs s)"
  shows "recvWindow (strm s' p) = recvWindow (strm s p)" "sendWindow (strm s' p) = sendWindow (strm s p)"
    "recvBuf (strm s' p) = recvBuf (strm s p)" "stream_id (strm s' p) = stream_id (strm s p)"
    "length (objs s') = length (objs s)" "streams s' = streams s"
    "state (strm s' p) = state (strm s p) \<or> state (strm s' p) = streamClosed"
  using assms by (auto simp: send_frame_def same_flow_def)

section \<open>Window updates in every environment\<close>

lemma sendFlags_sel:
  assumes "sendFlags p s = (f, s')"
  shows "length (objs s') = length (objs s)" "streams s' = streams s" "cfg s' = cfg s"
    "recvWindow (strm s' q) = recvWindow (strm s q)" "sendWindow (strm s' q) = sendWindow (strm s q)"
    "recvBuf (strm s' q) = recvBuf (strm s q)" "sendNotifyCh (strm s' q) = sendNotifyCh (strm s q)"
proof -
  have *: "g (strm (set_state p st s) q) = g (strm s q)" if "\<And>x. g (x\<lparr>state := st\<rparr>) = g x"
    for g :: "stream \<Rightarrow> 'x" and st
    using that by (cases "q = p"; cases "p < length (objs s)")
      (simp_all add: set_state_def upd_def strm_def list_update_beyond)
  show "length (objs s') = length (objs s)" "streams s' = streams s" "cfg s' = cfg s"
    "recvWindow (strm s' q) = recvWindow (strm s q)" "sendWindow (strm s' q) = sendWindow (strm s q)"
    "recvBuf (strm s' q) = recvBuf (strm s q)" "sendNotifyCh (strm s' q) = sendNotifyCh (strm s q)"
    using assms by (auto simp: sendFlags_def * split: streamState.splits)
qed

lemma swu_begin_sel:
  assumes b: "sendWindowUpdate_begin p s = (r, s')" and p: "p < length (objs s)"
  shows "length (objs s') = length (objs s)" "recvWindow (strm s' p) = recvWindow (strm s p)"
    "recvBuf (strm s' p) = recvBuf (strm s p)" "sendWindow (strm s' p) = sendWindow (strm s p)"
    "r = Some (h, d) \<Longrightarrow> d = MaxStreamWindowSize (cfg s) - recvWindow (strm s p)"
  using b p
  by (auto simp: sendWindowUpdate_begin_def Let_def sendFlags_sel split: prod.splits if_splits)

text \<open>
  Whatever the connection does, a window update that reports success has either been skipped
  or has raised the window to the configured maximum; one that fails has not touched it.
\<close>

lemma sendWindowUpdate_account:
  assumes w: "sendWindowUpdate p s = (r, s')" and p: "p < length (objs s)"
  shows "recvBuf (strm s' p) = recvBuf (strm s p) \<and> length (objs s') = length (objs s) \<and>
    (recvWindow (strm s' p) = recvWindow (strm s p) \<or>
     (r = Ret None \<and> recvWindow (strm s' p) = MaxStreamWindowSize (cfg s)))"
proof -
  obtain b t where b: "sendWindowUpdate_begin p s = (b, t)" by fastforce
  note sel = swu_begin_sel [OF b p]
  show ?thesis
  proof (cases b)
    case None
    with w b sel show ?thesis by (simp add: sendWindowUpdate_def)
  next
    case (Some hd)
    obtain h d where hd: "hd = (h, d)" by fastforce
    obtain y u where y: "waitForSendErr h None (ControlErr p) t = (y, u)" by fastforce
    have pt: "p < length (objs t)" using p sel by simp
    note fr = send_frameD [OF send_frame_waitForSendErr [OF y] pt]
    have d: "d = MaxStreamWindowSize (cfg s) - recvWindow (strm s p)" using sel(5) Some hd by simp
    show ?thesis
    proof (cases "y = Ret None")
      case True
      with w b Some hd y have "r = Ret None" "s' = sendWindowUpdate_finish p d u"
        by (simp_all add: sendWindowUpdate_def)
      then show ?thesis using fr sel pt d p by (simp add: sendWindowUpdate_finish_def)
    next
      case False
      with w b Some hd y have "s' = u"
        by (auto simp: sendWindowUpdate_def split: outcome.splits option.splits)
      then show ?thesis using fr sel p by simp
    qed
  qed
qed

section \<open>Writes in every environment\<close>

lemma write_begin_sel:
  assumes b: "write_begin p b s = (r, s')" and p: "p < length (objs s)"
  shows "length (objs s') = length (objs s)" "sendWindow (strm s' p) = sendWindow (strm s p)"
    "r = WSend h body mx \<Longrightarrow> mx = yamux_min (sendWindow (strm s p)) (of_nat (length b)) \<and>
       body = take (unat mx) b"
    "r = WDone n e \<Longrightarrow> n = 0 \<and> e \<noteq> None" "r = WWait \<Longrightarrow> s' = s"
  using b p by (auto simp: write_begin_def Let_def sendFlags_sel split: prod.splits if_splits)

lemma unat_min_len_le:
  "unat (yamux_min w (of_nat n)) \<le> unat w" "unat (yamux_min w (of_nat n)) \<le> n"
  by (auto simp: yamux_min_def word_less_nat_alt unat_of_nat intro: order_trans [OF mod_less_eq_dividend])

text \<open>A call of \<open>write\<close> spends exactly the window it reports to have used.\<close>

definition spent :: "nat \<Rightarrow> nat \<Rightarrow> session \<Rightarrow> session \<Rightarrow> bool" where
  "spent p n s s' \<longleftrightarrow> length (objs s') = length (objs s) \<and> n \<le> unat (sendWindow (strm s p)) \<and>
     unat (sendWindow (strm s' p)) = unat (sendWindow (strm s p)) - n"

lemma spent_0: "length (objs s') = length (objs s) \<Longrightarrow> sendWindow (strm s' p) = sendWindow (strm s p) \<Longrightarrow>
    spent p 0 s s'"
  by (simp add: spent_def)

lemma spent_trans: "spent p m s t \<Longrightarrow> spent p n t u \<Longrightarrow> spent p (m + n) s u"
  by (auto simp: spent_def)

lemma write_send_account:
  assumes b: "write_begin p b s = (WSend h body mx, t)" and p: "p < length (objs s)"
    and y: "waitForSendErr h (Some body) (SendErr p) t = (y, u)"
  shows "spent p 0 s u" and "spent p (unat mx) s (write_finish p mx u)" and "unat mx \<le> length b"
proof -
  note sel = write_begin_sel [OF b p]
  have pt: "p < length (objs t)" using p sel by simp
  note fr = send_frameD [OF send_frame_waitForSendErr [OF y] pt]
  have mx: "mx = yamux_min (sendWindow (strm s p)) (of_nat (length b))" using sel(3) by simp
  show "spent p 0 s u" using fr sel by (intro spent_0) simp_all
  have le: "mx \<le> sendWindow (strm s p)" using unat_min_len_le mx by (simp add: word_le_nat_alt)
  have "sendWindow (strm (write_finish p mx u) p) = sendWindow (strm s p) - mx"
    using fr sel pt by (simp add: write_finish_def minus_one_complement)
  then show "spent p (unat mx) s (write_finish p mx u)"
    using fr sel le by (simp add: spent_def unat_minus_le word_le_nat_alt write_finish_def)
  show "unat mx \<le> length b" using unat_min_len_le(2) mx by simp
qed

lemma write_loop_account:
  "write_loop k p b s = (r, s') \<Longrightarrow> p < length (objs s) \<Longrightarrow>
    \<exists>n. spent p n s s' \<and> n \<le> length b \<and> (\<forall>m e. r = Ret (m, e) \<longrightarrow> m = n)"
proof (induction k arbitrary: s)
  case 0
  obtain x t where b: "write_begin p b s = (x, t)" by fastforce
  note sel = write_begin_sel [OF b 0(2)]
  show ?case
  proof (cases x)
    case (WDone n e)
    with 0 b sel show ?thesis
      by (subst (asm) write_loop.simps) (auto intro!: exI [of _ 0] spent_0)
  next
    case (WSend h body mx)
    obtain y u where y: "waitForSendErr h (Some body) (SendErr p) t = (y, u)" by fastforce
    note acc = write_send_account [OF b [unfolded WSend] 0(2) y]
    with 0(1) b WSend y show ?thesis
      by (subst (asm) write_loop.simps) (auto split: outcome.splits option.splits)
  next
    case WWait
    obtain z u where z: "select2 (chbuf (sendNotifyCh (strm t p)) \<noteq> [])
        (timeout_ready (writeDeadline (strm t p)) t) t = (z, u)" by fastforce
    have "spent p 0 s u"
      using send_frameD [OF send_frame_select2 [OF z]] sel WWait 0 by (intro spent_0) simp_all
    with 0(1) b WWait z show ?thesis
      by (subst (asm) write_loop.simps) (auto split: option.splits sel.splits intro!: exI [of _ 0])
  qed
next
  case (Suc k)
  obtain x t where b: "write_begin p b s = (x, t)" by fastforce
  note sel = write_begin_sel [OF b Suc.prems(2)]
  show ?case
  proof (cases x)
    case (WDone n e)
    with Suc.prems b sel show ?thesis
      by (subst (asm) write_loop.simps) (auto intro!: exI [of _ 0] spent_0)
  next
    case (WSend h body mx)
    obtain y u where y: "waitForSendErr h (Some body) (SendErr p) t = (y, u)" by fastforce
    note acc = write_send_account [OF b [unfolded WSend] Suc.prems(2) y]
    with Suc.prems(1) b WSend y show ?thesis
      by (subst (asm) write_loop.simps) (auto split: outcome.splits option.splits)
  next
    case WWait
    obtain z u where z: "select2 (chbuf (sendNotifyCh (strm t p)) \<noteq> [])
        (timeout_ready (writeDeadline (strm t p)) t) t = (z, u)" by fastforce
    let ?v = "upd p (\<lambda>x. x\<lparr>sendNotifyCh := (sendNotifyCh x)\<lparr>chbuf := tl (chbuf (sendNotifyCh x))\<rparr>\<rparr>) u"
    have ts: "t = s" using sel(5) WWait by simp
    note fr = send_frameD [OF send_frame_select2 [OF z [unfolded ts]] Suc.prems(2)]
    have u: "spent p 0 s u" using fr by (intro spent_0) simp_all
    have v: "spent p 0 s ?v" using fr Suc.prems(2) by (intro spent_0) simp_all
    have again: "\<exists>n. spent p n s s' \<and> n \<le> length b \<and> (\<forall>m e. r = Ret (m, e) \<longrightarrow> m = n)"
      if w: "write_loop k p b ?v = (r, s')"
    proof -
      have "p < length (objs ?v)" using fr(5) Suc.prems(2) by simp
      then obtain n where n: "spent p n ?v s'" "n \<le> length b" "\<forall>m e. r = Ret (m, e) \<longrightarrow> m = n"
        using Suc.IH [OF w] by blast
      then show ?thesis using spent_trans [OF v n(1)] by auto
    qed
    show ?thesis
    proof (cases "z = Some First")
      case True
      with Suc.prems(1) b WWait z have "write_loop k p b ?v = (r, s')"
        by (subst (asm) write_loop.simps) simp
      then show ?thesis by (rule again)
    next
      case False
      with Suc.prems(1) b WWait z have "s' = u \<and> (\<forall>m e. r = Ret (m, e) \<longrightarrow> m = 0)"
        by (subst (asm) write_loop.simps) (auto split: option.splits sel.splits)
      then show ?thesis using u by (intro exI [of _ 0]) simp
    qed
  qed
qed

text \<open>\<open>Write\<close> as a whole, by induction on the run of its loop.\<close>

lemma Write_loop_account:
  assumes "Write_loop p b k s = Some (r, s')"
  shows "p < length (objs s) \<longrightarrow> (\<exists>n. spent p n s s' \<and> (\<forall>m e. r = Ret (m, e) \<longrightarrow> m = k + n))"
proof -
  let ?P = "\<lambda>p b k s (rs :: (nat \<times> yerror option) outcome \<times> session). p < length (objs s) \<longrightarrow>
    (\<exists>n. spent p n s (snd rs) \<and> (\<forall>m e. fst rs = Ret (m, e) \<longrightarrow> m = k + n))"
  have "?P p b k s (r, s')"
  proof (rule Write_loop.raw_induct [where P = ?P, OF _ assms])
    fix f :: "nat \<Rightarrow> bytes \<Rightarrow> nat \<Rightarrow> session \<Rightarrow> ((nat \<times> yerror option) outcome \<times> session) option"
      and p b k s rs
    assume IH: "\<And>p b k s rs. f p b k s = Some rs \<Longrightarrow> ?P p b k s rs"
      and eq: "(if k < length b then
          (case stream_write p (drop k b) s of
             (Ret (n, None), s) \<Rightarrow> f p b (k + n) s
           | (Ret (n, Some e), s) \<Rightarrow> Some (Ret (k + n, Some e), s)
           | (Block, s) \<Rightarrow> Some (Block, s)
           | (Panic m, s) \<Rightarrow> Some (Panic m, s))
        else Some (Ret (k, None), s)) = Some rs"
    show "?P p b k s rs"
    proof (cases "k < length b")
      case False
      with eq show ?thesis by (auto intro!: exI [of _ 0] spent_0)
    next
      case True
      obtain x t where x: "stream_write p (drop k b) s = (x, t)" by fastforce
      note acc = write_loop_account [OF x [unfolded stream_write_def]]
      show ?thesis
      proof (cases "\<exists>n. x = Ret (n, None)")
        case True
        then obtain n where n: "x = Ret (n, None)" by blast
        with eq x \<open>k < length b\<close> have f: "f p b (k + n) t = Some rs" by simp
        show ?thesis
        proof
          assume p: "p < length (objs s)"
          have st: "spent p n s t" using acc [OF p] n by auto
          then have "p < length (objs t)" using p by (simp add: spent_def)
          then obtain m where m: "spent p m t (snd rs)" "\<forall>j e. fst rs = Ret (j, e) \<longrightarrow> j = k + n + m"
            using IH [OF f] by blast
          show "\<exists>n. spent p n s (snd rs) \<and> (\<forall>m e. fst rs = Ret (m, e) \<longrightarrow> m = k + n)"
            using spent_trans [OF st m(1)] m(2) by (metis add.assoc)
        qed
      next
        case False
        have "snd rs = t \<and> (\<forall>m e. fst rs = Ret (m, e) \<longrightarrow> (\<exists>j. x = Ret (j, e) \<and> m = k + j))"
          using eq [unfolded x] \<open>k < length b\<close> False by (auto split: outcome.splits option.splits)
        then show ?thesis using acc by fastforce
      qed
    qed
  qed
  then show ?thesis by simp
qed

section \<open>Properties\<close>



text \<open>
  A window update either leaves the receive window alone or, when it reports success,
  has raised it to exactly MaxStreamWindowSize; buffered data is untouched. This holds for
  every behaviour of the connection and of the send goroutine.
\<close>

theorem window_update_effect:
  assumes "sendWindowUpdate p s = (r, s')" and "p < length (objs s)"
  shows "recvBuf (strm s' p) = recvBuf (strm s p) \<and>
    (recvWindow (strm s' p) = recvWindow (strm s p) \<or>
     r = Ret None \<and> recvWindow (strm s' p) = MaxStreamWindowSize (cfg s))"
  using sendWindowUpdate_account [OF assms] by blast

theorem window_update_effect_witness:
  "\<exists>s'. sendWindowUpdate 0 (upd 0 (\<lambda>x. x\<lparr>recvWindow := 1\<rparr>) (demo_session True)) = (Ret None, s') \<and>
     recvWindow (strm s' 0) \<in> {1, 262144}"
proof -
  let ?s = "upd 0 (\<lambda>x. x\<lparr>recvWindow := 1\<rparr>) (demo_session True)"
  have q: "quiet ?s" by (rule quiet_upd [OF demo_session_quiet]) simp_all
  have cfg: "cfg (demo_session True) = DefaultConfig" by (simp add: demo_session_def newSession_def)
  obtain s' where s': "sendWindowUpdate 0 ?s = (Ret None, s')"
    using sendWindowUpdate_quiet [OF q, of 0] by (auto simp: new_stream_def make_chan_def split: if_splits)
  from window_update_effect [OF s'] s' show ?thesis
    by (auto simp: cfg DefaultConfig_def initialStreamWindow_def)
qed

end
