(* ===== verification/Yamux_Session.thy ===== *)
theory Yamux_Session
  imports Yamux_Stream
begin

text \<open>
  The rest of yamux/session.go: opening and accepting streams, pings, the handlers of
  incoming frames and one iteration of the receive loop.
\<close>

section \<open>Opening and accepting\<close>

text \<open>
  The methods return a stream and an error together. \<open>math.MaxUint32-1\<close> is the first id that
  is refused. The compare-and-swap of \<open>nextStreamID\<close> succeeds: calls are atomic here.
\<close>

definition OpenStream :: "session \<Rightarrow> (nat option \<times> yerror option) outcome \<times> session" where
  "OpenStream s =
     (if IsClosed s then (Ret (None, Some ErrSessionShutdown), s)
      else if remoteGoAway s = 1 then (Ret (None, Some ErrRemoteGoAway), s)
      else
        let i = nextStreamID s in
        if 4294967294 \<le> i then (Ret (None, Some ErrStreamsExhausted), s)
        else
          let s = s\<lparr>nextStreamID := i + 2\<rparr>;
              (p, s) = newStream i streamInit s;
              s = s\<lparr>streams := AList.update i p (streams s)\<rparr>
          in case sendWindowUpdate p s of
               (Ret e, s) \<Rightarrow> (Ret (Some p, e), s)
             | (Block, s) \<Rightarrow> (Block, s)
             | (Panic m, s) \<Rightarrow> (Panic m, s))"

definition AcceptStream :: "session \<Rightarrow> (nat option \<times> yerror option) outcome \<times> session" where
  "AcceptStream s =
     (case select2 (chbuf (acceptCh s) \<noteq> []) (chclosed (shutdownCh s)) s of
        (None, s) \<Rightarrow> (Block, s)
      | (Some Second, s) \<Rightarrow> (Ret (None, shutdownErr s), s)
      | (Some First, s) \<Rightarrow>
          (case tryRecv (acceptCh s) of
             Some (Some p, q) \<Rightarrow>
               (case sendWindowUpdate p (s\<lparr>acceptCh := q\<rparr>) of
                  (Ret e, s) \<Rightarrow> (Ret (Some p, e), s)
                | (Block, s) \<Rightarrow> (Block, s)
                | (Panic m, s) \<Rightarrow> (Panic m, s))
           | _ \<Rightarrow> (Block, s)))"

section \<open>Pings\<close>

text \<open>The channel of a ping is closed when the answer comes; the round-trip time is left out.\<close>

definition Ping_begin :: "session \<Rightarrow> nat \<times> header \<times> session" where
  "Ping_begin s =
     (let c = length (pingChs s);
          i = pingID s;
          s = s\<lparr>pingChs := pingChs s @ [make_chan 0], pingID := pingID s + 1,
                pings := AList.update i c (pings s)\<rparr>
      in (c, encode typePing flagSYN 0 i make_header, s))"

definition Ping_wait :: "nat \<Rightarrow> session \<Rightarrow> yerror option outcome \<times> session" where
  "Ping_wait c s =
     (case select2 (chclosed (pingChs s ! c)) (chclosed (shutdownCh s)) s of
        (None, s) \<Rightarrow> (Block, s)
      | (Some First, s) \<Rightarrow> (Ret None, s)
      | (Some Second, s) \<Rightarrow> (Ret (Some ErrSessionShutdown), s))"

definition Ping :: "session \<Rightarrow> yerror option outcome \<times> session" where
  "Ping s =
     (case Ping_begin s of (c, hdr, s) \<Rightarrow>
        (case waitForSend hdr None s of
           (Ret None, s) \<Rightarrow> Ping_wait c s
         | res \<Rightarrow> res))"

definition handlePing :: "header \<Rightarrow> session \<Rightarrow> yerror option outcome \<times> session" where
  "handlePing hdr s =
     (let flags = Flags hdr;
          pingID = Length hdr
      in if has_flag flags flagSYN then
           (case sendNoWait (encode typePing flagACK 0 pingID make_header) s of
              (Ret _, s) \<Rightarrow> (Ret None, s)
            | res \<Rightarrow> res)
         else (case map_of (pings s) pingID of
             None \<Rightarrow> (Ret None, s)
           | Some c \<Rightarrow>
               if chclosed (pingChs s ! c) then (Panic ''close of closed channel'', s)
               else (Ret None, s\<lparr>pings := AList.delete pingID (pings s),
                 pingChs := (pingChs s)[c := close_chan (pingChs s ! c)]\<rparr>)))"

text \<open>One turn of the keep-alive loop; \<open>fired\<close> says whether the timer has expired.\<close>

definition keepalive_step :: "bool \<Rightarrow> session \<Rightarrow> bool outcome \<times> session" where
  "keepalive_step fired s =
     (case select2 fired (chclosed (shutdownCh s)) s of
        (None, s) \<Rightarrow> (Block, s)
      | (Some Second, s) \<Rightarrow> (Ret False, s)
      | (Some First, s) \<Rightarrow>
          (case Ping s of (Ret _, s) \<Rightarrow> (Ret True, s) | (Block, s) \<Rightarrow> (Block, s) | (Panic m, s) \<Rightarrow> (Panic m, s)))"

section \<open>Handlers\<close>

definition handleGoAway :: "header \<Rightarrow> session \<Rightarrow> yerror option outcome \<times> session" where
  "handleGoAway hdr s =
     (let code = Length hdr in
      if code = goAwayNormal then (Ret None, s\<lparr>remoteGoAway := 1\<rparr>)
      else if code = goAwayProtoErr then (Ret (Some (Errorf ''yamux protocol error'')), s)
      else if code = goAwayInternalErr then (Ret (Some (Errorf ''remote yamux internal error'')), s)
      else (Ret (Some (Errorf ''unexpected go away received'')), s))"

text \<open>\<open>s.sendNoWait(s.goAway(reason))\<close> with the result ignored, then an error returned.\<close>

definition fail_with :: "yerror \<Rightarrow> u32 \<Rightarrow> session \<Rightarrow> yerror option outcome \<times> session" where
  "fail_with e reason s =
     (case goAway reason s of (hdr, s) \<Rightarrow>
        (case sendNoWait hdr s of (Ret _, s) \<Rightarrow> (Ret (Some e), s) | res \<Rightarrow> res))"

definition incomingStream :: "u32 \<Rightarrow> session \<Rightarrow> yerror option outcome \<times> session" where
  "incomingStream i s =
     (if localGoAway s = 1 then sendNoWait (encode typeWindowUpdate flagRST i 0 make_header) s
      else
        let (p, s) = newStream i streamSYNReceived s in
        if map_of (streams s) i \<noteq> None then fail_with ErrDuplicateStream goAwayProtoErr s
        else
          let s = s\<lparr>streams := AList.update i p (streams s)\<rparr> in
          case trySend p (acceptCh s) of
            Some q \<Rightarrow> (Ret None, s\<lparr>acceptCh := q\<rparr>)
          | None \<Rightarrow>
              let s = s\<lparr>streams := AList.delete i (streams s)\<rparr>;
                  hdr = encode typeWindowUpdate flagRST i 0 (sendHdr (strm s p));
                  s = upd p (\<lambda>x. x\<lparr>sendHdr := hdr\<rparr>) s
              in sendNoWait hdr s)"

text \<open>
  Data for a stream that is not there is drained: an incomplete payload ends the input and
  is only logged. The call blocks while more of it may come.
\<close>

definition drain :: "u32 \<Rightarrow> session \<Rightarrow> yerror option outcome \<times> session" where
  "drain len s =
     (let avail = conn_in (yconn s) in
      if length avail < unat len \<and> conn_end (yconn s) = None then (Block, s)
      else (Ret None, s\<lparr>yconn := (yconn s)\<lparr>conn_in := drop (unat len) avail\<rparr>\<rparr>))"

definition handleStreamMessage :: "header \<Rightarrow> session \<Rightarrow> yerror option outcome \<times> session" where
  "handleStreamMessage hdr s =
     (let i = StreamID hdr;
          flags = Flags hdr
      in case (if has_flag flags flagSYN then incomingStream i s else (Ret None, s)) of
           (Ret None, s) \<Rightarrow>
             (case map_of (streams s) i of
                None \<Rightarrow>
                  if MsgType hdr = typeData \<and> 0 < Length hdr then drain (Length hdr) s
                  else (Ret None, s)
              | Some p \<Rightarrow>
                  if MsgType hdr = typeWindowUpdate then
                    (case incrSendWindow p hdr flags s of
                       (None, s) \<Rightarrow> (Ret None, s)
                     | (Some e, s) \<Rightarrow> fail_with e goAwayProtoErr s)
                  else
                    (case readData p hdr flags s of
                       (Ret (Some e), s) \<Rightarrow> fail_with e goAwayProtoErr s
                     | res \<Rightarrow> res))
         | res \<Rightarrow> res)"

section \<open>The receive loop\<close>

definition dispatch :: "header \<Rightarrow> session \<Rightarrow> yerror option outcome \<times> session" where
  "dispatch hdr s =
     (if Version hdr \<noteq> protoVersion then (Ret (Some ErrInvalidVersion), s)
      else if MsgType hdr = typeData then handleStreamMessage hdr s
      else if MsgType hdr = typeWindowUpdate then handleStreamMessage hdr s
      else if MsgType hdr = typeGoAway then handleGoAway hdr s
      else if MsgType hdr = typePing then handlePing hdr s
      else (Ret (Some ErrInvalidMsgType), s))"

text \<open>
  One iteration of recv(): \<open>Ret True\<close> goes on, \<open>Ret False\<close> has ended the session with
  \<open>exitErr\<close>. An iteration that has to wait for more input is retried from its start.
\<close>

definition recv_step :: "session \<Rightarrow> bool outcome \<times> session" where
  "recv_step s =
     (let avail = conn_in (yconn s) in
      if length avail < headerSize then
        (case conn_end (yconn s) of
           None \<Rightarrow> (Block, s)
         | Some e \<Rightarrow>
             (Ret False,
              exitErr (if avail \<noteq> [] \<and> e = EOF then ErrUnexpectedEOF else e)
                (s\<lparr>yconn := (yconn s)\<lparr>conn_in := []\<rparr>\<rparr>)))
      else
        (case dispatch (take headerSize avail)
                (s\<lparr>yconn := (yconn s)\<lparr>conn_in := drop headerSize avail\<rparr>\<rparr>) of
           (Ret None, s') \<Rightarrow> (Ret True, s')
         | (Ret (Some e), s') \<Rightarrow> (Ret False, exitErr e s')
         | (Block, s') \<Rightarrow> (Block, s)
         | (Panic m, s') \<Rightarrow> (Panic m, s')))"

text \<open>The loop, bounded: every iteration that goes on has taken a header from the input.\<close>

fun recv_loop :: "nat \<Rightarrow> session \<Rightarrow> bool outcome \<times> session" where
  "recv_loop 0 s = (Ret True, s)"
| "recv_loop (Suc n) s =
     (case recv_step s of (Ret True, s') \<Rightarrow> recv_loop n s' | res \<Rightarrow> res)"

definition recv :: "session \<Rightarrow> bool outcome \<times> session" where
  "recv s = recv_loop (Suc (length (conn_in (yconn s)))) s"

section \<open>Session operations keep a session well-formed\<close>

lemma session_ok_newStream: "session_ok s \<Longrightarrow> session_ok (snd (newStream i st s))"
  by (auto simp: newStream_def session_ok_defs strm_def ready_ok_def ref_ok_def nth_append
      split: errref.splits option.splits)

lemma evolves_newStream:
  "session_ok s \<Longrightarrow> st \<noteq> streamInit \<Longrightarrow> evolves s (snd (newStream i st s))"
  using session_ok_newStream [of s i st]
  by (auto simp: newStream_def evolves_def strm_def nth_append new_stream_def)

lemma newStream_sel [simp]:
  "fst (newStream i st s) = length (objs s)"
  "length (objs (snd (newStream i st s))) = Suc (length (objs s))"
  "streams (snd (newStream i st s)) = streams s" "acceptCh (snd (newStream i st s)) = acceptCh s"
  "strm (snd (newStream i st s)) (length (objs s)) = new_stream i st"
  by (simp_all add: newStream_def strm_def)

lemma evolves_register:
  assumes "session_ok s" and "p < length (objs s)" and "stream_id (strm s p) = i"
  shows "evolves s (s\<lparr>streams := AList.update i p (streams s)\<rparr>)"
  using assms set_update_subset [of i p "streams s"]
  by (auto simp: evolves_def session_ok_defs ready_ok_def ref_ok_def distinct_keys_update
      split: errref.splits option.splits)

lemma evolves_set_acceptCh:
  assumes "session_ok s" and "chan_ok q" and "chcap q = chcap (acceptCh s)"
    and "\<forall>p \<in> set (chbuf q). p < length (objs s)"
  shows "evolves s (s\<lparr>acceptCh := q\<rparr>)"
  using assms by (auto simp: evolves_def session_ok_defs ready_ok_def ref_ok_def
      split: errref.splits option.splits)

text \<open>The state in which \<open>OpenStream\<close> and \<open>incomingStream\<close> have registered the new stream.\<close>

definition registered :: "u32 \<Rightarrow> streamState \<Rightarrow> session \<Rightarrow> session" where
  "registered i st s = (let t = snd (newStream i st s)
     in t\<lparr>streams := AList.update i (length (objs s)) (streams t)\<rparr>)"

lemma session_ok_registered: "session_ok s \<Longrightarrow> session_ok (registered i st s)"
  unfolding registered_def Let_def
  by (rule evolves_ok [OF evolves_register [OF session_ok_newStream]]) (auto simp: new_stream_def)

lemma evolves_registered:
  "session_ok s \<Longrightarrow> st \<noteq> streamInit \<Longrightarrow> evolves s (registered i st s)"
  unfolding registered_def Let_def
  by (rule evolves_trans [OF evolves_newStream], assumption, assumption,
      rule evolves_register [OF session_ok_newStream])
    (auto simp: new_stream_def)

lemma registered_sel [simp]:
  "length (objs (registered i st s)) = Suc (length (objs s))"
  "streams (registered i st s) = AList.update i (length (objs s)) (streams s)"
  "strm (registered i st s) (length (objs s)) = new_stream i st"
  "acceptCh (registered i st s) = acceptCh s"
  by (simp_all add: registered_def Let_def)

lemma OpenStream_eq:
  "OpenStream s =
     (if IsClosed s then (Ret (None, Some ErrSessionShutdown), s)
      else if remoteGoAway s = 1 then (Ret (None, Some ErrRemoteGoAway), s)
      else if 4294967294 \<le> nextStreamID s then (Ret (None, Some ErrStreamsExhausted), s)
      else case sendWindowUpdate (length (objs s))
                 (registered (nextStreamID s) streamInit (s\<lparr>nextStreamID := nextStreamID s + 2\<rparr>)) of
             (Ret e, t) \<Rightarrow> (Ret (Some (length (objs s)), e), t)
           | (Block, t) \<Rightarrow> (Block, t)
           | (Panic m, t) \<Rightarrow> (Panic m, t))"
  by (auto simp: OpenStream_def newStream_def registered_def Let_def split: prod.split outcome.split)

lemma sendFlags_not_init: "p < length (objs s) \<Longrightarrow> sendFlags p s = (f, s') \<Longrightarrow>
    state (strm s' p) \<noteq> streamInit"
  by (auto simp: sendFlags_def set_state_def split: streamState.splits)

lemma swu_begin_not_init:
  assumes "p < length (objs s)" and "sendWindowUpdate_begin p s = (r, s')"
  shows "state (strm s' p) \<noteq> streamInit"
proof (cases "sendFlags p s")
  case (Pair f t)
  have "length (objs t) = length (objs s)"
    using Pair by (auto simp: sendFlags_def set_state_def split: streamState.splits)
  with assms Pair sendFlags_not_init [OF assms(1) Pair] show ?thesis
    by (auto simp: sendWindowUpdate_begin_def Let_def split: if_splits)
qed

lemma sendWindowUpdate_not_init:
  assumes ok: "session_ok s" and p: "p < length (objs s)" and w: "sendWindowUpdate p s = (r, s')"
  shows "state (strm s' p) \<noteq> streamInit"
proof (cases "sendWindowUpdate_begin p s")
  case (Pair x t)
  have t: "session_ok t" "p < length (objs t)" and ini: "state (strm t p) \<noteq> streamInit"
    using evolves_swu_begin [OF ok p Pair] p swu_begin_not_init [OF p Pair]
    by (auto simp: evolves_def)
  have keep: "state (strm u p) \<noteq> streamInit" if "evolves t u" for u
    using that t ini by (simp add: evolves_def later_def)
  have send: "evolves t u" if "x = Some (h, d)" and "waitForSendErr h None (ControlErr p) t = (y, u)" for h d y u
    using evolves_swu_begin [OF ok p Pair] that t
    by (intro evolves_waitForSendErr [OF t(1) _ _ that(2)]) (auto simp: ref_ok_def)
  have fin: "evolves t (sendWindowUpdate_finish p d u)"
    if "x = Some (h, d)" and "waitForSendErr h None (ControlErr p) t = (y, u)" for h d y u
    using send [OF that] by (rule evolves_trans) (rule evolves_swu_finish [OF evolves_ok [OF send [OF that]]])
  from w Pair ini show ?thesis
    by (auto simp: sendWindowUpdate_def split: option.splits prod.splits outcome.splits
        dest: keep [OF send] keep [OF fin])
qed

lemma evolves_OpenStream:
  assumes ok: "session_ok s" and o: "OpenStream s = (r, s')"
  shows "evolves s s'"
proof -
  let ?n = "s\<lparr>nextStreamID := nextStreamID s + 2\<rparr>"
  let ?t = "registered (nextStreamID s) streamInit ?n"
  have n: "session_ok ?n" using ok by (rule evolves_ok [OF evolves_ghost(5)])
  have t: "session_ok ?t" using n by (rule session_ok_registered)
  have old: "strm ?t p = strm s p" if "p < length (objs s)" for p
    using that by (simp add: registered_def newStream_def strm_def nth_append)
  have sel: "cfg ?t = cfg s" "errChs ?t = errChs s" "pingChs ?t = pingChs s" "shutdown ?t = shutdown s"
      "yconn ?t = yconn s" "length (objs ?t) = Suc (length (objs s))"
    by (simp_all add: registered_def newStream_def)
  have "evolves s u" if swu: "sendWindowUpdate (length (objs s)) ?t = (x, u)" for x u
  proof -
    have u: "evolves ?t u" using t _ swu by (rule evolves_sendWindowUpdate) simp
    have new: "state (strm u (length (objs s))) \<noteq> streamInit"
      using t _ swu by (rule sendWindowUpdate_not_init) simp
    have "state (strm u p) \<noteq> streamInit" if "length (objs s) \<le> p" "p < length (objs u)" for p
      using that u new sel by (cases "p = length (objs s)") (simp_all add: evolves_def)
    moreover have "stream_id (strm u p) = stream_id (strm s p) \<and>
        later (state (strm s p)) (state (strm u p))" if "p < length (objs s)" for p
    proof -
      have "p < length (objs ?t)" using that sel by simp
      then have "stream_id (strm u p) = stream_id (strm ?t p) \<and>
          later (state (strm ?t p)) (state (strm u p))"
        using u unfolding evolves_def by blast
      then show ?thesis using old [OF that] by simp
    qed
    ultimately show ?thesis using u sel by (simp add: evolves_def)
  qed
  with o ok show ?thesis
    by (auto simp: OpenStream_eq evolves_refl split: if_splits prod.splits outcome.splits)
qed

lemma evolves_AcceptStream:
  assumes ok: "session_ok s" and a: "AcceptStream s = (r, s')"
  shows "evolves s s'"
proof (cases "select2 (chbuf (acceptCh s) \<noteq> []) (chclosed (shutdownCh s)) s")
  case (Pair y t)
  have t: "evolves s t" using ok Pair by (rule evolves_select2)
  have go: "evolves s w"
    if recv: "tryRecv (acceptCh t) = Some (Some p, q)" and
      swu: "sendWindowUpdate p (t\<lparr>acceptCh := q\<rparr>) = (x, w)" for p q x w
  proof -
    have q: "chan_ok q" "chcap q = chcap (acceptCh t)" "\<forall>x \<in> set (chbuf q). x < length (objs t)"
      and p: "p < length (objs t)"
      using tryRecv_Some [OF recv] evolves_ok [OF t]
      by (auto simp: session_ok_def chans_ok_def table_ok_def)
    have u: "evolves s (t\<lparr>acceptCh := q\<rparr>)"
      by (rule evolves_trans [OF t evolves_set_acceptCh [OF evolves_ok [OF t] q]])
    show ?thesis
      by (rule evolves_trans [OF u evolves_sendWindowUpdate [OF evolves_ok [OF u] _ swu]]) (simp add: p)
  qed
  from a Pair t show ?thesis
    by (auto simp: AcceptStream_def split: option.splits sel.splits prod.splits outcome.splits dest: go)
qed

lemma evolves_set_pings:
  assumes "session_ok s" and "distinct (map fst m)" and "distinct (map snd m)"
    and "\<And>i d. (i, d) \<in> set m \<Longrightarrow> d < length cs \<and> \<not> chclosed (cs ! d)"
    and "length (pingChs s) \<le> length cs"
  shows "evolves s (s\<lparr>pingChs := cs, pingID := i, pings := m\<rparr>)"
  using assms by (auto simp: evolves_def session_ok_defs ready_ok_def ref_ok_def strm_def
      split: errref.splits option.splits)

lemma table_pings: "session_ok s \<Longrightarrow> (i, d) \<in> set (pings s) \<Longrightarrow>
      d < length (pingChs s) \<and> \<not> chclosed (pingChs s ! d)"
  and table_pings_distinct: "session_ok s \<Longrightarrow> distinct (map fst (pings s))"
  and table_pings_inj: "session_ok s \<Longrightarrow> distinct (map snd (pings s))"
  by (auto simp: session_ok_def table_ok_def)

lemma evolves_Ping_begin:
  assumes ok: "session_ok s" and b: "Ping_begin s = (c, h, s')"
  shows "evolves s s' \<and> header_ok h \<and> c < length (pingChs s')"
proof -
  let ?n = "length (pingChs s)"
  let ?m = "AList.update (pingID s) ?n (pings s)"
  have new: "?n \<notin> snd ` set (pings s)"
    using table_pings [OF ok] by fastforce
  have "d < Suc ?n \<and> \<not> chclosed ((pingChs s @ [make_chan 0]) ! d)" if "(i, d) \<in> set ?m" for i d
  proof -
    have "(i, d) \<in> insert (pingID s, ?n) (set (pings s))"
      using that by (rule subsetD [OF set_update_subset])
    then show ?thesis
      using table_pings [OF ok, of i d] by (auto simp: nth_append make_chan_def)
  qed
  then have "evolves s (s\<lparr>pingChs := pingChs s @ [make_chan 0], pingID := pingID s + 1, pings := ?m\<rparr>)"
    by (intro evolves_set_pings [OF ok])
      (simp_all add: distinct_keys_update distinct_snd_update new
        table_pings_distinct [OF ok] table_pings_inj [OF ok])
  with b show ?thesis by (auto simp: Ping_begin_def Let_def)
qed

lemma evolves_Ping:
  assumes ok: "session_ok s" and w: "Ping s = (r, s')"
  shows "evolves s s'"
proof -
  obtain c h t where b: "Ping_begin s = (c, h, t)" by (cases "Ping_begin s") auto
  have t: "evolves s t" and h: "header_ok h" using evolves_Ping_begin [OF ok b] by auto
  have u: "evolves s u" if "waitForSend h None t = (x, u)" for x u
    by (rule evolves_trans [OF t evolves_waitForSend [OF evolves_ok [OF t] h that]])
  have sel: "evolves s w" if "evolves s u" and "Ping_wait c u = (y, w)" for y u w
  proof -
    obtain z v where v: "select2 (chclosed (pingChs u ! c)) (chclosed (shutdownCh u)) u = (z, v)"
      by fastforce
    have "evolves s v" by (rule evolves_trans [OF that(1) evolves_select2 [OF evolves_ok [OF that(1)] v]])
    with that(2) v show ?thesis by (auto simp: Ping_wait_def split: option.splits sel.splits)
  qed
  from w b show ?thesis
    by (auto simp: Ping_def split: prod.splits outcome.splits option.splits dest: u sel [OF u])
qed

lemma evolves_keepalive:
  assumes ok: "session_ok s" and k: "keepalive_step fired s = (r, s')"
  shows "evolves s s'"
  using k ok
  by (auto simp: keepalive_step_def split: prod.splits option.splits sel.splits outcome.splits
      intro: evolves_select2 evolves_trans [OF evolves_select2 evolves_Ping [OF evolves_ok [OF evolves_select2]]])

lemma evolves_handlePing:
  assumes ok: "session_ok s" and h: "handlePing hdr s = (r, s')"
  shows "evolves s s'"
proof -
  have close: "evolves s (s\<lparr>pings := AList.delete i (pings s), pingChs := (pingChs s)[c := x]\<rparr>)"
    if "map_of (pings s) i = Some c" for i c x
  proof -
    have "e < length (pingChs s) \<and> \<not> chclosed ((pingChs s)[c := x] ! e)"
      if "(j, e) \<in> set (AList.delete i (pings s))" for j e
      using snd_delete_other [OF table_pings_inj [OF ok] \<open>map_of (pings s) i = Some c\<close> that]
        table_pings [OF ok, of j e] subsetD [OF set_delete_subset that] by simp
    then have "evolves s (s\<lparr>pingChs := (pingChs s)[c := x], pingID := pingID s, pings := AList.delete i (pings s)\<rparr>)"
      by (intro evolves_set_pings [OF ok])
        (simp_all add: distinct_keys_delete distinct_snd_delete
          table_pings_distinct [OF ok] table_pings_inj [OF ok])
    then show ?thesis by (cases s) simp
  qed
  have reply: "evolves s u" if "sendNoWait (encode typePing flagACK 0 i make_header) s = (x, u)" for i x u
    by (rule evolves_sendNoWait [OF ok _ that]) simp
  from h ok close show ?thesis
    by (auto simp: handlePing_def Let_def split: if_splits prod.splits outcome.splits option.splits
        dest: reply intro: evolves_refl)
qed

lemma evolves_handleGoAway: "session_ok s \<Longrightarrow> handleGoAway hdr s = (r, s') \<Longrightarrow> evolves s s'"
  by (auto simp: handleGoAway_def Let_def evolves_refl evolves_ghost split: if_splits)

lemma evolves_fail_with:
  assumes ok: "session_ok s" and f: "fail_with e c s = (r, s')"
  shows "evolves s s'"
proof -
  have t: "evolves s (s\<lparr>localGoAway := 1\<rparr>)" using ok by (rule evolves_ghost)
  have "evolves s u" if "sendNoWait (encode typeGoAway 0 0 c make_header) (s\<lparr>localGoAway := 1\<rparr>) = (x, u)" for x u
    by (rule evolves_trans [OF t evolves_sendNoWait [OF evolves_ok [OF t] _ that]]) simp
  with f show ?thesis by (auto simp: fail_with_def goAway_def split: prod.splits outcome.splits)
qed

lemma evolves_incomingStream:
  assumes ok: "session_ok s" and i: "incomingStream i s = (r, s')"
  shows "evolves s s'"
proof -
  let ?p = "length (objs s)" and ?n = "snd (newStream i streamSYNReceived s)"
  let ?g = "registered i streamSYNReceived s"
  have n: "evolves s ?n" using ok by (rule evolves_newStream) simp
  have g: "evolves s ?g" using ok by (rule evolves_registered) simp
  have dup: "evolves s u" if "fail_with e c ?n = (x, u)" for e c x u
    by (rule evolves_trans [OF n evolves_fail_with [OF evolves_ok [OF n] that]])
  have acc: "evolves s (?g\<lparr>acceptCh := q\<rparr>)" if "trySend ?p (acceptCh s) = Some q" for q
  proof (rule evolves_trans [OF g], rule evolves_set_acceptCh [OF evolves_ok [OF g]])
    show "chan_ok q" "chcap q = chcap (acceptCh ?g)" "\<forall>p \<in> set (chbuf q). p < length (objs ?g)"
      using that evolves_ok [OF g] by (auto simp: trySend_def session_ok_defs chan_ok_def split: if_splits)
  qed
  have d: "evolves s (closeStream i ?g)"
    by (rule evolves_trans [OF g evolves_closeStream [OF evolves_ok [OF g]]])
  let ?h = "encode typeWindowUpdate flagRST i 0 (sendHdr (strm (closeStream i ?g) ?p))"
  have hok: "header_ok (sendHdr (strm (closeStream i ?g) ?p))"
    by (simp add: closeStream_def new_stream_def)
  have v: "evolves s (upd ?p (\<lambda>x. x\<lparr>sendHdr := ?h\<rparr>) (closeStream i ?g))"
    by (rule evolves_trans [OF d], rule evolves_upd [OF evolves_ok [OF d]]) (simp_all add: hok)
  have rst: "evolves s u"
    if "sendNoWait ?h (upd ?p (\<lambda>x. x\<lparr>sendHdr := ?h\<rparr>) (closeStream i ?g)) = (x, u)" for x u
    by (rule evolves_trans [OF v evolves_sendNoWait [OF evolves_ok [OF v] _ that]]) (simp add: hok)
  have refuse: "evolves s u" if "sendNoWait (encode typeWindowUpdate flagRST i 0 make_header) s = (x, u)" for x u
    by (rule evolves_sendNoWait [OF ok _ that]) simp
  have eq: "incomingStream i s =
     (if localGoAway s = 1 then sendNoWait (encode typeWindowUpdate flagRST i 0 make_header) s
      else if map_of (streams s) i \<noteq> None then fail_with ErrDuplicateStream goAwayProtoErr ?n
      else case trySend ?p (acceptCh ?g) of
            Some q \<Rightarrow> (Ret None, ?g\<lparr>acceptCh := q\<rparr>)
          | None \<Rightarrow> sendNoWait ?h (upd ?p (\<lambda>x. x\<lparr>sendHdr := ?h\<rparr>) (closeStream i ?g)))"
    by (auto simp: incomingStream_def Let_def registered_def newStream_def closeStream_def split: option.split)
  from i ok show ?thesis
    unfolding eq
    by (auto split: if_splits option.splits dest: dup rst acc
        dest: refuse)
qed

lemma evolves_drain: "session_ok s \<Longrightarrow> drain n s = (r, s') \<Longrightarrow> evolves s s'"
  by (auto simp: drain_def Let_def evolves_refl evolves_set_in split: if_splits)

lemma table_lookup: "session_ok s \<Longrightarrow> map_of (streams s) i = Some p \<Longrightarrow> p < length (objs s)"
  by (auto simp: session_ok_defs dest!: map_of_SomeD)

lemma evolves_handleStreamMessage:
  assumes ok: "session_ok s" and h: "handleStreamMessage hdr s = (r, s')"
  shows "evolves s s'"
proof -
  let ?c = "if has_flag (Flags hdr) flagSYN then incomingStream (StreamID hdr) s else (Ret None, s)"
  obtain x t where c: "?c = (x, t)" by (cases ?c)
  have t: "evolves s t"
    using c ok by (auto split: if_splits intro: evolves_incomingStream evolves_refl)
  have fw: "evolves s w" if "evolves s u" and "fail_with e c u = (y, w)" for e c u y w
    by (rule evolves_trans [OF that(1) evolves_fail_with [OF evolves_ok [OF that(1)] that(2)]])
  have inc: "evolves s u" if "incrSendWindow p hdr f t = (y, u)" for p f y u
    by (rule evolves_trans [OF t evolves_incrSendWindow [OF evolves_ok [OF t] that]])
  have rd: "evolves s u" if "readData p hdr f t = (y, u)" for p f y u
    by (rule evolves_trans [OF t evolves_readData [OF evolves_ok [OF t] that]])
  have fi: "evolves s w" if "incrSendWindow p hdr f t = (y, u)" and "fail_with e c u = (z, w)" for p f y u e c z w
    using inc [OF that(1)] that(2) by (rule fw)
  have fr: "evolves s w" if "readData p hdr f t = (y, u)" and "fail_with e c u = (z, w)" for p f y u e c z w
    using rd [OF that(1)] that(2) by (rule fw)
  have dr: "evolves s u" if "drain n t = (y, u)" for n y u
    by (rule evolves_trans [OF t evolves_drain [OF evolves_ok [OF t] that]])
  from h c t show ?thesis
    unfolding handleStreamMessage_def Let_def
    by (auto split: if_splits prod.splits outcome.splits option.splits dest: inc rd dr fi fr)
qed

lemma evolves_dispatch: "session_ok s \<Longrightarrow> dispatch hdr s = (r, s') \<Longrightarrow> evolves s s'"
  by (auto simp: dispatch_def evolves_refl split: if_splits
      intro: evolves_handleStreamMessage evolves_handleGoAway evolves_handlePing)

lemma evolves_recv_step:
  assumes ok: "session_ok s" and r: "recv_step s = (r, s')"
  shows "evolves s s'"
proof -
  have clr: "evolves s (s\<lparr>yconn := (yconn s)\<lparr>conn_in := []\<rparr>\<rparr>)"
    using ok by (rule evolves_set_conn) auto
  have hd: "evolves s (s\<lparr>yconn := (yconn s)\<lparr>conn_in := drop headerSize (conn_in (yconn s))\<rparr>\<rparr>)"
    using ok by (rule evolves_set_in)
  have dis: "evolves s u" if "dispatch h (s\<lparr>yconn := (yconn s)\<lparr>conn_in := drop headerSize (conn_in (yconn s))\<rparr>\<rparr>) = (y, u)" for h y u
    by (rule evolves_trans [OF hd evolves_dispatch [OF evolves_ok [OF hd] that]])
  have ex: "evolves s (exitErr e u)" if "evolves s u" for e u
    by (rule evolves_trans [OF that evolves_exitErr [OF evolves_ok [OF that]]])
  show ?thesis
  proof (cases "length (conn_in (yconn s)) < headerSize")
    case True
    with r ok clr show ?thesis
      by (auto simp: recv_step_def split: option.splits intro: evolves_refl ex)
  next
    case False
    obtain y u where d: "dispatch (take headerSize (conn_in (yconn s)))
        (s\<lparr>yconn := (yconn s)\<lparr>conn_in := drop headerSize (conn_in (yconn s))\<rparr>\<rparr>) = (y, u)"
      by fastforce
    from False r ok d dis [OF d] show ?thesis
      by (auto simp: recv_step_def split: outcome.splits option.splits intro: evolves_refl ex)
  qed
qed

end
