(* ===== verification/Yamux_Phase.thy ===== *)
theory Yamux_Phase
  imports Yamux_Frame Yamux_Flow Yamux_Session
begin

text \<open>
  The contract of a stream's life: an abstract automaton over the two directions of a stream,
  and the proof that the flag handling, \<open>Stream_Close\<close>, the window updates and the writes of
  the code implement it. A stream leaves the session's map exactly when both directions are
  closed or the peer resets it.
\<close>

section \<open>The abstract automaton\<close>

datatype phase = Fresh | BothOpen | LocalClosed | RemoteClosed | BothClosed | Aborted

datatype phase_event = PeerAck | PeerFin | PeerRst | AppClose | Transmit

text \<open>None is refused: a protocol error of the peer, or a panic of the caller.\<close>

fun phase_step :: "phase_event \<Rightarrow> phase \<Rightarrow> phase option" where
  "phase_step PeerAck q = Some q"
| "phase_step PeerFin BothOpen = Some RemoteClosed"
| "phase_step PeerFin LocalClosed = Some BothClosed"
| "phase_step PeerFin _ = None"
| "phase_step PeerRst _ = Some Aborted"
| "phase_step AppClose Fresh = None"
| "phase_step AppClose BothOpen = Some LocalClosed"
| "phase_step AppClose RemoteClosed = Some BothClosed"
| "phase_step AppClose q = Some q"
| "phase_step Transmit Fresh = Some BothOpen"
| "phase_step Transmit q = Some q"

definition phase_of :: "streamState \<Rightarrow> phase" where
  "phase_of st = (case st of
      streamInit \<Rightarrow> Fresh | streamSYNSent \<Rightarrow> BothOpen | streamSYNReceived \<Rightarrow> BothOpen
    | streamEstablished \<Rightarrow> BothOpen | streamLocalClose \<Rightarrow> LocalClosed
    | streamRemoteClose \<Rightarrow> RemoteClosed | streamClosed \<Rightarrow> BothClosed | streamReset \<Rightarrow> Aborted)"

lemma phase_of_simps [simp]:
  "phase_of streamInit = Fresh" "phase_of streamSYNSent = BothOpen"
  "phase_of streamSYNReceived = BothOpen" "phase_of streamEstablished = BothOpen"
  "phase_of streamLocalClose = LocalClosed" "phase_of streamRemoteClose = RemoteClosed"
  "phase_of streamClosed = BothClosed" "phase_of streamReset = Aborted"
  by (simp_all add: phase_of_def)

definition phase_at :: "nat \<Rightarrow> session \<Rightarrow> phase" where
  "phase_at p s = phase_of (state (strm s p))"

text \<open>ACK hides the other flags of a frame, FIN hides RST.\<close>

definition flag_event :: "u16 \<Rightarrow> phase_event option" where
  "flag_event f = (if has_flag f flagACK then Some PeerAck
     else if has_flag f flagFIN then Some PeerFin
     else if has_flag f flagRST then Some PeerRst else None)"

section \<open>Refinement\<close>

lemma phase_set_state [simp]:
  "p < length (objs s) \<Longrightarrow> phase_at p (set_state p st s) = phase_of st"
  "p < length (objs s) \<Longrightarrow> phase_at p (notifyWaiting p s) = phase_at p s"
  "phase_at p (closeStream i s) = phase_at p s"
  by (simp_all add: phase_at_def set_state_def notifyWaiting_def closeStream_def)

lemma streams_set_state [simp]:
  "streams (set_state p st s) = streams s" "streams (notifyWaiting p s) = streams s"
  "length (objs (set_state p st s)) = length (objs s)"
  "length (objs (closeStream i s)) = length (objs s)"
  "streams (closeStream i s) = AList.delete i (streams s)"
  by (simp_all add: set_state_def notifyWaiting_def closeStream_def)

lemma processFlags_phase:
  assumes p: "p < length (objs s)" and f: "processFlags p f s = (e, s')"
  shows "case flag_event f of
      None \<Rightarrow> e = None \<and> s' = s
    | Some ev \<Rightarrow> (case phase_step ev (phase_at p s) of
          None \<Rightarrow> e = Some ErrUnexpectedFlag \<and> s' = s
        | Some q \<Rightarrow> e = None \<and> phase_at p s' = q \<and>
            streams s' = (if ev = PeerRst \<or> ev = PeerFin \<and> q = BothClosed
              then AList.delete (stream_id (strm s p)) (streams s) else streams s))"
proof -
  have id: "stream_id (strm (set_state p st s) p) = stream_id (strm s p)" for st
    using p by (simp add: set_state_def)
  show ?thesis
    using f p id
    by (cases "state (strm s p)")
      (auto simp: processFlags_def flag_event_def phase_at_def set_state_def notifyWaiting_def
        closeStream_def split: if_splits)
qed

lemma sendFlags_phase:
  assumes p: "p < length (objs s)" and f: "sendFlags p s = (f, s')"
  shows "Some (phase_at p s') = phase_step Transmit (phase_at p s) \<and> streams s' = streams s"
  using assms by (cases "state (strm s p)") (auto simp: sendFlags_def phase_at_def set_state_def phase_of_def)

text \<open>\<open>sendClose\<close> keeps the phase, unless the session ends meanwhile.\<close>

lemma sendClose_frame:
  assumes c: "sendClose p s = (r, s')" and p: "p < length (objs s)"
    and st: "state (strm s p) = streamLocalClose \<or> state (strm s p) = streamClosed"
  shows "send_frame s s'"
proof -
  have f: "sendFlags p s = (0, s)" using st by (auto simp: sendFlags_def)
  let ?h = "encode typeWindowUpdate (0 OR flagFIN) (stream_id (strm s p)) 0 (controlHdr (strm s p))"
  have "send_frame s (upd p (\<lambda>x. x\<lparr>controlHdr := ?h\<rparr>) s)"
    by (rule send_frame_upd) (simp_all add: same_flow_def)
  also have "send_frame \<dots> s'"
    by (rule send_frame_waitForSendErr) (use c f in \<open>simp add: sendClose_def Let_def\<close>)
  finally show ?thesis .
qed

lemma Stream_Close_phase:
  assumes p: "p < length (objs s)" and c: "Stream_Close p s = (r, s')"
  shows "case phase_step AppClose (phase_at p s) of
      None \<Rightarrow> is_panic r
    | Some q \<Rightarrow> (phase_at p s' = q \<or> shutdown s' \<and> phase_at p s' = BothClosed) \<and>
        streams s' = (if phase_at p s = RemoteClosed
          then AList.delete (stream_id (strm s p)) (streams s) else streams s)"
proof -
  have id: "stream_id (strm (set_state p st s) p) = stream_id (strm s p)" for st
    using p by (simp add: set_state_def)
  have fin: "(phase_at p u = phase_at p t \<or> shutdown u \<and> phase_at p u = BothClosed) \<and>
      streams u = streams t \<and> length (objs u) = length (objs t)"
    if sc: "sendClose p t = (y, u)" and t: "length (objs t) = length (objs s)"
      and st: "state (strm t p) = streamLocalClose \<or> state (strm t p) = streamClosed" for t y u
  proof -
    have pt: "p < length (objs t)" using p t by simp
    have "send_frame t u" using sc pt st by (rule sendClose_frame)
    with pt show ?thesis
      by (cases "shutdown u") (auto simp: send_frame_def same_flow_def phase_at_def)
  qed
  let ?l = "set_state p streamLocalClose s"
  let ?b = "closeStream (stream_id (strm s p)) (set_state p streamClosed s)"
  have lt: "length (objs ?l) = length (objs s)" "state (strm ?l p) = streamLocalClose"
    and bt: "length (objs ?b) = length (objs s)" "state (strm ?b p) = streamClosed"
    using p by (simp_all add: set_state_def closeStream_def)
  obtain y u where y: "sendClose p ?l = (y, u)" by fastforce
  obtain z v where z: "sendClose p ?b = (z, v)" by fastforce
  note fy = fin [OF y lt(1)] and fz = fin [OF z bt(1)]
  have lphase: "phase_at p ?l = LocalClosed" and bphase: "phase_at p ?b = BothClosed"
    using p by simp_all
  show ?thesis
    using c y z fy fz lt bt lphase bphase p
    by (cases "state (strm s p)")
      (auto simp: Stream_Close_def Let_def phase_at_def set_state_def notifyWaiting_def closeStream_def
        split: outcome.splits)
qed

section \<open>Properties\<close>

text \<open>
  C12: Handling the flags of an incoming frame implements the abstract automaton of a stream:
  an event the automaton refuses is ErrUnexpectedFlag and changes nothing; otherwise the
  stream moves to the automaton's phase, and it leaves the session's map exactly when it is
  reset or the peer's FIN closes the second direction.
\<close>

theorem flags_refine_phase:
  assumes "p < length (objs s)" and "processFlags p f s = (e, s')"
  shows "case flag_event f of
      None \<Rightarrow> e = None \<and> s' = s
    | Some ev \<Rightarrow> (case phase_step ev (phase_at p s) of
          None \<Rightarrow> e = Some ErrUnexpectedFlag \<and> s' = s
        | Some q \<Rightarrow> e = None \<and> phase_at p s' = q \<and>
            streams s' = (if ev = PeerRst \<or> ev = PeerFin \<and> q = BothClosed
              then AList.delete (stream_id (strm s p)) (streams s) else streams s))"
  using assms by (rule processFlags_phase)

theorem flags_refine_phase_witness:
  "\<exists>s'. processFlags 0 flagFIN (demo_session True) = (None, s') \<and> phase_at 0 s' = RemoteClosed \<and>
     streams s' = [(1, 0)]"
proof -
  obtain e s' where f: "processFlags 0 flagFIN (demo_session True) = (e, s')" by fastforce
  have ev: "flag_event flagFIN = Some PeerFin"
    by (simp add: flag_event_def has_flag_def flag_defs)
  have ph: "phase_at 0 (demo_session True) = BothOpen" by (simp add: phase_at_def new_stream_def)
  from flags_refine_phase [OF _ f] f ev ph show ?thesis by simp
qed

text \<open>
  C16: \<open>Stream_Close\<close> implements the automaton's close event in every environment: it panics
  only on a stream that was never opened, otherwise it closes the local direction (a session
  that ends meanwhile closes both) and removes the stream from the map exactly when the peer
  had closed its direction before.
\<close>

theorem close_refines_phase:
  assumes "p < length (objs s)" and "Stream_Close p s = (r, s')"
  shows "case phase_step AppClose (phase_at p s) of
      None \<Rightarrow> is_panic r
    | Some q \<Rightarrow> (phase_at p s' = q \<or> shutdown s' \<and> phase_at p s' = BothClosed) \<and>
        streams s' = (if phase_at p s = RemoteClosed
          then AList.delete (stream_id (strm s p)) (streams s) else streams s)"
  using assms by (rule Stream_Close_phase)

theorem close_refines_phase_witness:
  "\<exists>r s'. Stream_Close 0 (set_state 0 streamRemoteClose (demo_session True)) = (r, s') \<and>
     phase_at 0 s' = BothClosed \<and> streams s' = []"
proof -
  let ?s = "set_state 0 streamRemoteClose (demo_session True)"
  obtain r s' where c: "Stream_Close 0 ?s = (r, s')" by fastforce
  have "phase_at 0 ?s = RemoteClosed" "stream_id (strm ?s 0) = 1"
    by (simp_all add: phase_at_def) (simp add: new_stream_def)
  with close_refines_phase [OF _ c] c show ?thesis by auto
qed

end
