(* ===== verification/Yamux_System.thy ===== *)
theory Yamux_System
  imports Yamux_Session Yamux_Flow
begin

text \<open>
  A whole yamux session as a transition system: calls of the application, iterations of the
  send and receive goroutines, the peer's bytes and the environment. Every reachable session
  is well-formed, no operation panics, the receive loop consumes its input, and streams only
  move forward.
\<close>

section \<open>No operation panics\<close>

lemma not_panic_offer [simp]: "offer r s \<noteq> (Panic m, t)"
  by (auto simp: offer_def split: prod.splits option.splits sel.splits)

lemma not_panic_offer_wait [simp]: "offer_wait r s \<noteq> (Panic m, t)"
  by (auto simp: offer_wait_def split: prod.splits outcome.splits)

lemma not_panic_sendNoWait [simp]: "sendNoWait h s \<noteq> (Panic m, t)"
  by (simp add: sendNoWait_def)

lemma not_panic_awaitErr [simp]: "awaitErr n r s \<noteq> (Panic m, t)"
proof (induction n arbitrary: s)
  case 0
  show ?case by (subst awaitErr.simps) (auto split: prod.splits option.splits sel.splits)
next
  case (Suc n)
  then show ?case by (subst awaitErr.simps) (auto split: prod.splits option.splits sel.splits)
qed

lemma not_panic_waitForSendErr [simp]: "waitForSendErr h b r s \<noteq> (Panic m, t)"
  by (auto simp: waitForSendErr_def split: prod.splits outcome.splits option.splits)

lemma not_panic_waitForSend [simp]: "waitForSend h b s \<noteq> (Panic m, t)"
  by (simp add: waitForSend_def)

lemma not_panic_swu [simp]: "sendWindowUpdate p s \<noteq> (Panic m, t)"
  by (auto simp: sendWindowUpdate_def split: prod.splits outcome.splits option.splits)

lemma not_panic_fail_with [simp]: "fail_with e c s \<noteq> (Panic m, t)"
  by (auto simp: fail_with_def split: prod.splits outcome.splits)

lemma not_panic_incomingStream [simp]: "incomingStream i s \<noteq> (Panic m, t)"
  by (auto simp: incomingStream_def Let_def split: prod.splits option.splits)

lemma not_panic_drain [simp]: "drain n s \<noteq> (Panic m, t)"
  by (auto simp: drain_def Let_def split: if_splits)

lemma not_panic_readData [simp]: "readData p h f s \<noteq> (Panic m, t)"
  by (auto simp: readData_def Let_def split: prod.splits option.splits if_splits)

lemma not_panic_handleStreamMessage [simp]: "handleStreamMessage h s \<noteq> (Panic m, t)"
  by (auto simp: handleStreamMessage_def Let_def split: prod.splits option.splits if_splits outcome.splits)

lemma not_panic_handleGoAway [simp]: "handleGoAway h s \<noteq> (Panic m, t)"
  by (simp add: handleGoAway_def Let_def)

lemma not_panic_handlePing: "session_ok s \<Longrightarrow> handlePing h s \<noteq> (Panic m, t)"
  using table_pings [of s "Length h"]
  by (auto simp: handlePing_def Let_def split: prod.splits option.splits if_splits outcome.splits
      dest!: map_of_SomeD)

lemma not_panic_dispatch: "session_ok s \<Longrightarrow> dispatch h s \<noteq> (Panic m, t)"
  by (simp add: dispatch_def not_panic_handlePing)

lemma not_panic_recv_step: "session_ok s \<Longrightarrow> recv_step s \<noteq> (Panic m, t)"
  using not_panic_dispatch [OF evolves_ok [OF evolves_set_in], of s]
  by (auto simp: recv_step_def Let_def split: prod.splits outcome.splits option.splits if_splits)

lemma not_panic_Ping [simp]: "Ping s \<noteq> (Panic m, t)"
  by (auto simp: Ping_def Ping_wait_def split: prod.splits outcome.splits option.splits sel.splits)

lemma not_panic_keepalive [simp]: "keepalive_step b s \<noteq> (Panic m, t)"
  by (auto simp: keepalive_step_def split: prod.splits outcome.splits option.splits sel.splits)

lemma not_panic_OpenStream [simp]: "OpenStream s \<noteq> (Panic m, t)"
  by (auto simp: OpenStream_eq split: prod.splits outcome.splits)

lemma not_panic_AcceptStream [simp]: "AcceptStream s \<noteq> (Panic m, t)"
  by (auto simp: AcceptStream_def split: prod.splits outcome.splits option.splits sel.splits)

lemma not_panic_Read_loop [simp]: "Read_loop k p n s \<noteq> (Panic m, t)"
proof (induction k arbitrary: s)
  case 0
  show ?case
    by (subst Read_loop.simps) (auto simp: Let_def split: prod.splits outcome.splits option.splits sel.splits)
next
  case (Suc k)
  then show ?case
    by (subst Read_loop.simps) (auto simp: Let_def split: prod.splits outcome.splits option.splits sel.splits)
qed

lemma not_panic_write_loop [simp]: "write_loop k p b s \<noteq> (Panic m, t)"
proof (induction k arbitrary: s)
  case 0
  show ?case
    by (subst write_loop.simps)
      (auto split: prod.splits outcome.splits option.splits sel.splits write_step.splits)
next
  case (Suc k)
  then show ?case
    by (subst write_loop.simps)
      (auto split: prod.splits outcome.splits option.splits sel.splits write_step.splits)
qed

lemma not_panic_sendClose [simp]: "sendClose p s \<noteq> (Panic m, t)"
  by (auto simp: sendClose_def Let_def split: prod.splits)

lemma Stream_Close_panic: "Stream_Close p s = (Panic m, t) \<Longrightarrow> state (strm s p) = streamInit"
  by (auto simp: Stream_Close_def Let_def split: streamState.splits prod.splits outcome.splits)

section \<open>The receive loop\<close>

text \<open>An iteration that goes on has consumed the header, so the loop is bounded by its input.\<close>

lemma recv_step_consumes:
  assumes ok: "session_ok s" and r: "recv_step s = (Ret True, s')"
  shows "session_ok s' \<and> length (conn_in (yconn s')) + headerSize \<le> length (conn_in (yconn s))"
proof -
  let ?t = "s\<lparr>yconn := (yconn s)\<lparr>conn_in := drop headerSize (conn_in (yconn s))\<rparr>\<rparr>"
  have t: "session_ok ?t" using ok by (rule evolves_ok [OF evolves_set_in])
  from r have len: "headerSize \<le> length (conn_in (yconn s))"
    and d: "dispatch (take headerSize (conn_in (yconn s))) ?t = (Ret None, s')"
    by (auto simp: recv_step_def Let_def split: if_splits option.splits prod.splits outcome.splits)
  from evolves_dispatch [OF t d] have "session_ok s'"
    and "length (conn_in (yconn s')) \<le> length (conn_in (yconn s)) - headerSize"
    by (simp_all add: evolves_def)
  with len show ?thesis by linarith
qed

lemma recv_loop_fuel:
  "session_ok s \<Longrightarrow> length (conn_in (yconn s)) < n \<Longrightarrow> recv_loop n s = (r, s') \<Longrightarrow>
    r \<noteq> Ret True \<and> (\<forall>m. r \<noteq> Panic m)"
proof (induction n arbitrary: s)
  case (Suc n)
  obtain x t where step: "recv_step s = (x, t)" by (cases "recv_step s")
  have "r \<noteq> Ret True \<and> (\<forall>m. r \<noteq> Panic m)" if "x = Ret True"
    using recv_step_consumes [OF Suc.prems(1)] step that Suc.prems Suc.IH [of t]
    by (auto simp: headerSize_12)
  with Suc.prems(3) step not_panic_recv_step [OF Suc.prems(1)] show ?case
    by (auto split: outcome.splits bool.splits)
qed simp

section \<open>The transition system\<close>

definition peer_sends :: "bytes \<Rightarrow> session \<Rightarrow> session" where
  "peer_sends b s = s\<lparr>yconn := (yconn s)\<lparr>conn_in := conn_in (yconn s) @ b\<rparr>\<rparr>"

definition peer_ends :: "yerror \<Rightarrow> session \<Rightarrow> session" where
  "peer_ends e s = s\<lparr>yconn := (yconn s)\<lparr>conn_end := Some e\<rparr>\<rparr>"

inductive session_step :: "session \<Rightarrow> session \<Rightarrow> bool" where
  step_open: "OpenStream s = (r, s') \<Longrightarrow> session_step s s'"
| step_accept: "AcceptStream s = (r, s') \<Longrightarrow> session_step s s'"
| step_read: "p < length (objs s) \<Longrightarrow> Read p n s = (r, s') \<Longrightarrow> session_step s s'"
| step_write: "p < length (objs s) \<Longrightarrow> stream_write p b s = (r, s') \<Longrightarrow> session_step s s'"
| step_close: "p < length (objs s) \<Longrightarrow> Stream_Close p s = (r, s') \<Longrightarrow> session_step s s'"
| step_deadline: "session_step s (SetDeadline p t s)"
| step_ping: "Ping s = (r, s') \<Longrightarrow> session_step s s'"
| step_keepalive: "keepalive_step fired s = (r, s') \<Longrightarrow> session_step s s'"
| step_goaway: "GoAway s = (r, s') \<Longrightarrow> session_step s s'"
| step_shutdown: "session_step s (Session_Close s)"
| step_send: "session_step s (send_step s)"
| step_recv: "recv_step s = (r, s') \<Longrightarrow> session_step s s'"
| step_input: "conn_end (yconn s) = None \<Longrightarrow> session_step s (peer_sends b s)"
| step_end: "conn_end (yconn s) = None \<Longrightarrow> session_step s (peer_ends e s)"
| step_coins: "session_step s (s\<lparr>coins := cs\<rparr>)"
| step_plan: "session_step s (s\<lparr>yconn := (yconn s)\<lparr>conn_wplan := ws\<rparr>\<rparr>)"
| step_clock: "clock s \<le> t \<Longrightarrow> session_step s (s\<lparr>clock := t\<rparr>)"

inductive_cases session_stepE: "session_step s s'"

definition session_start :: "session \<Rightarrow> bool" where
  "session_start s \<longleftrightarrow> (\<exists>c config. yamux_Client c config = Inr s \<or> yamux_Server c config = Inr s)"

definition no_init :: "session \<Rightarrow> bool" where
  "no_init s \<longleftrightarrow> (\<forall>p < length (objs s). state (strm s p) \<noteq> streamInit)"

definition system_inv :: "session \<Rightarrow> bool" where
  "system_inv s \<longleftrightarrow> session_ok s \<and> no_init s"

text \<open>The part of \<open>evolves\<close> that input from the peer respects, too.\<close>

definition progress :: "session \<Rightarrow> session \<Rightarrow> bool" where
  "progress s s' \<longleftrightarrow> cfg s' = cfg s \<and> length (objs s) \<le> length (objs s') \<and>
     (\<forall>p < length (objs s). stream_id (strm s' p) = stream_id (strm s p) \<and>
       later (state (strm s p)) (state (strm s' p))) \<and>
     (\<forall>p < length (objs s'). length (objs s) \<le> p \<longrightarrow> state (strm s' p) \<noteq> streamInit) \<and>
     (shutdown s \<longrightarrow> shutdown s')"

lemma evolves_progress: "evolves s s' \<Longrightarrow> progress s s'"
  by (simp add: evolves_def progress_def)

lemma progress_same:
  "objs s' = objs s \<Longrightarrow> cfg s' = cfg s \<Longrightarrow> shutdown s' = shutdown s \<Longrightarrow> progress s s'"
  by (auto simp: progress_def strm_def)

lemma evolves_SetDeadline: "session_ok s \<Longrightarrow> evolves s (SetDeadline p t s)"
  unfolding SetDeadline_def SetReadDeadline_def SetWriteDeadline_def upd_upd
  by (rule evolves_upd) auto

lemmas evolves_ops = evolves_OpenStream evolves_AcceptStream evolves_Read evolves_stream_write
  evolves_Stream_Close evolves_Ping evolves_keepalive evolves_GoAway evolves_recv_step

lemma evolves_conc: "evolves s s' \<Longrightarrow> session_ok s' \<and> progress s s'"
  by (simp add: evolves_ok evolves_progress)

lemma session_step_progress:
  assumes ok: "session_ok s" and step: "session_step s s'"
  shows "session_ok s' \<and> progress s s'"
  using step
proof cases
  case (step_input b)
  then show ?thesis using ok
    by (auto simp: peer_sends_def session_ok_defs ready_ok_def ref_ok_def progress_same
        split: errref.splits option.splits)
next
  case (step_end e)
  then show ?thesis using ok
    by (auto simp: peer_ends_def session_ok_defs ready_ok_def ref_ok_def progress_same
        split: errref.splits option.splits)
next
  case (step_plan ws)
  then show ?thesis using ok
    by (auto simp: session_ok_defs ready_ok_def ref_ok_def progress_same
        split: errref.splits option.splits)
next
  case step_shutdown
  then show ?thesis using evolves_conc [OF evolves_Session_Close [OF ok]] by simp
next
  case step_send
  then show ?thesis using evolves_conc [OF evolves_send_step [OF ok]] by simp
next
  case (step_deadline p t)
  then show ?thesis using evolves_conc [OF evolves_SetDeadline [OF ok]] by simp
next
  case (step_coins cs)
  then show ?thesis using evolves_conc [OF evolves_ghost(2) [OF ok]] by simp
next
  case (step_clock t)
  then show ?thesis using evolves_conc [OF evolves_ghost(7) [OF ok]] by simp
qed (rule evolves_conc, blast intro: evolves_ops [OF ok])+

lemma progress_no_init: "no_init s \<Longrightarrow> progress s s' \<Longrightarrow> no_init s'"
proof -
  assume n: "no_init s" and pr: "progress s s'"
  have "state (strm s' p) \<noteq> streamInit" if "p < length (objs s')" for p
  proof (cases "p < length (objs s)")
    case True
    then have "later (state (strm s p)) (state (strm s' p))" using pr by (simp add: progress_def)
    then show ?thesis using n True by (simp add: no_init_def later_def)
  next
    case False
    then show ?thesis using pr that by (simp add: progress_def)
  qed
  then show ?thesis by (simp add: no_init_def)
qed

lemma progress_trans: "progress s t \<Longrightarrow> progress t u \<Longrightarrow> progress s u"
proof -
  assume st: "progress s t" and tu: "progress t u"
  have new: "state (strm u p) \<noteq> streamInit" if "p < length (objs u)" "length (objs s) \<le> p" for p
  proof (cases "p < length (objs t)")
    case True
    then have "state (strm t p) \<noteq> streamInit" "later (state (strm t p)) (state (strm u p))"
      using st tu that by (simp_all add: progress_def)
    then show ?thesis by (simp add: later_def)
  next
    case False
    then show ?thesis using tu that by (simp add: progress_def)
  qed
  have old: "stream_id (strm u p) = stream_id (strm s p) \<and> later (state (strm s p)) (state (strm u p))"
    if "p < length (objs s)" for p
  proof -
    have "p < length (objs t)" using st that by (simp add: progress_def)
    then have "stream_id (strm u p) = stream_id (strm t p)" "later (state (strm t p)) (state (strm u p))"
      using tu by (simp_all add: progress_def)
    moreover have "stream_id (strm t p) = stream_id (strm s p)" "later (state (strm s p)) (state (strm t p))"
      using st that by (simp_all add: progress_def)
    ultimately show ?thesis using order_trans by metis
  qed
  from st tu new old show ?thesis by (simp add: progress_def)
qed

lemma session_start_inv: "session_start s \<Longrightarrow> system_inv s"
proof -
  assume "session_start s"
  then obtain c k b where "s = newSession k c b" "VerifyConfig k = None"
    by (auto simp: session_start_def yamux_Client_def yamux_Server_def Let_def split: option.splits)
  then show ?thesis
    by (simp add: system_inv_def newSession_ok VerifyConfig_None) (simp add: no_init_def newSession_def)
qed

interpretation session_system: invariant_system session_start session_step system_inv
proof unfold_locales
  show "system_inv s" if "session_start s" for s using that by (rule session_start_inv)
next
  fix s t
  assume "system_inv s" and "session_step s t"
  then show "system_inv t"
    using session_step_progress progress_no_init by (auto simp: system_inv_def)
qed

lemma session_run_progress:
  assumes "session_step\<^sup>*\<^sup>* s t" and "session_ok s"
  shows "session_ok t \<and> progress s t"
  using assms
proof (induction rule: rtranclp_induct)
  case base
  then show ?case by (simp add: progress_same)
next
  case (step t u)
  then show ?case using session_step_progress progress_trans by blast
qed

section \<open>Properties\<close>

text \<open>A client session with the default configuration, and one in which a stream is open.\<close>

definition start_session :: session where
  "start_session = newSession DefaultConfig demo_conn True"

lemma start_session_start: "session_start start_session"
proof -
  have "VerifyConfig DefaultConfig = None"
    using demo_session_ok [of True] by (simp add: VerifyConfig_None session_ok_def demo_session_def newSession_def)
  then have "yamux_Client demo_conn None = Inr start_session"
    by (simp add: yamux_Client_def start_session_def)
  then show ?thesis unfolding session_start_def by blast
qed

lemma start_session_reachable: "reachable session_start session_step start_session"
  using start_session_start by (rule reachable_start)

text \<open>
  C17: Every session reachable by calls of the application, iterations of its goroutines,
  arbitrary bytes from the peer and an arbitrary connection is well-formed: all references
  and queues are within bounds, ids in the map are distinct and belong to their streams, the
  channels of pending pings are open, and shutdown flag, channel, error and connection agree.
\<close>

theorem reachable_sessions_ok:
  assumes "reachable session_start session_step s"
  shows "session_ok s"
  using session_system.inv_reachable [OF assms] by (simp add: system_inv_def)

theorem reachable_sessions_ok_witness:
  "session_ok (peer_sends [1, 2, 3] start_session)"
proof (rule reachable_sessions_ok, rule reachable_step [OF start_session_reachable], rule step_input)
  show "conn_end (yconn start_session) = None"
    by (simp add: start_session_def newSession_def demo_conn_def)
qed

text \<open>
  C23: No reachable session panics: closing a stream never meets the unhandled state, and no
  input makes the receive loop close a channel twice.
\<close>

theorem reachable_no_panic:
  assumes "reachable session_start session_step s" and "p < length (objs s)"
  shows "\<not> is_panic (fst (Stream_Close p s)) \<and> \<not> is_panic (fst (recv_step s))"
proof -
  have inv: "session_ok s" "no_init s"
    using session_system.inv_reachable [OF assms(1)] by (simp_all add: system_inv_def)
  have 1: "fst (Stream_Close p s) \<noteq> Panic m" for m
    using inv(2) assms(2) Stream_Close_panic [of p s m "snd (Stream_Close p s)"]
    by (auto simp: no_init_def prod_eq_iff)
  have 2: "fst (recv_step s) \<noteq> Panic m" for m
    using not_panic_recv_step [OF inv(1), of m "snd (recv_step s)"] by (auto simp: prod_eq_iff)
  show ?thesis
    using 1 2 by (metis is_panic.elims(2))
qed

lemma start_session_opens:
  "\<exists>e s'. OpenStream start_session = (Ret (Some 0, e), s') \<and> length (objs s') = 1"
proof -
  let ?t = "registered 1 streamInit (start_session\<lparr>nextStreamID := 3\<rparr>)"
  have sel: "shutdownCh start_session = make_chan 0" "remoteGoAway start_session = 0" "nextStreamID start_session = 1" "objs start_session = []"
    by (simp_all add: start_session_def newSession_def)
  have ok: "session_ok start_session"
    using session_start_inv [OF start_session_start] by (simp add: system_inv_def)
  have q: "quiet ?t"
    using session_ok_registered [OF evolves_ok [OF evolves_ghost(5) [OF ok]], of 1 streamInit 3]
    by (simp add: quiet_def) (simp add: registered_def newStream_def start_session_def newSession_def
        make_chan_def demo_conn_def)
  have "strm ?t 0 = new_stream 1 streamInit"
    using registered_sel(3) [of 1 streamInit "start_session\<lparr>nextStreamID := 3\<rparr>"] sel by simp
  then obtain t' where "sendWindowUpdate 0 ?t = (Ret None, t')" "length (objs t') = 1"
    using sendWindowUpdate_quiet [OF q, of 0] sel
    by (auto simp: new_stream_def make_chan_def split: if_splits)
  then show ?thesis
    using sel by (simp add: OpenStream_eq IsClosed_def make_chan_def word_le_nat_alt)
qed

theorem reachable_no_panic_witness:
  "\<exists>s. length (objs s) = 1 \<and> \<not> is_panic (fst (Stream_Close 0 s)) \<and> \<not> is_panic (fst (recv_step s))"
proof -
  obtain e s' where s': "OpenStream start_session = (Ret (Some 0, e), s')" "length (objs s') = 1"
    using start_session_opens by blast
  from reachable_no_panic [OF reachable_step [OF start_session_reachable step_open [OF s'(1)]], of 0] s'(2)
  show ?thesis by auto
qed

text \<open>
  C22: Along every run a stream only moves forward: its id is fixed, it never becomes writable
  again after its local side was closed, the end of the peer's data is final, and a session
  that was shut down stays shut down.
\<close>

theorem streams_move_forward:
  assumes "session_step\<^sup>*\<^sup>* s t" and "session_ok s" and "p < length (objs s)"
  shows "p < length (objs t) \<and> stream_id (strm t p) = stream_id (strm s p) \<and>
    (writable (state (strm t p)) \<longrightarrow> writable (state (strm s p))) \<and>
    (remote_done (state (strm s p)) \<longrightarrow> remote_done (state (strm t p))) \<and>
    (shutdown s \<longrightarrow> shutdown t)"
  using session_run_progress [OF assms(1,2)] assms(3) by (auto simp: progress_def later_def)

theorem streams_move_forward_witness:
  "remote_done (state (strm (Session_Close (set_state 0 streamRemoteClose (demo_session True))) 0))"
proof -
  let ?s = "set_state 0 streamRemoteClose (demo_session True)"
  have "session_step\<^sup>*\<^sup>* ?s (Session_Close ?s)" using step_shutdown by blast
  moreover have "session_ok ?s" using demo_session_quiet by (rule quiet_ok [OF quiet_set_state])
  moreover have "remote_done (state (strm ?s 0))" by (simp add: remote_done_def)
  ultimately show ?thesis using streams_move_forward [of ?s "Session_Close ?s" 0] by simp
qed



end
