(* ===== verification/Yamux_Transfer.thy ===== *)
theory Yamux_Transfer
  imports Yamux_Phase Yamux_System
begin

text \<open>
  What one frame does at the session that receives it, from the bytes on the connection to
  the stream: data, window overruns, pings and new streams; and the transfer of a write from
  one session to its peer.
\<close>

lemma wire_header_length [simp]: "length (wire_header t f i l) = headerSize"
  by (simp add: wire_header_def headerSize_12)

lemma type_distinct [simp]:
  "typeData \<noteq> typeWindowUpdate" "typeWindowUpdate \<noteq> typeData"
  by (simp_all add: typeData_def typeWindowUpdate_def)

text \<open>A complete frame is dispatched without its header.\<close>

lemma recv_step_frame:
  assumes "conn_in (yconn s) = wire_header t f i l @ rest"
  shows "recv_step s =
     (case dispatch (wire_header t f i l) (s\<lparr>yconn := (yconn s)\<lparr>conn_in := rest\<rparr>\<rparr>) of
           (Ret None, s') \<Rightarrow> (Ret True, s')
         | (Ret (Some e), s') \<Rightarrow> (Ret False, exitErr e s')
         | (Block, s') \<Rightarrow> (Block, s)
         | (Panic m, s') \<Rightarrow> (Panic m, s'))"
  using assms by (simp add: recv_step_def)

text \<open>The flags a data or window update frame of an open stream carries: none, or an ACK.\<close>

definition plain_flags :: "u16 \<Rightarrow> bool" where
  "plain_flags f \<longleftrightarrow> \<not> has_flag f flagSYN \<and> (has_flag f flagACK \<or> \<not> has_flag f flagFIN \<and> \<not> has_flag f flagRST)"

definition acked :: "u16 \<Rightarrow> streamState \<Rightarrow> streamState" where
  "acked f st = (if has_flag f flagACK \<and> st = streamSYNSent then streamEstablished else st)"

lemma processFlags_plain:
  "plain_flags f \<Longrightarrow> processFlags p f s = (None, set_state p (acked f (state (strm s p))) s)"
  by (cases "has_flag f flagACK") (auto simp: processFlags_def plain_flags_def acked_def set_state_def
      upd_def strm_def)

lemma data_frame_accepted:
  assumes inp: "conn_in (yconn s) = wire_header typeData f i n @ body @ rest"
    and reg: "map_of (streams s) i = Some p" and p: "p < length (objs s)" and f: "plain_flags f"
    and n: "0 < n" "n \<le> recvWindow (strm s p)" and len: "length body = unat n"
  shows "recv_step s = (Ret True,
     upd p (\<lambda>x. x\<lparr>state := acked f (state x), recvBuf := recvBuf x @ body,
         recvWindow := recvWindow x - n, recvNotifyCh := asyncNotify (recvNotifyCh x)\<rparr>)
       (s\<lparr>yconn := (yconn s)\<lparr>conn_in := rest\<rparr>\<rparr>))"
proof -
  let ?t = "s\<lparr>yconn := (yconn s)\<lparr>conn_in := body @ rest\<rparr>\<rparr>"
  have pf: "processFlags p f ?t = (None, set_state p (acked f (state (strm s p))) ?t)"
    using processFlags_plain [OF f, of p ?t] by simp
  have "readData p (wire_header typeData f i n) f ?t = (Ret None,
     upd p (\<lambda>x. x\<lparr>state := acked f (state x), recvBuf := recvBuf x @ body,
         recvWindow := recvWindow x - n, recvNotifyCh := asyncNotify (recvNotifyCh x)\<rparr>)
       (s\<lparr>yconn := (yconn s)\<lparr>conn_in := rest\<rparr>\<rparr>))"
    using p n len
    by (simp add: readData_def pf decode_wire Let_def set_state_def minus_one_complement not_less
        word_gt_0 upd_def strm_def)
  moreover have "\<not> has_flag f flagSYN" using f by (simp add: plain_flags_def)
  ultimately show ?thesis
    using recv_step_frame [OF inp] reg
    by (simp add: dispatch_def decode_wire handleStreamMessage_def)
qed

text \<open>A frame larger than the window ends the session; nothing of it is delivered.\<close>

lemma fail_with_ret:
  "fail_with e c s = (r, s') \<Longrightarrow> r = Ret (Some e) \<or> r = Block"
  by (auto simp: fail_with_def split: prod.splits outcome.splits)

lemma fail_with_frame:
  assumes "fail_with e c s = (r, s')"
  shows "send_frame (s\<lparr>localGoAway := 1\<rparr>) s'"
  using assms by (auto simp: fail_with_def goAway_def split: prod.splits outcome.splits
      dest: send_frame_sendNoWait)

lemma exitErr_frame_sel:
  "recvBuf (strm (exitErr e s) p) = recvBuf (strm s p)" if "p < length (objs s)"
  using send_frameD(3) [OF send_frame_exitErr that] .

lemma data_frame_overrun:
  assumes inp: "conn_in (yconn s) = wire_header typeData f i n @ rest"
    and reg: "map_of (streams s) i = Some p" and p: "p < length (objs s)" and f: "plain_flags f"
    and n: "recvWindow (strm s p) < n"
    and r: "recv_step s = (r, s')"
  shows "r = Block \<or> (r = Ret False \<and> shutdown s' \<and> recvBuf (strm s' p) = recvBuf (strm s p))"
proof -
  let ?t = "s\<lparr>yconn := (yconn s)\<lparr>conn_in := rest\<rparr>\<rparr>"
  let ?u = "set_state p (acked f (state (strm s p))) ?t"
  have pf: "processFlags p f ?t = (None, ?u)"
    using processFlags_plain [OF f, of p ?t] by simp
  have "recvWindow (strm ?u p) = recvWindow (strm s p)" using p by (simp add: set_state_def)
  then have rd: "readData p (wire_header typeData f i n) f ?t = (Ret (Some ErrRecvWindowExceeded), ?u)"
    using n by (auto simp: readData_def pf decode_wire Let_def)
  have syn: "\<not> has_flag f flagSYN" using f by (simp add: plain_flags_def)
  obtain y v where y: "fail_with ErrRecvWindowExceeded goAwayProtoErr ?u = (y, v)" by fastforce
  have len: "p < length (objs (?u\<lparr>localGoAway := 1\<rparr>))" using p by (simp add: set_state_def)
  have v: "recvBuf (strm v p) = recvBuf (strm s p)" "p < length (objs v)"
    using send_frameD [OF fail_with_frame [OF y] len] p by (simp_all add: set_state_def)
  from r recv_step_frame [OF inp] reg rd syn y fail_with_ret [OF y] v show ?thesis
    by (auto simp: dispatch_def decode_wire handleStreamMessage_def exitErr_frame_sel)
qed

section \<open>Transfer\<close>

text \<open>
  A write that fits the window, and the peer that receives its bytes: the data arrives whole
  and in place, and both windows shrink by its length.
\<close>

lemma plain_flags_of: "st \<noteq> streamInit \<Longrightarrow> plain_flags (flags_of st)"
  by (cases st) (simp_all add: flags_of_def plain_flags_def has_flag_def flag_defs)

lemma write_transfer:
  assumes q: "quiet w" and p: "p < length (objs w)" and e: "chbuf (sendErr (strm w p)) = []"
    and st: "writable (state (strm w p))" "state (strm w p) \<noteq> streamInit"
    and b: "b \<noteq> []" "length b \<le> unat (sendWindow (strm w p))"
    and r: "conn_in (yconn r) = []" "map_of (streams r) (stream_id (strm w p)) = Some k"
    and k: "k < length (objs r)" "sendWindow (strm w p) \<le> recvWindow (strm r k)"
  shows "\<exists>w' h r'. Write p b w = Some (Ret (length b, None), w') \<and>
     conn_out (yconn w') = conn_out (yconn w) @ h @ b \<and> length h = headerSize \<and>
     recv_step (peer_sends (h @ b) r) = (Ret True, r') \<and>
     recvBuf (strm r' k) = recvBuf (strm r k) @ b \<and> conn_in (yconn r') = [] \<and>
     sendWindow (strm w' p) = sendWindow (strm w p) - of_nat (length b) \<and>
     recvWindow (strm r' k) = recvWindow (strm r k) - of_nat (length b)"
proof -
  let ?n = "of_nat (length b) :: u32"
  let ?h = "wire_header typeData (flags_of (state (strm w p))) (stream_id (strm w p)) ?n"
  let ?out = "?h @ b"
  have lt: "length b < 2 ^ 32" using b(2) unat_lt_pow [of "sendWindow (strm w p)"] by simp
  then have n: "unat ?n = length b" by (simp add: unat_of_nat)
  have w': "Write p b w = Some (Ret (length b, None), after_frame p ?n b w)"
    using q p e st(1) b by (rule Write_fits)
  have out: "conn_out (yconn (after_frame p ?n b w)) = conn_out (yconn w) @ ?out"
    using p n by (simp add: after_frame_sel)
  have "recv_step (peer_sends ?out r) = (Ret True,
     upd k (\<lambda>x. x\<lparr>state := acked (flags_of (state (strm w p))) (state x), recvBuf := recvBuf x @ b,
         recvWindow := recvWindow x - ?n, recvNotifyCh := asyncNotify (recvNotifyCh x)\<rparr>)
       ((peer_sends ?out r)\<lparr>yconn := (yconn (peer_sends ?out r))\<lparr>conn_in := []\<rparr>\<rparr>))"
  proof (rule data_frame_accepted)
    show "?n \<le> recvWindow (strm (peer_sends ?out r) k)"
      using k(2) b(2) n by (simp add: peer_sends_def word_le_nat_alt)
    show "0 < ?n" using b n by (metis length_greater_0_conv unat_0 word_gt_0 neq0_conv)
  qed (use r k n st in \<open>simp_all add: peer_sends_def plain_flags_of\<close>)
  with w' out k show ?thesis
    using p
    by - (rule exI [of _ "after_frame p ?n b w"], rule exI [of _ ?h], simp add: peer_sends_def after_frame_sel)
qed

section \<open>Pings\<close>

lemma queued_sel [simp]:
  "objs (queued r s) = objs s" "streams (queued r s) = streams s" "pings (queued r s) = pings s"
  "acceptCh (queued r s) = acceptCh s" "yconn (queued r s) = yconn s" "chbuf (sendCh (queued r s)) = chbuf (sendCh s) @ [r]"
  by (simp_all add: queued_def)

definition sendable :: "session \<Rightarrow> bool" where
  "sendable s \<longleftrightarrow> \<not> chclosed (shutdownCh s) \<and> length (chbuf (sendCh s)) < chcap (sendCh s)"

definition just_header :: "header \<Rightarrow> sendReady" where
  "just_header h = \<lparr>Hdr = Some h, Body = None, Err = NoErr\<rparr>"

lemma sendNoWait_sendable: "sendable s \<Longrightarrow> sendNoWait h s = (Ret None, queued (just_header h) s)"
  by (simp add: sendable_def just_header_def sendNoWait_room)

lemma handlePing_request:
  assumes "has_flag f flagSYN" and "sendable s"
  shows "handlePing (wire_header typePing f 0 n) s =
    (Ret None, queued (just_header (wire_header typePing flagACK 0 n)) s)"
  using assms by (simp add: handlePing_def decode_wire Let_def sendNoWait_sendable encode_wire)

lemma handlePing_answer:
  assumes "session_ok s" and "\<not> has_flag f flagSYN" and "map_of (pings s) n = Some c"
  shows "\<exists>s'. handlePing (wire_header typePing f 0 n) s = (Ret None, s') \<and>
    map_of (pings s') n = None \<and> chclosed (pingChs s' ! c) \<and>
    (\<exists>t. Ping_wait c (s'\<lparr>coins := []\<rparr>) = (Ret None, t))"
proof -
  have c: "c < length (pingChs s)" "\<not> chclosed (pingChs s ! c)"
    using table_pings [OF assms(1)] assms(3) by (auto dest: map_of_SomeD)
  with assms show ?thesis
    by (simp add: handlePing_def decode_wire Let_def close_chan_def Ping_wait_def select2_def)
qed

section \<open>New streams\<close>

lemma incomingStream_accepts:
  assumes "localGoAway s \<noteq> 1" and "map_of (streams s) i = None"
    and "trySend (length (objs s)) (acceptCh s) = Some q"
  shows "incomingStream i s = (Ret None, (registered i streamSYNReceived s)\<lparr>acceptCh := q\<rparr>)"
  using assms by (simp add: incomingStream_def registered_def newStream_def Let_def)

lemma incomingStream_backlog_full:
  assumes "localGoAway s \<noteq> 1" and "map_of (streams s) i = None"
    and "trySend (length (objs s)) (acceptCh s) = None" and "sendable s"
  shows "\<exists>s'. incomingStream i s = (Ret None, s') \<and> map_of (streams s') i = None \<and>
    acceptCh s' = acceptCh s \<and>
    chbuf (sendCh s') = chbuf (sendCh s) @ [just_header (wire_header typeWindowUpdate flagRST i 0)]"
proof -
  let ?g = "closeStream i (registered i streamSYNReceived s)"
  let ?h = "wire_header typeWindowUpdate flagRST i 0"
  let ?u = "upd (length (objs s)) (\<lambda>x. x\<lparr>sendHdr := ?h\<rparr>) ?g"
  have g: "sendHdr (strm ?g (length (objs s))) = make_header"
    by (simp add: closeStream_def new_stream_def)
  have "sendable ?u"
    using assms(4) by (simp add: sendable_def closeStream_def registered_def newStream_def)
  moreover have "incomingStream i s = sendNoWait ?h ?u"
    using assms(1-3) g
    by (simp add: incomingStream_def registered_def newStream_def Let_def closeStream_def encode_wire strm_def)
  ultimately show ?thesis
    by (simp add: sendNoWait_sendable closeStream_def registered_def newStream_def)
qed

lemma incomingStream_duplicate:
  assumes "localGoAway s \<noteq> 1" and "map_of (streams s) i = Some p" and "sendable s"
  shows "\<exists>s'. incomingStream i s = (Ret (Some ErrDuplicateStream), s') \<and> streams s' = streams s \<and>
    localGoAway s' = 1 \<and>
    chbuf (sendCh s') = chbuf (sendCh s) @ [just_header (wire_header typeGoAway 0 0 goAwayProtoErr)]"
  using assms
  by (simp add: incomingStream_def newStream_def Let_def fail_with_def goAway_def sendable_def
      sendNoWait_room encode_wire just_header_def queued_def)

lemma incomingStream_after_goaway:
  assumes "localGoAway s = 1" and "sendable s"
  shows "incomingStream i s =
    (Ret None, queued (just_header (wire_header typeWindowUpdate flagRST i 0)) s)"
  using assms by (simp add: incomingStream_def sendNoWait_sendable encode_wire)

section \<open>Opening a stream\<close>

lemma quiet_registered:
  assumes "quiet s"
  shows "quiet (registered i st (s\<lparr>nextStreamID := k\<rparr>))"
  using assms session_ok_registered [OF evolves_ok [OF evolves_ghost(5) [OF quiet_ok [OF assms]]], of i st k]
  by (simp add: quiet_def) (simp add: registered_def newStream_def)

text \<open>The session after its next stream has been opened and announced.\<close>

definition opened :: "session \<Rightarrow> session" where
  "opened s =
     (let d = MaxStreamWindowSize (cfg s) - initialStreamWindow;
          h = wire_header typeWindowUpdate flagSYN (nextStreamID s) d
      in upd (length (objs s)) (\<lambda>x. x\<lparr>state := streamSYNSent, controlHdr := h, recvWindow := MaxStreamWindowSize (cfg s)\<rparr>)
           (emit h (registered (nextStreamID s) streamInit (s\<lparr>nextStreamID := nextStreamID s + 2\<rparr>))))"

lemma opened_sel:
  "length (objs (opened s)) = Suc (length (objs s))" "cfg (opened s) = cfg s" "nextStreamID (opened s) = nextStreamID s + 2"
  "streams (opened s) = AList.update (nextStreamID s) (length (objs s)) (streams s)"
  "strm (opened s) (length (objs s)) = (new_stream (nextStreamID s) streamSYNSent)
     \<lparr>controlHdr := wire_header typeWindowUpdate flagSYN (nextStreamID s) (MaxStreamWindowSize (cfg s) - initialStreamWindow),
      recvWindow := MaxStreamWindowSize (cfg s)\<rparr>"
  "conn_in (yconn (opened s)) = conn_in (yconn s)"
  "conn_out (yconn (opened s)) = conn_out (yconn s) @
     wire_header typeWindowUpdate flagSYN (nextStreamID s) (MaxStreamWindowSize (cfg s) - initialStreamWindow)"
proof -
  let ?t = "registered (nextStreamID s) streamInit (s\<lparr>nextStreamID := nextStreamID s + 2\<rparr>)"
  have t: "strm ?t (length (objs s)) = new_stream (nextStreamID s) streamInit" "length (objs ?t) = Suc (length (objs s))"
    "cfg ?t = cfg s" "nextStreamID ?t = nextStreamID s + 2" "yconn ?t = yconn s"
    "streams ?t = AList.update (nextStreamID s) (length (objs s)) (streams s)"
    using registered_sel(3) [of "nextStreamID s" streamInit "s\<lparr>nextStreamID := nextStreamID s + 2\<rparr>"]
    by simp_all (simp_all add: registered_def newStream_def)
  then show "length (objs (opened s)) = Suc (length (objs s))" "cfg (opened s) = cfg s" "nextStreamID (opened s) = nextStreamID s + 2"
    "streams (opened s) = AList.update (nextStreamID s) (length (objs s)) (streams s)"
    "strm (opened s) (length (objs s)) = (new_stream (nextStreamID s) streamSYNSent)
       \<lparr>controlHdr := wire_header typeWindowUpdate flagSYN (nextStreamID s) (MaxStreamWindowSize (cfg s) - initialStreamWindow),
        recvWindow := MaxStreamWindowSize (cfg s)\<rparr>"
    "conn_in (yconn (opened s)) = conn_in (yconn s)"
    "conn_out (yconn (opened s)) = conn_out (yconn s) @
       wire_header typeWindowUpdate flagSYN (nextStreamID s) (MaxStreamWindowSize (cfg s) - initialStreamWindow)"
    by (simp_all add: opened_def Let_def new_stream_def) (simp_all add: emit_def)
qed

lemma quiet_opened: "quiet s \<Longrightarrow> quiet (opened s)"
  unfolding opened_def Let_def
  by (rule quiet_upd [OF quiet_emit [OF quiet_registered]]) (auto simp: stream_ok_def)

lemma OpenStream_opened:
  assumes q: "quiet s" and r: "remoteGoAway s \<noteq> 1" and n: "nextStreamID s < 4294967294"
  shows "OpenStream s = (Ret (Some (length (objs s)), None), opened s)"
proof -
  let ?p = "length (objs s)"
  let ?t = "registered (nextStreamID s) streamInit (s\<lparr>nextStreamID := nextStreamID s + 2\<rparr>)"
  have t: "strm ?t ?p = new_stream (nextStreamID s) streamInit" "length (objs ?t) = Suc ?p" "cfg ?t = cfg s"
    using registered_sel(3) [of "nextStreamID s" streamInit "s\<lparr>nextStreamID := nextStreamID s + 2\<rparr>"]
    by simp_all (simp_all add: registered_def newStream_def)
  have fl: "flags_of streamInit = flagSYN" "flagSYN \<noteq> 0" "after_flags streamInit = streamSYNSent"
    by (simp_all add: flags_of_def after_flags_def flag_defs)
  have swu: "sendWindowUpdate ?p ?t = (Ret None, opened s)"
    using sendWindowUpdate_quiet [OF quiet_registered [OF q], of ?p] t fl
    by (simp add: new_stream_def make_chan_def opened_def Let_def)
  have "\<not> IsClosed s" using q by (auto simp: quiet_def session_ok_def shutdown_ok_def IsClosed_def)
  then show ?thesis
    using swu r n t by (simp add: OpenStream_eq new_stream_def)
qed

lemma OpenStream_quiet:
  assumes "quiet s" and "remoteGoAway s \<noteq> 1" and "nextStreamID s < 4294967294"
  shows "\<exists>s'. OpenStream s = (Ret (Some (length (objs s)), None), s') \<and>
    map_of (streams s') (nextStreamID s) = Some (length (objs s)) \<and>
    nextStreamID s' = nextStreamID s + 2 \<and>
    stream_id (strm s' (length (objs s))) = nextStreamID s \<and>
    state (strm s' (length (objs s))) = streamSYNSent \<and>
    recvWindow (strm s' (length (objs s))) = MaxStreamWindowSize (cfg s) \<and>
    conn_out (yconn s') = conn_out (yconn s) @
      wire_header typeWindowUpdate flagSYN (nextStreamID s) (MaxStreamWindowSize (cfg s) - initialStreamWindow)"
  using OpenStream_opened [OF assms] by (simp add: opened_sel update_conv new_stream_def)

text \<open>The peer that a SYN reaches, with room in its backlog.\<close>

lemma syn_frame_accepted:
  assumes q: "quiet s" and inp: "conn_in (yconn s) = []" and "localGoAway s \<noteq> 1" and "map_of (streams s) i = None"
    and "trySend (length (objs s)) (acceptCh s) = Some c"
  obtains s' where "recv_step (peer_sends (wire_header typeWindowUpdate flagSYN i d) s) = (Ret True, s')"
    "quiet s'" "length (objs s') = Suc (length (objs s))" "streams s' = AList.update i (length (objs s)) (streams s)"
    "strm s' (length (objs s)) = (new_stream i streamSYNReceived)\<lparr>sendWindow := initialStreamWindow + d,
       sendNotifyCh := asyncNotify (make_chan 1)\<rparr>"
    "conn_in (yconn s') = []" "cfg s' = cfg s" "acceptCh s' = c"
proof -
  let ?p = "length (objs s)" and ?h = "wire_header typeWindowUpdate flagSYN i d"
  let ?r = "(registered i streamSYNReceived s)\<lparr>acceptCh := c\<rparr>"
  let ?s = "upd ?p (\<lambda>x. x\<lparr>sendWindow := sendWindow x + d, sendNotifyCh := asyncNotify (sendNotifyCh x)\<rparr>) ?r"
  have z: "(peer_sends ?h s)\<lparr>yconn := (yconn (peer_sends ?h s))\<lparr>conn_in := []\<rparr>\<rparr> = s"
    using inp by (simp add: peer_sends_def)
  have fl: "has_flag flagSYN flagSYN" "\<not> has_flag flagSYN flagACK" "\<not> has_flag flagSYN flagFIN" "\<not> has_flag flagSYN flagRST"
    by (simp_all add: has_flag_def flag_defs)
  have inc: "incomingStream i s = (Ret None, ?r)" by (rule incomingStream_accepts [OF assms(3-5)])
  have "dispatch ?h s = (Ret None, ?s)"
    using inc fl by (simp add: dispatch_def decode_wire handleStreamMessage_def update_conv incrSendWindow_def processFlags_def)
  then have step: "recv_step (peer_sends ?h s) = (Ret True, ?s)"
  proof -
    have "conn_in (yconn (peer_sends ?h s)) = ?h @ []" using inp by (simp add: peer_sends_def)
    from recv_step_frame [OF this, unfolded z] \<open>dispatch ?h s = (Ret None, ?s)\<close> show ?thesis by simp
  qed
  have sel: "strm ?r ?p = new_stream i streamSYNReceived" "length (objs ?r) = Suc ?p"
    "cfg ?r = cfg s" "yconn ?r = yconn s" "streams ?r = AList.update i ?p (streams s)"
    "shutdown ?r = shutdown s" "sendCh ?r = sendCh s" "send_exited ?r = send_exited s"
    using registered_sel(3) [of i streamSYNReceived s] by (simp_all add: strm_def) (simp_all add: registered_def newStream_def)
  have "session_ok (peer_sends ?h s)"
    using q inp by (auto simp: quiet_def peer_sends_def session_ok_defs strm_def ready_ok_def ref_ok_def split: errref.splits option.splits)
  from evolves_ok [OF evolves_recv_step [OF this step]] have "session_ok ?s" .
  then have "quiet ?s" using q sel by (simp add: quiet_def)
  then show thesis by (rule that [OF step]) (use sel inp in \<open>simp_all add: new_stream_def\<close>)
qed

section \<open>Closing a session\<close>

lemma forceClose_state:
  "p < length (objs s) \<Longrightarrow> state (strm (forceClose q s) p) = (if q = p then streamClosed else state (strm s p))"
  by (simp add: forceClose_def notifyWaiting_def set_state_def)

lemma fold_forceClose_state:
  "p < length (objs s) \<Longrightarrow> state (strm (fold (\<lambda>(i, q). forceClose q) xs s) p) =
    (if p \<in> snd ` set xs then streamClosed else state (strm s p))"
proof (induction xs arbitrary: s)
  case (Cons x xs)
  obtain i q where x: "x = (i, q)" by (cases x)
  have "p < length (objs (forceClose q s))" using Cons.prems by simp
  from Cons.IH [OF this] Cons.prems show ?case
    by (auto simp: x forceClose_state)
qed simp

lemma exitErr_closes:
  assumes ok: "session_ok s" and opn: "\<not> shutdown s" and reg: "(i, p) \<in> set (streams s)"
  shows "state (strm (exitErr e s) p) = streamClosed"
proof -
  let ?s = "if shutdownErr s = None then s\<lparr>shutdownErr := Some e\<rparr> else s"
  have p: "p < length (objs s)" using ok reg by (auto simp: session_ok_defs)
  have st: "streams ?s = streams s" "\<not> shutdown ?s" using opn by simp_all
  have "p < length (objs (mark_closed ?s))" using p by (simp add: mark_closed_def)
  from fold_forceClose_state [OF this, of "streams s"] reg st show ?thesis
    by (auto simp: exitErr_def Session_Close_eq image_iff)
qed

lemma exitErr_sel:
  assumes "\<not> shutdown s"
  shows "shutdownErr (exitErr e s) = (case shutdownErr s of None \<Rightarrow> Some e | Some f \<Rightarrow> Some f)"
    "chclosed (shutdownCh (exitErr e s))" "conn_closed (yconn (exitErr e s))"
  using assms
  by (auto simp: exitErr_def Session_Close_eq mark_closed_def close_chan_def conn_Close_def split: option.split)

lemma exitErr_twice:
  assumes "\<not> shutdown s"
  shows "exitErr f (exitErr e s) = exitErr e s"
proof -
  obtain g where "shutdownErr (exitErr e s) = Some g"
    using exitErr_sel(1) [OF assms, of e] by (cases "shutdownErr s") simp_all
  then show ?thesis by (simp add: exitErr_def [of f]) (simp add: Session_Close_eq [of "exitErr e s"])
qed

section \<open>Properties\<close>

text \<open>
  End to end, from the writer's call to the reader's buffer: a write that fits the window
  is put on the connection as one frame, and the peer's receive loop, given exactly these
  bytes, appends exactly the written data to its stream; both windows shrink by its length.
\<close>

theorem write_reaches_peer:
  assumes "quiet w" and "p < length (objs w)" and "chbuf (sendErr (strm w p)) = []"
    and "writable (state (strm w p))" and "state (strm w p) \<noteq> streamInit"
    and "b \<noteq> []" and "length b \<le> unat (sendWindow (strm w p))"
    and "conn_in (yconn r) = []" and "map_of (streams r) (stream_id (strm w p)) = Some k"
    and "k < length (objs r)" and "sendWindow (strm w p) \<le> recvWindow (strm r k)"
  shows "\<exists>w' out r'. Write p b w = Some (Ret (length b, None), w') \<and>
     conn_out (yconn w') = conn_out (yconn w) @ out \<and>
     recv_step (peer_sends out r) = (Ret True, r') \<and>
     recvBuf (strm r' k) = recvBuf (strm r k) @ b \<and> conn_in (yconn r') = [] \<and>
     sendWindow (strm w' p) = sendWindow (strm w p) - of_nat (length b) \<and>
     recvWindow (strm r' k) = recvWindow (strm r k) - of_nat (length b)"
  using write_transfer [OF assms] by metis

theorem write_reaches_peer_witness:
  "\<exists>w' out r'. Write 0 [7, 8, 9] (demo_session True) = Some (Ret (3, None), w') \<and>
     conn_out (yconn w') = out \<and> recv_step (peer_sends out (demo_session False)) = (Ret True, r') \<and>
     recvBuf (strm r' 0) = [7, 8, 9] \<and> sendWindow (strm w' 0) = 262141"
proof -
  have c: "chbuf (sendErr (new_stream 1 streamEstablished)) = []" "state (new_stream 1 streamEstablished) = streamEstablished"
    "sendWindow (new_stream 1 streamEstablished) = 262144" "recvWindow (new_stream 1 streamEstablished) = 262144"
    "stream_id (new_stream 1 streamEstablished) = 1" "recvBuf (new_stream 1 streamEstablished) = []"
    by (simp_all add: new_stream_def make_chan_def initialStreamWindow_def)
  from write_reaches_peer [OF demo_session_quiet [of True], of 0 "[7, 8, 9]" "demo_session False" 0] c
  show ?thesis by (auto simp: writable_def demo_conn_def numeral_3_eq_3)
qed



text \<open>
  Opening a stream registers a new stream under the next id of the session's parity,
  advances the id by 2 without wrapping, raises the receive window to the configured maximum
  and announces the stream with one SYN frame carrying the increment.
\<close>

theorem OpenStream_announces:
  assumes "quiet s" and "remoteGoAway s \<noteq> 1" and "nextStreamID s < 4294967294"
  shows "\<exists>s'. OpenStream s = (Ret (Some (length (objs s)), None), s') \<and>
    map_of (streams s') (nextStreamID s) = Some (length (objs s)) \<and>
    unat (nextStreamID s') = unat (nextStreamID s) + 2 \<and>
    stream_id (strm s' (length (objs s))) = nextStreamID s \<and>
    state (strm s' (length (objs s))) = streamSYNSent \<and>
    recvWindow (strm s' (length (objs s))) = MaxStreamWindowSize (cfg s) \<and>
    conn_out (yconn s') = conn_out (yconn s) @
      wire_header typeWindowUpdate flagSYN (nextStreamID s) (MaxStreamWindowSize (cfg s) - initialStreamWindow)"
proof -
  have "unat (nextStreamID s + 2) = unat (nextStreamID s) + 2"
    using assms(3) by (simp add: word_less_nat_alt unat_word_ariths)
  with OpenStream_quiet [OF assms] show ?thesis by fastforce
qed

theorem OpenStream_announces_witness:
  "\<exists>s'. OpenStream (demo_session False) = (Ret (Some 1, None), s') \<and> unat (nextStreamID s') = 4 \<and>
    conn_out (yconn s') = [0, 1, 0, 1, 0, 0, 0, 2, 0, 0, 0, 0]"
proof -
  have s: "remoteGoAway (demo_session False) \<noteq> 1" "nextStreamID (demo_session False) = 2"
    "cfg (demo_session False) = DefaultConfig"
    by (simp_all add: demo_session_def newSession_def)
  have "wire_header typeWindowUpdate flagSYN 2 0 = [0, 1, 0, 1, 0, 0, 0, 2, 0, 0, 0, 0]"
    by (simp add: wire_header_def typeWindowUpdate_def flagSYN_def protoVersion_def drop_bit_eq_div)
  with OpenStream_announces [OF demo_session_quiet s(1)] s show ?thesis
    by (auto simp: DefaultConfig_def demo_conn_def word_less_nat_alt)
qed

text \<open>
  C20: The first error wins and ends everything: \<open>exitErr\<close> on an open session records its
  error only if none was recorded, closes the shutdown channel and the connection and every
  registered stream, and a later \<open>exitErr\<close> or Close changes nothing.
\<close>

theorem exitErr_ends_session:
  assumes "session_ok s" and "\<not> shutdown s"
  shows "shutdown (exitErr e s) \<and> chclosed (shutdownCh (exitErr e s)) \<and> conn_closed (yconn (exitErr e s)) \<and>
    shutdownErr (exitErr e s) = (case shutdownErr s of None \<Rightarrow> Some e | Some f \<Rightarrow> Some f) \<and>
    (\<forall>(i, p) \<in> set (streams s). state (strm (exitErr e s) p) = streamClosed) \<and>
    exitErr f (exitErr e s) = exitErr e s"
  using exitErr_sel [OF assms(2)] exitErr_twice [OF assms(2)] exitErr_closes [OF assms] by auto

theorem exitErr_ends_session_witness:
  "shutdownErr (exitErr ErrTimeout (exitErr EOF (demo_session True))) = Some EOF \<and>
   state (strm (exitErr EOF (demo_session True)) 0) = streamClosed"
proof -
  have "\<not> shutdown (demo_session True)" "shutdownErr (demo_session True) = None"
    by (simp_all add: demo_session_def newSession_def)
  with exitErr_ends_session [OF demo_session_ok, of True EOF ErrTimeout] show ?thesis by simp
qed

text \<open>
  A SYN for an id that is in use ends with ErrDuplicateStream and a go-away frame; one
  that finds the accept backlog full is answered by a reset and leaves no trace in the map or
  the backlog; after a local go-away every SYN is answered by a reset.
\<close>

theorem incoming_stream_refusals:
  assumes "sendable s"
  shows "(localGoAway s \<noteq> 1 \<and> map_of (streams s) i \<noteq> None \<longrightarrow>
      (\<exists>s'. incomingStream i s = (Ret (Some ErrDuplicateStream), s') \<and> streams s' = streams s \<and>
        localGoAway s' = 1 \<and>
        chbuf (sendCh s') = chbuf (sendCh s) @ [just_header (wire_header typeGoAway 0 0 goAwayProtoErr)])) \<and>
    (localGoAway s \<noteq> 1 \<and> map_of (streams s) i = None \<and> trySend (length (objs s)) (acceptCh s) = None \<longrightarrow>
      (\<exists>s'. incomingStream i s = (Ret None, s') \<and> map_of (streams s') i = None \<and>
        acceptCh s' = acceptCh s \<and>
        chbuf (sendCh s') = chbuf (sendCh s) @ [just_header (wire_header typeWindowUpdate flagRST i 0)])) \<and>
    (localGoAway s = 1 \<longrightarrow> incomingStream i s =
      (Ret None, queued (just_header (wire_header typeWindowUpdate flagRST i 0)) s))"
  using incomingStream_duplicate [OF _ _ assms] incomingStream_backlog_full [OF _ _ _ assms]
    incomingStream_after_goaway [OF _ assms]
  by auto

theorem incoming_stream_refusals_witness:
  "\<exists>s'. incomingStream 1 (demo_session True) = (Ret (Some ErrDuplicateStream), s') \<and> localGoAway s' = 1"
proof -
  have "sendable (demo_session True)" "localGoAway (demo_session True) \<noteq> 1"
    by (simp_all add: sendable_def demo_session_def newSession_def make_chan_def)
  with incoming_stream_refusals [of "demo_session True" 1] show ?thesis by auto
qed

text \<open>
  A ping request is answered by queueing an ACK with the same id, and the answer to an
  own ping wakes the caller that waits for it and forgets the ping.
\<close>

theorem ping_round_trip:
  assumes "session_ok s"
  shows "(has_flag f flagSYN \<and> sendable s \<longrightarrow> handlePing (wire_header typePing f 0 n) s =
      (Ret None, queued (just_header (wire_header typePing flagACK 0 n)) s)) \<and>
    (\<not> has_flag f flagSYN \<longrightarrow> map_of (pings s) n = Some c \<longrightarrow>
      (\<exists>s'. handlePing (wire_header typePing f 0 n) s = (Ret None, s') \<and>
        map_of (pings s') n = None \<and> (\<exists>t. Ping_wait c (s'\<lparr>coins := []\<rparr>) = (Ret None, t))))"
  using handlePing_request [of f s n] handlePing_answer [OF assms, of f n c] by blast

theorem ping_round_trip_witness:
  "\<exists>s' t. handlePing (wire_header typePing flagACK 0 0) (snd (snd (Ping_begin (demo_session True)))) = (Ret None, s') \<and>
     Ping_wait 0 (s'\<lparr>coins := []\<rparr>) = (Ret None, t)"
proof -
  let ?s = "snd (snd (Ping_begin (demo_session True)))"
  have "Ping_begin (demo_session True) = (0, encode typePing flagSYN 0 0 make_header, ?s)"
    by (simp add: Ping_begin_def Let_def demo_session_def newSession_def)
  then have ok: "session_ok ?s"
    using evolves_Ping_begin [OF demo_session_ok] evolves_ok by blast
  have "map_of (pings ?s) 0 = Some 0"
    by (simp add: Ping_begin_def Let_def demo_session_def newSession_def)
  moreover have "\<not> has_flag flagACK flagSYN" by (simp add: has_flag_def flag_defs)
  ultimately show ?thesis using ping_round_trip [OF ok, of flagACK 0 0] by blast
qed

text \<open>
  C40: \<open>uint32(len(b))\<close> truncates: on a healthy stream a write whose length is a positive
  multiple of \<open>2 ^ 32\<close> never returns; it sends empty frames for ever.
\<close>

theorem Write_multiple_of_4GiB_diverges:
  assumes "quiet s" and "p < length (objs s)" and "chbuf (sendErr (strm s p)) = []"
    and "writable (state (strm s p))" and "sendWindow (strm s p) \<noteq> 0"
    and "b \<noteq> []" and "length b mod 2 ^ 32 = 0"
  shows "Write p b s = None"
proof (cases "Write p b s")
  case (Some rs)
  then show ?thesis using Write_loop_stuck [of p b 0 s rs] assms by (auto simp: Write_def stuck_def)
qed

theorem Write_multiple_of_4GiB_diverges_witness:
  "Write 0 (replicate (2 ^ 32) 0) (demo_session True) = None"
  by (rule Write_multiple_of_4GiB_diverges [OF demo_session_quiet])
    (simp_all add: new_stream_def make_chan_def writable_def initialStreamWindow_def)

end
