(* ===== verification/Ws_Io.thy ===== *)
theory Ws_Io
  imports Prelude
begin

text \<open>
  The io interfaces the websocket and goproxy code reads and writes through: a buffered
  reader (bufio.Reader) whose reads return as many bytes as the environment decides, a
  buffered writer (bufio.Writer) with its sticky error, io.ReadFull and ioutil.ReadAll over
  any reader, and the contract of an io.Reader as the locale \<open>byte_source\<close>.
\<close>

section \<open>Errors and results\<close>

datatype werror = io_EOF | io_ErrUnexpectedEOF | ProtocolError string | OtherError string

datatype 'a rres = RVal 'a | RErr werror | RBlock

section \<open>bufio.Reader\<close>

text \<open>
  \<open>rd_in\<close> are the bytes still to come, \<open>rd_end\<close> the error after them (None while more may
  come), \<open>rd_sizes\<close> the sizes of the next reads (all that fits when none is left).
\<close>

record rbuf =
  rd_in :: bytes
  rd_end :: "werror option"
  rd_sizes :: "nat list"

definition rd_fail :: "rbuf \<Rightarrow> 'a rres" where
  "rd_fail r = (case rd_end r of None \<Rightarrow> RBlock | Some e \<Rightarrow> RErr e)"

definition ReadByte :: "rbuf \<Rightarrow> byte rres \<times> rbuf" where
  "ReadByte r = (case rd_in r of [] \<Rightarrow> (rd_fail r, r) | b # bs \<Rightarrow> (RVal b, r\<lparr>rd_in := bs\<rparr>))"

definition rd_size :: "nat \<Rightarrow> rbuf \<Rightarrow> nat" where
  "rd_size n r = (case rd_sizes r of
      [] \<Rightarrow> min n (length (rd_in r))
    | m # ms \<Rightarrow> max 1 (min m (min n (length (rd_in r)))))"

definition rd_Read :: "nat \<Rightarrow> rbuf \<Rightarrow> bytes rres \<times> rbuf" where
  "rd_Read n r =
     (if n = 0 then (RVal [], r)
      else if rd_in r = [] then (rd_fail r, r)
      else (RVal (take (rd_size n r) (rd_in r)),
            r\<lparr>rd_in := drop (rd_size n r) (rd_in r), rd_sizes := tl (rd_sizes r)\<rparr>))"

section \<open>io.LimitReader\<close>

definition limit_Read :: "nat \<Rightarrow> int \<Rightarrow> rbuf \<Rightarrow> bytes rres \<times> int \<times> rbuf" where
  "limit_Read n lim r =
     (if lim \<le> 0 then (RErr io_EOF, lim, r)
      else case rd_Read (min n (nat lim)) r of
        (RVal b, r) \<Rightarrow> (RVal b, lim - int (length b), r)
      | (RErr e, r) \<Rightarrow> (RErr e, lim, r)
      | (RBlock, r) \<Rightarrow> (RBlock, lim, r))"

section \<open>bufio.Writer\<close>

text \<open>
  \<open>bw_room\<close> is the environment's answer: None is a connection that takes everything, Some
  (n, e) one that takes n more bytes and then fails with e. The first error sticks.
\<close>

record bwriter =
  bw_buf :: bytes
  bw_out :: bytes
  bw_err :: "werror option"
  bw_room :: "(nat \<times> werror) option"

definition bw_Write :: "bytes \<Rightarrow> bwriter \<Rightarrow> bwriter" where
  "bw_Write b w = (if bw_err w = None then w\<lparr>bw_buf := bw_buf w @ b\<rparr> else w)"

definition bw_Flush :: "bwriter \<Rightarrow> werror option \<times> bwriter" where
  "bw_Flush w =
     (case bw_err w of
        Some e \<Rightarrow> (Some e, w)
      | None \<Rightarrow>
          (case bw_room w of
             None \<Rightarrow> (None, w\<lparr>bw_out := bw_out w @ bw_buf w, bw_buf := []\<rparr>)
           | Some (n, e) \<Rightarrow>
               if length (bw_buf w) \<le> n
               then (None, w\<lparr>bw_out := bw_out w @ bw_buf w, bw_buf := [],
                       bw_room := Some (n - length (bw_buf w), e)\<rparr>)
               else (Some e, w\<lparr>bw_out := bw_out w @ take n (bw_buf w), bw_buf := drop n (bw_buf w),
                       bw_err := Some e, bw_room := Some (0, e)\<rparr>)))"

section \<open>Reading in full\<close>

text \<open>
  io.ReadFull into n bytes: \<open>ErrUnexpectedEOF\<close> after a partial read, the reader's own error
  when nothing was read. The bytes read come with the error. Every turn of the loop reads at
  least one byte, so n turns are enough.
\<close>

fun ReadFull :: "(nat \<Rightarrow> 's \<Rightarrow> bytes rres \<times> 's) \<Rightarrow> nat \<Rightarrow> nat \<Rightarrow> bytes \<Rightarrow> 's
    \<Rightarrow> (bytes \<times> werror option) rres \<times> 's" where
  "ReadFull rd k n acc s =
     (if n = 0 then (RVal (acc, None), s)
      else case k of 0 \<Rightarrow> (RBlock, s) | Suc k \<Rightarrow>
        (case rd n s of
           (RVal b, s) \<Rightarrow> ReadFull rd k (n - length b) (acc @ b) s
         | (RErr e, s) \<Rightarrow> (RVal (acc, Some (if acc \<noteq> [] \<and> e = io_EOF then io_ErrUnexpectedEOF else e)), s)
         | (RBlock, s) \<Rightarrow> (RBlock, s)))"

declare ReadFull.simps [simp del]

text \<open>
  ioutil.ReadAll and io.Copy to a discarding writer: read up to the end, which is no error.
  The size of one read is the buffer's.
\<close>

fun ReadAll :: "(nat \<Rightarrow> 's \<Rightarrow> bytes rres \<times> 's) \<Rightarrow> nat \<Rightarrow> nat \<Rightarrow> bytes \<Rightarrow> 's
    \<Rightarrow> (bytes \<times> werror option) rres \<times> 's" where
  "ReadAll rd k sz acc s =
     (case k of 0 \<Rightarrow> (RBlock, s) | Suc k \<Rightarrow>
        (case rd sz s of
           (RVal b, s) \<Rightarrow> ReadAll rd k sz (acc @ b) s
         | (RErr e, s) \<Rightarrow> (RVal (acc, if e = io_EOF then None else Some e), s)
         | (RBlock, s) \<Rightarrow> (RBlock, s)))"

declare ReadAll.simps [simp del]

text \<open>What every read preserves, reading in full preserves.\<close>

lemma ReadFull_preserves:
  assumes "\<And>n s x s'. P s \<Longrightarrow> rd n s = (x, s') \<Longrightarrow> P s'"
  shows "P s \<Longrightarrow> ReadFull rd k n acc s = (r, s') \<Longrightarrow> P s'"
proof (induction k arbitrary: n acc s)
  case (Suc k)
  obtain x t where x: "rd n s = (x, t)" by fastforce
  have "P t" using Suc.prems(1) x by (rule assms)
  with Suc x show ?case by (subst (asm) (2) ReadFull.simps) (auto split: if_splits rres.splits)
qed (subst (asm) ReadFull.simps, auto split: if_splits)

lemma ReadAll_preserves:
  assumes "\<And>n s x s'. P s \<Longrightarrow> rd n s = (x, s') \<Longrightarrow> P s'"
  shows "P s \<Longrightarrow> ReadAll rd k sz acc s = (r, s') \<Longrightarrow> P s'"
proof (induction k arbitrary: acc s)
  case (Suc k)
  obtain x t where x: "rd sz s = (x, t)" by fastforce
  have "P t" using Suc.prems(1) x by (rule assms)
  with Suc x show ?case by (subst (asm) (2) ReadAll.simps) (auto split: rres.splits)
qed (subst (asm) ReadAll.simps, auto)

lemma ReadAll_end:
  assumes "\<And>n s x s'. P s \<Longrightarrow> rd n s = (x, s') \<Longrightarrow> P s'"
  shows "P s \<Longrightarrow> ReadAll rd k sz acc s = (RVal (b, None), s') \<Longrightarrow> \<exists>t. P t \<and> rd sz t = (RErr io_EOF, s')"
proof (induction k arbitrary: acc s)
  case (Suc k)
  obtain x t where x: "rd sz s = (x, t)" by fastforce
  have "P t" using Suc.prems(1) x by (rule assms)
  with Suc x show ?case by (subst (asm) (2) ReadAll.simps) (auto split: rres.splits if_splits)
qed (subst (asm) ReadAll.simps, auto)

section \<open>The contract of a reader\<close>

text \<open>
  \<open>rest s\<close> are the bytes the reader will still deliver before its end, \<open>good s\<close> says that
  they are all there. A read delivers a prefix of them, at least one byte if there is one and
  it was asked for, and io.EOF after the last.
\<close>

locale byte_source =
  fixes read :: "nat \<Rightarrow> 's \<Rightarrow> bytes rres \<times> 's"
    and rest :: "'s \<Rightarrow> bytes"
    and good :: "'s \<Rightarrow> bool"
  assumes read_val: "good s \<Longrightarrow> read n s = (RVal b, s') \<Longrightarrow>
      good s' \<and> rest s = b @ rest s' \<and> length b \<le> n"
    and read_end: "good s \<Longrightarrow> 0 < n \<Longrightarrow> rest s = [] \<Longrightarrow> \<exists>s'. read n s = (RErr io_EOF, s')"
    and read_some: "good s \<Longrightarrow> 0 < n \<Longrightarrow> rest s \<noteq> [] \<Longrightarrow> \<exists>b s'. read n s = (RVal b, s') \<and> b \<noteq> []"
begin

lemma read_step:
  assumes "good s" and "0 < n" and "rest s \<noteq> []"
  obtains b s' where "read n s = (RVal b, s')" "b \<noteq> []" "good s'" "rest s = b @ rest s'" "length b \<le> n"
proof -
  obtain b s' where "read n s = (RVal b, s')" "b \<noteq> []" using read_some [OF assms] by blast
  with read_val [OF assms(1) this(1)] show thesis using that by blast
qed

lemma ReadFull_enough:
  "good s \<Longrightarrow> n \<le> length (rest s) \<Longrightarrow> n \<le> k \<Longrightarrow>
    \<exists>s'. ReadFull read k n acc s = (RVal (acc @ take n (rest s), None), s') \<and>
      good s' \<and> rest s' = drop n (rest s)"
proof (induction k arbitrary: n acc s)
  case 0
  then show ?case by (subst ReadFull.simps) simp
next
  case (Suc k)
  show ?case
  proof (cases "n = 0")
    case True
    with Suc.prems show ?thesis by (subst ReadFull.simps) simp
  next
    case False
    then have "rest s \<noteq> []" using Suc.prems by auto
    then obtain b s1 where b: "read n s = (RVal b, s1)" "b \<noteq> []" "good s1" "rest s = b @ rest s1" "length b \<le> n"
      using Suc.prems False read_step [of s n] by auto
    have "\<exists>s'. ReadFull read k (n - length b) (acc @ b) s1 =
        (RVal ((acc @ b) @ take (n - length b) (rest s1), None), s') \<and>
        good s' \<and> rest s' = drop (n - length b) (rest s1)"
    proof (rule Suc.IH [OF b(3)])
      show "n - length b \<le> length (rest s1)" using Suc.prems b(4,5) by simp
      show "n - length b \<le> k" using b(2) Suc.prems(3) by (cases b) auto
    qed
    with False b show ?thesis by (subst ReadFull.simps) simp
  qed
qed

lemma ReadFull_short:
  "good s \<Longrightarrow> length (rest s) < n \<Longrightarrow> length (rest s) < k \<Longrightarrow>
    \<exists>s'. ReadFull read k n acc s = (RVal (acc @ rest s,
        Some (if acc @ rest s = [] then io_EOF else io_ErrUnexpectedEOF)), s')"
proof (induction k arbitrary: n acc s)
  case (Suc k)
  show ?case
  proof (cases "rest s = []")
    case True
    with Suc.prems obtain s' where "read n s = (RErr io_EOF, s')"
      using read_end [of s n] by auto
    with True Suc.prems show ?thesis by (subst ReadFull.simps) simp
  next
    case False
    moreover have "0 < n" using Suc.prems by auto
    ultimately obtain b s1 where b: "read n s = (RVal b, s1)" "b \<noteq> []" "good s1" "rest s = b @ rest s1"
      using read_step [OF Suc.prems(1)] by blast
    have "\<exists>s'. ReadFull read k (n - length b) (acc @ b) s1 = (RVal ((acc @ b) @ rest s1,
        Some (if (acc @ b) @ rest s1 = [] then io_EOF else io_ErrUnexpectedEOF)), s')"
    proof (rule Suc.IH [OF b(3)])
      show "length (rest s1) < n - length b" using Suc.prems b(4) by simp
      show "length (rest s1) < k" using b(2,4) Suc.prems(3) by (cases b) auto
    qed
    with b Suc.prems show ?thesis by (subst ReadFull.simps) auto
  qed
qed simp

lemma ReadAll_rest:
  "good s \<Longrightarrow> 0 < sz \<Longrightarrow> length (rest s) < k \<Longrightarrow>
    \<exists>s'. ReadAll read k sz acc s = (RVal (acc @ rest s, None), s')"
proof (induction k arbitrary: acc s)
  case (Suc k)
  show ?case
  proof (cases "rest s = []")
    case True
    with Suc.prems obtain s' where "read sz s = (RErr io_EOF, s')"
      using read_end [of s sz] by auto
    with True show ?thesis by (subst ReadAll.simps) simp
  next
    case False
    then obtain b s1 where b: "read sz s = (RVal b, s1)" "b \<noteq> []" "good s1" "rest s = b @ rest s1"
      using read_step [OF Suc.prems(1,2)] by blast
    have "length (rest s1) < k" using b(2,4) Suc.prems(3) by (cases b) auto
    from Suc.IH [OF b(3) Suc.prems(2) this, of "acc @ b"] b show ?thesis by (subst ReadAll.simps) simp
  qed
qed simp

end

section \<open>The buffered reader keeps the contract\<close>

definition rd_complete :: "rbuf \<Rightarrow> bool" where
  "rd_complete r \<longleftrightarrow> rd_end r = Some io_EOF"

lemma rd_size_bounds:
  "rd_in r \<noteq> [] \<Longrightarrow> 0 < n \<Longrightarrow> 0 < rd_size n r \<and> rd_size n r \<le> n \<and> rd_size n r \<le> length (rd_in r)"
  by (auto simp: rd_size_def Suc_le_eq split: list.split)

lemma rd_Read_val:
  "rd_Read n r = (RVal b, r') \<Longrightarrow> rd_in r = b @ rd_in r' \<and> length b \<le> n \<and> rd_end r' = rd_end r"
  using rd_size_bounds [of r n] by (auto simp: rd_Read_def rd_fail_def split: if_splits option.splits)

lemma rd_Read_some:
  "rd_in r \<noteq> [] \<Longrightarrow> 0 < n \<Longrightarrow> \<exists>b r'. rd_Read n r = (RVal b, r') \<and> b \<noteq> []"
  using rd_size_bounds [of r n] by (auto simp: rd_Read_def)

interpretation bufio: byte_source rd_Read rd_in rd_complete
proof unfold_locales
  fix s s' :: rbuf and n b
  assume "rd_complete s" and "rd_Read n s = (RVal b, s')"
  then show "rd_complete s' \<and> rd_in s = b @ rd_in s' \<and> length b \<le> n"
    using rd_Read_val [of n s b s'] by (simp add: rd_complete_def)
next
  fix s :: rbuf and n :: nat
  assume "rd_complete s" and "0 < n" and "rd_in s = []"
  then show "\<exists>s'. rd_Read n s = (RErr io_EOF, s')"
    by (simp add: rd_Read_def rd_fail_def rd_complete_def)
next
  fix s :: rbuf and n :: nat
  assume "rd_complete s" and "0 < n" and "rd_in s \<noteq> []"
  then show "\<exists>b s'. rd_Read n s = (RVal b, s') \<and> b \<noteq> []" using rd_Read_some by blast
qed

end
