(* ===== verification/Ws_Frame.thy ===== *)
theory Ws_Frame
  imports Ws_Io
begin

text \<open>
  websocket/hybi.go, frames: the frame header, NewFrameReader, the reader of a payload and
  the frame writer. A frame that was written is read back with the same header and payload,
  whatever sizes the single reads have, and the reader of a payload keeps the contract of an
  io.Reader.
\<close>

section \<open>Headers\<close>

record hybiFrameHeader =
  Fin :: bool
  Rsv :: "bool \<times> bool \<times> bool"
  OpCode :: byte
  FrLength :: i64
  MaskingKey :: "bytes option"
  hdr_data :: bytes

record hybiFrameReader =
  fr_header :: hybiFrameHeader
  fr_limit :: int
  fr_pos :: nat
  fr_length :: int

definition ContinuationFrame :: byte where "ContinuationFrame = 0"
definition TextFrame :: byte where "TextFrame = 1"
definition BinaryFrame :: byte where "BinaryFrame = 2"
definition CloseFrame :: byte where "CloseFrame = 8"
definition PingFrame :: byte where "PingFrame = 9"
definition PongFrame :: byte where "PongFrame = 10"
definition UnknownFrame :: byte where "UnknownFrame = 255"

lemmas frame_type_defs = ContinuationFrame_def TextFrame_def BinaryFrame_def CloseFrame_def
  PingFrame_def PongFrame_def UnknownFrame_def

definition ErrBadMaskingKey :: werror where "ErrBadMaskingKey = ProtocolError ''bad masking key''"
definition ErrNotImplemented :: werror where "ErrNotImplemented = ProtocolError ''not implemented''"

section \<open>Reading a header\<close>

fun ReadBytes :: "nat \<Rightarrow> rbuf \<Rightarrow> bytes rres \<times> rbuf" where
  "ReadBytes 0 r = (RVal [], r)"
| "ReadBytes (Suc k) r =
     (case ReadByte r of
        (RVal b, r) \<Rightarrow>
          (case ReadBytes k r of
             (RVal bs, r) \<Rightarrow> (RVal (b # bs), r)
           | (RErr e, r) \<Rightarrow> (RErr e, r)
           | (RBlock, r) \<Rightarrow> (RBlock, r))
      | (RErr e, r) \<Rightarrow> (RErr e, r)
      | (RBlock, r) \<Rightarrow> (RBlock, r))"

definition rbind :: "'a rres \<times> rbuf \<Rightarrow> ('a \<Rightarrow> rbuf \<Rightarrow> 'b rres \<times> rbuf) \<Rightarrow> 'b rres \<times> rbuf" where
  "rbind x f = (case x of (RVal a, r) \<Rightarrow> f a r | (RErr e, r) \<Rightarrow> (RErr e, r) | (RBlock, r) \<Rightarrow> (RBlock, r))"

definition lengthFields :: "byte \<Rightarrow> nat" where
  "lengthFields b = (if b \<le> 125 then 0 else if b = 126 then 2 else 8)"

definition join_length :: "bytes \<Rightarrow> i64" where
  "join_length ls = foldl (\<lambda>acc b. acc * 256 + ucast b) 0 ls"

definition make_frame :: "byte \<Rightarrow> byte \<Rightarrow> bytes \<Rightarrow> bytes \<Rightarrow> hybiFrameReader" where
  "make_frame b0 b1 ls key =
     (let b = b1 AND 0x7f;
          len = (if b \<le> 125 then ucast b else join_length ls);
          header = [b0, b1] @ ls @ key
      in \<lparr>fr_header = \<lparr>Fin = drop_bit 7 b0 AND 1 \<noteq> 0,
            Rsv = (drop_bit 6 b0 AND 1 \<noteq> 0, drop_bit 5 b0 AND 1 \<noteq> 0, drop_bit 4 b0 AND 1 \<noteq> 0),
            OpCode = b0 AND 0x0f, FrLength = len,
            MaskingKey = (if b1 AND 0x80 \<noteq> 0 then Some key else None), hdr_data = header\<rparr>,
          fr_limit = sint len, fr_pos = 0, fr_length = int (length header) + sint len\<rparr>)"

text \<open>
  An error leaves the bytes of the header consumed. A read that has to wait is retried from
  its start when more input has come.
\<close>

definition NewFrameReader :: "rbuf \<Rightarrow> hybiFrameReader rres \<times> rbuf" where
  "NewFrameReader r0 =
     (case rbind (ReadByte r0) (\<lambda>b0 r.
           rbind (ReadByte r) (\<lambda>b1 r.
           rbind (ReadBytes (lengthFields (b1 AND 0x7f)) r) (\<lambda>ls r.
           rbind (ReadBytes (if b1 AND 0x80 \<noteq> 0 then 4 else 0) r) (\<lambda>key r.
           (RVal (make_frame b0 b1 ls key), r))))) of
        (RBlock, r) \<Rightarrow> (RBlock, r0)
      | res \<Rightarrow> res)"

section \<open>Reading a payload\<close>

fun mask_bytes :: "bytes \<Rightarrow> nat \<Rightarrow> bytes \<Rightarrow> bytes" where
  "mask_bytes key pos [] = []"
| "mask_bytes key pos (b # bs) = (b XOR key ! (pos mod 4)) # mask_bytes key (Suc pos) bs"

definition unmask :: "bytes option \<Rightarrow> nat \<Rightarrow> bytes \<Rightarrow> bytes" where
  "unmask key pos bs = (case key of None \<Rightarrow> bs | Some k \<Rightarrow> mask_bytes k pos bs)"

definition frame_Read :: "nat \<Rightarrow> hybiFrameReader \<times> rbuf \<Rightarrow> bytes rres \<times> hybiFrameReader \<times> rbuf" where
  "frame_Read n fs =
     (case fs of (fr, r) \<Rightarrow>
        case limit_Read n (fr_limit fr) r of
          (RVal b, lim, r) \<Rightarrow>
            (case MaskingKey (fr_header fr) of
               None \<Rightarrow> (RVal b, fr\<lparr>fr_limit := lim\<rparr>, r)
             | Some key \<Rightarrow> (RVal (mask_bytes key (fr_pos fr) b),
                 fr\<lparr>fr_limit := lim, fr_pos := fr_pos fr + length b\<rparr>, r))
        | (RErr e, lim, r) \<Rightarrow> (RErr e, fr\<lparr>fr_limit := lim\<rparr>, r)
        | (RBlock, lim, r) \<Rightarrow> (RBlock, fr\<lparr>fr_limit := lim\<rparr>, r))"

definition PayloadType :: "hybiFrameReader \<Rightarrow> byte" where
  "PayloadType fr = OpCode (fr_header fr)"

definition HeaderReader :: "hybiFrameReader \<Rightarrow> bytes option" where
  "HeaderReader fr = (if hdr_data (fr_header fr) = [] then None else Some (hdr_data (fr_header fr)))"

definition frame_Len :: "hybiFrameReader \<Rightarrow> int" where
  "frame_Len fr = fr_length fr"

section \<open>Writing a frame\<close>

definition first_byte :: "hybiFrameHeader \<Rightarrow> byte" where
  "first_byte h =
     (let b = (if Fin h then 0x80 else 0);
          (r1, r2, r3) = Rsv h;
          b = (if r1 then b OR push_bit 6 1 else b);
          b = (if r2 then b OR push_bit 5 1 else b);
          b = (if r3 then b OR push_bit 4 1 else b)
      in b OR OpCode h)"

definition length_bytes :: "nat \<Rightarrow> nat \<Rightarrow> bytes" where
  "length_bytes k len = map (\<lambda>i. of_nat (len div 2 ^ ((k - i - 1) * 8))) [0..<k]"

definition length_header :: "byte \<Rightarrow> nat \<Rightarrow> bytes" where
  "length_header b len =
     (if len \<le> 125 then [b OR of_nat len]
      else if len < 65536 then (b OR 126) # length_bytes 2 len
      else (b OR 127) # length_bytes 8 len)"

definition frame_bytes :: "hybiFrameHeader \<Rightarrow> bytes \<Rightarrow> werror + bytes" where
  "frame_bytes h msg =
     (let header = first_byte h #
            length_header (if MaskingKey h \<noteq> None then 0x80 else 0) (length msg)
      in case MaskingKey h of
           None \<Rightarrow> Inr (header @ msg)
         | Some key \<Rightarrow>
             if length key \<noteq> 4 then Inl ErrBadMaskingKey
             else Inr (header @ key @ mask_bytes key 0 msg))"

definition frame_Write :: "hybiFrameHeader \<Rightarrow> bytes \<Rightarrow> bwriter \<Rightarrow> (nat \<times> werror option) \<times> bwriter" where
  "frame_Write h msg w =
     (case frame_bytes h msg of
        Inl e \<Rightarrow> ((0, Some e), w)
      | Inr bs \<Rightarrow> (case bw_Flush (bw_Write bs w) of (err, w) \<Rightarrow> ((length msg, err), w)))"

section \<open>Masking\<close>

lemma length_mask [simp]: "length (mask_bytes key p bs) = length bs"
  by (induction bs arbitrary: p) auto

lemma mask_append: "mask_bytes key p (a @ b) = mask_bytes key p a @ mask_bytes key (p + length a) b"
  by (induction a arbitrary: p) auto

lemma mask_mask [simp]: "mask_bytes key p (mask_bytes key p bs) = bs"
  by (induction bs arbitrary: p) (auto simp: xor.assoc)

lemma mask_take: "mask_bytes key p (take n bs) = take n (mask_bytes key p bs)"
  by (induction bs arbitrary: p n) (auto simp: take_Cons split: nat.split)

lemma mask_drop: "mask_bytes key (p + min n (length bs)) (drop n bs) = drop n (mask_bytes key p bs)"
proof (induction bs arbitrary: p n)
  case (Cons b bs)
  then show ?case by (cases n) (simp_all, metis add_Suc)
qed simp

lemma mask_Nil_iff [simp]: "mask_bytes key p bs = [] \<longleftrightarrow> bs = []"
  by (cases bs) auto

section \<open>The payload reader keeps the contract of io.Reader\<close>

definition frame_rest :: "hybiFrameReader \<times> rbuf \<Rightarrow> bytes" where
  "frame_rest fs = unmask (MaskingKey (fr_header (fst fs))) (fr_pos (fst fs))
     (take (nat (fr_limit (fst fs))) (rd_in (snd fs)))"

definition frame_complete :: "hybiFrameReader \<times> rbuf \<Rightarrow> bool" where
  "frame_complete fs \<longleftrightarrow> fr_limit (fst fs) \<le> int (length (rd_in (snd fs)))"

lemma unmask_Nil_iff [simp]: "unmask key p bs = [] \<longleftrightarrow> bs = []"
  by (simp add: unmask_def split: option.split)

lemma unmask_append: "unmask key p (a @ b) = unmask key p a @ unmask key (p + length a) b"
  by (simp add: unmask_def mask_append split: option.split)

lemma length_unmask [simp]: "length (unmask key p bs) = length bs"
  by (simp add: unmask_def split: option.split)

lemma frame_Read_val:
  assumes c: "frame_complete (fr, r)" and rd: "frame_Read n (fr, r) = (RVal b, s')"
  shows "frame_complete s' \<and> frame_rest (fr, r) = b @ frame_rest s' \<and> length b \<le> n \<and>
    rd_in (snd s') = drop (length b) (rd_in r) \<and>
    fr_header (fst s') = fr_header fr \<and> rd_end (snd s') = rd_end r \<and>
    fr_limit (fst s') = fr_limit fr - int (length b)"
proof -
  from rd obtain raw r' where pos: "0 < fr_limit fr"
    and raw: "rd_Read (min n (nat (fr_limit fr))) r = (RVal raw, r')"
    and b: "b = unmask (MaskingKey (fr_header fr)) (fr_pos fr) raw"
    and s': "s' = (fr\<lparr>fr_limit := fr_limit fr - int (length raw),
        fr_pos := (if MaskingKey (fr_header fr) = None then fr_pos fr else fr_pos fr + length raw)\<rparr>, r')"
    by (auto simp: frame_Read_def limit_Read_def unmask_def split: if_splits prod.splits rres.splits option.splits)
  note v = rd_Read_val [OF raw]
  then have r': "rd_in r' = drop (length raw) (rd_in r)" "rd_in r = raw @ rd_in r'" by simp_all
  have le: "length raw \<le> nat (fr_limit fr)" using v by simp
  have "nat (fr_limit fr - int (length raw)) = nat (fr_limit fr) - length raw" by arith
  then have "take (nat (fr_limit fr)) (rd_in r) =
      raw @ take (nat (fr_limit fr - int (length raw))) (rd_in r')"
    using r'(2) le by simp
  then have "frame_rest (fr, r) = b @ frame_rest s'"
    by (simp add: frame_rest_def b s' unmask_append) (simp add: unmask_def split: option.split)
  moreover have "frame_complete s'" using c r'(2) by (auto simp: frame_complete_def s')
  ultimately show ?thesis using v b r'(1) by (auto simp: s')
qed

lemma frame_Read_some:
  assumes c: "frame_complete (fr, r)" and n: "0 < n" and rest: "frame_rest (fr, r) \<noteq> []"
  shows "\<exists>b s'. frame_Read n (fr, r) = (RVal b, s') \<and> b \<noteq> []"
proof -
  have pos: "0 < fr_limit fr" and "rd_in r \<noteq> []"
    using rest by (auto simp: frame_rest_def)
  then obtain raw r' where "rd_Read (min n (nat (fr_limit fr))) r = (RVal raw, r')" "raw \<noteq> []"
    using rd_Read_some [of r "min n (nat (fr_limit fr))"] n by auto
  with pos show ?thesis
    by (auto simp: frame_Read_def limit_Read_def split: option.split)
qed

lemma frame_Read_end:
  assumes "frame_complete (fr, r)" and "frame_rest (fr, r) = []"
  shows "frame_Read n (fr, r) = (RErr io_EOF, fr, r)"
proof -
  have "fr_limit fr \<le> 0" using assms by (auto simp: frame_rest_def frame_complete_def)
  then show ?thesis by (simp add: frame_Read_def limit_Read_def)
qed

interpretation frame: byte_source frame_Read frame_rest frame_complete
proof unfold_locales
  fix s s' n b
  assume "frame_complete s" and "frame_Read n s = (RVal b, s')"
  then show "frame_complete s' \<and> frame_rest s = b @ frame_rest s' \<and> length b \<le> n"
    using frame_Read_val [of "fst s" "snd s" n b s'] by simp
next
  fix s and n :: nat
  assume "frame_complete s" and "0 < n" and "frame_rest s = []"
  then show "\<exists>s'. frame_Read n s = (RErr io_EOF, s')"
    using frame_Read_end [of "fst s" "snd s"] by simp
next
  fix s and n :: nat
  assume "frame_complete s" and "0 < n" and "frame_rest s \<noteq> []"
  then show "\<exists>b s'. frame_Read n s = (RVal b, s') \<and> b \<noteq> []"
    using frame_Read_some [of "fst s" "snd s" n] by simp
qed

section \<open>A written frame is read back\<close>

lemma shifted_bit: "drop_bit k b AND 1 \<noteq> 0 \<longleftrightarrow> bit b k" for b :: byte
  by (simp add: and_one_eq mod_2_eq_odd bit_iff_odd_drop_bit)

text \<open>The low four bits of a frame type.\<close>

definition opcode_ok :: "byte \<Rightarrow> bool" where
  "opcode_ok c \<longleftrightarrow> c AND 0x0f = c"

lemma opcode_bits:
  assumes "opcode_ok c"
  shows "\<not> bit c 7" "\<not> bit c 6" "\<not> bit c 5" "\<not> bit c 4"
proof -
  have *: "bit c n \<Longrightarrow> bit (0x0f :: byte) n" for n
    using assms by (metis bit_and_iff opcode_ok_def)
  show "\<not> bit c 7" "\<not> bit c 6" "\<not> bit c 5" "\<not> bit c 4"
    using *[of 7] *[of 6] *[of 5] *[of 4] by auto
qed

lemma first_byte_bits:
  assumes "opcode_ok (OpCode h)"
  shows "bit (first_byte h) 7 = Fin h" "bit (first_byte h) 6 = fst (Rsv h)"
    "bit (first_byte h) 5 = fst (snd (Rsv h))" "bit (first_byte h) 4 = snd (snd (Rsv h))"
  using opcode_bits [OF assms]
  by (cases "Rsv h"; simp add: first_byte_def Let_def bit_simps)+

lemma first_byte_opcode: "opcode_ok (OpCode h) \<Longrightarrow> first_byte h AND 0x0f = OpCode h"
  by (cases "Rsv h") (simp add: first_byte_def Let_def opcode_ok_def bit.conj_disj_distrib2)

lemma length_length_bytes [simp]: "length (length_bytes k n) = k"
  by (simp add: length_bytes_def)

lemma length_bytes_Suc: "length_bytes (Suc k) n = length_bytes k (n div 256) @ [of_nat n]"
proof -
  have "n div 256 div 2 ^ ((k - i - 1) * 8) = n div 2 ^ ((Suc k - i - 1) * 8)" if "i < k" for i
  proof -
    have "Suc k - i - 1 = Suc (k - i - 1)" using that by simp
    then have "(2::nat) ^ ((Suc k - i - 1) * 8) = 256 * 2 ^ ((k - i - 1) * 8)"
      by (simp add: power_add)
    then show ?thesis by (simp add: div_mult2_eq)
  qed
  then show ?thesis by (simp add: length_bytes_def)
qed

lemma join_length_snoc: "join_length (ls @ [b]) = join_length ls * 256 + ucast b"
  by (simp add: join_length_def)

lemma join_length_bytes: "join_length (length_bytes k n) = of_nat (n mod 256 ^ k)"
proof (induction k arbitrary: n)
  case 0
  then show ?case by (simp add: join_length_def length_bytes_def)
next
  case (Suc k)
  have b: "ucast (of_nat n :: byte) = (of_nat (n mod 256) :: i64)"
    by (simp add: unsigned_of_nat take_bit_eq_mod)
  have "n mod 256 ^ Suc k = (n div 256 mod 256 ^ k) * 256 + n mod 256"
    by (metis mod_mult2_eq mult.commute power_Suc)
  then show ?case by (simp add: length_bytes_Suc join_length_snoc Suc.IH b)
qed

lemma ReadByte_Cons [simp]: "rd_in r = b # bs \<Longrightarrow> ReadByte r = (RVal b, r\<lparr>rd_in := bs\<rparr>)"
  by (simp add: ReadByte_def)

lemma ReadBytes_append:
  "rd_in r = a @ b \<Longrightarrow> ReadBytes (length a) r = (RVal a, r\<lparr>rd_in := b\<rparr>)"
  by (induction a arbitrary: r) simp_all

lemma NewFrameReader_parts:
  assumes "rd_in r = [b0, b1] @ ls @ key @ rest" and "length ls = lengthFields (b1 AND 0x7f)"
    and "length key = (if b1 AND 0x80 \<noteq> 0 then 4 else 0)"
  shows "NewFrameReader r = (RVal (make_frame b0 b1 ls key), r\<lparr>rd_in := rest\<rparr>)"
  using assms ReadBytes_append [of "r\<lparr>rd_in := ls @ key @ rest\<rparr>" ls "key @ rest"]
    ReadBytes_append [of "r\<lparr>rd_in := key @ rest\<rparr>" key rest]
  by (simp add: NewFrameReader_def rbind_def)

text \<open>The second byte: the mask bit and the length code.\<close>

lemma second_byte:
  assumes "c AND 0x7f = (c :: byte)"
  shows "c AND 0x80 = 0" "(0x80 OR c) AND 0x7f = c" "(0x80 OR c) AND 0x80 \<noteq> 0"
proof -
  have "c AND 0x80 = (c AND 0x7f) AND 0x80" using assms by simp
  also have "\<dots> = 0" by (simp add: and.assoc)
  finally show z: "c AND 0x80 = 0" .
  show "(0x80 OR c) AND 0x7f = c" using assms by (simp add: bit.conj_disj_distrib2)
  show "(0x80 OR c) AND 0x80 \<noteq> 0" using z by (simp add: bit.conj_disj_distrib2)
qed

lemma small_length_code: "n \<le> 125 \<Longrightarrow> of_nat n AND 0x7f = (of_nat n :: byte)"
proof -
  assume "n \<le> 125"
  then have "take_bit 7 n = n" by (simp add: take_bit_nat_eq_self)
  then have "take_bit 7 (of_nat n :: byte) = of_nat n" by (metis take_bit_of_nat)
  then show ?thesis by (simp add: take_bit_eq_mask mask_eq_exp_minus_1)
qed

lemma length_header_decode:
  assumes m: "m = 0 \<or> m = 0x80" and n: "n < 2 ^ 64"
  shows "\<exists>b1 ls. length_header m n = b1 # ls \<and> length ls = lengthFields (b1 AND 0x7f) \<and>
    (b1 AND 0x80 \<noteq> 0 \<longleftrightarrow> m = 0x80) \<and>
    (if b1 AND 0x7f \<le> 125 then ucast (b1 AND 0x7f) else join_length ls) = (of_nat n :: i64)"
proof -
  have code: "(m OR c) AND 0x7f = c" "(m OR c) AND 0x80 \<noteq> 0 \<longleftrightarrow> m = 0x80"
    if "c AND 0x7f = c" for c :: byte
    using m second_byte [OF that] that by auto
  have big: "\<not> (126 :: byte) \<le> 125" "\<not> (127 :: byte) \<le> 125"
    by (simp_all add: word_le_nat_alt)
  consider "n \<le> 125" | "125 < n" "n < 65536" | "65536 \<le> n" by linarith
  then show ?thesis
  proof cases
    case 1
    have u: "unat (of_nat n :: byte) = n" using 1 by (simp add: unat_of_nat)
    have le: "of_nat n \<le> (125 :: byte)" using u 1 by (simp add: word_le_nat_alt)
    have "ucast (of_nat n :: byte) = (of_nat n :: i64)"
      using 1 by (simp add: unsigned_of_nat take_bit_nat_eq_self)
    with code [OF small_length_code [OF 1]] 1 le show ?thesis
      by (intro exI [of _ "m OR of_nat n"] exI [of _ "[]"]) (simp add: length_header_def lengthFields_def)
  next
    case 2
    with code [of 126] big show ?thesis
      by (intro exI [of _ "m OR 126"] exI [of _ "length_bytes 2 n"])
        (simp add: length_header_def lengthFields_def join_length_bytes)
  next
    case 3
    with code [of 127] big n show ?thesis
      by (intro exI [of _ "m OR 127"] exI [of _ "length_bytes 8 n"])
        (simp add: length_header_def lengthFields_def join_length_bytes)
  qed
qed

lemma frame_roundtrip:
  assumes enc: "frame_bytes h msg = Inr bs" and op: "opcode_ok (OpCode h)" and len: "length msg < 2 ^ 63"
    and inp: "rd_in r = bs @ rest"
  shows "\<exists>fr. NewFrameReader r = (RVal fr, r\<lparr>rd_in := unmask (MaskingKey h) 0 msg @ rest\<rparr>) \<and>
    Fin (fr_header fr) = Fin h \<and> Rsv (fr_header fr) = Rsv h \<and> OpCode (fr_header fr) = OpCode h \<and>
    FrLength (fr_header fr) = of_nat (length msg) \<and> MaskingKey (fr_header fr) = MaskingKey h \<and>
    hdr_data (fr_header fr) \<noteq> [] \<and> fr_limit fr = int (length msg) \<and> fr_pos fr = 0"
proof -
  let ?m = "if MaskingKey h \<noteq> None then 0x80 else (0 :: byte)"
  let ?key = "case MaskingKey h of None \<Rightarrow> [] | Some k \<Rightarrow> k"
  have n: "length msg < 2 ^ 64" using len by simp
  have m: "?m = 0 \<or> ?m = 0x80" by simp
  obtain b1 ls where lh: "length_header ?m (length msg) = b1 # ls" "length ls = lengthFields (b1 AND 0x7f)"
      "b1 AND 0x80 \<noteq> 0 \<longleftrightarrow> ?m = 0x80"
      "(if b1 AND 0x7f \<le> 125 then ucast (b1 AND 0x7f) else join_length ls) = (of_nat (length msg) :: i64)"
    using length_header_decode [OF m n] by blast
  have mask: "b1 AND 0x80 \<noteq> 0 \<longleftrightarrow> MaskingKey h \<noteq> None" using lh(3) by simp
  have bs: "bs = [first_byte h, b1] @ ls @ ?key @ unmask (MaskingKey h) 0 msg"
    and key: "length ?key = (if b1 AND 0x80 \<noteq> 0 then 4 else 0)"
    using enc lh(1) mask
    by (auto simp: frame_bytes_def Let_def unmask_def split: option.splits if_splits)
  have fr: "NewFrameReader r = (RVal (make_frame (first_byte h) b1 ls ?key),
      r\<lparr>rd_in := unmask (MaskingKey h) 0 msg @ rest\<rparr>)"
    using inp bs lh(2) key by (intro NewFrameReader_parts) simp_all
  have "sint (of_nat (length msg) :: i64) = int (length msg)"
    using len by (simp add: signed_of_nat signed_take_bit_int_eq_self)
  with fr lh(4) mask show ?thesis
    by (intro exI [of _ "make_frame (first_byte h) b1 ls ?key"])
      (auto simp: make_frame_def Let_def shifted_bit first_byte_bits [OF op] first_byte_opcode [OF op]
        split: option.splits)
qed

end
