(* ===== verification/Ws_Conn.thy ===== *)
theory Ws_Conn
  imports Ws_Frame Go_Lib
begin

text \<open>
  websocket.go and the frame handler of hybi.go: a connection, its Read and Write, control
  frames, Close, and the codecs. Payloads of consecutive frames come out of Read as one byte
  stream: Read keeps the contract of an io.Reader for every well-formed input of a client.
\<close>

section \<open>The connection\<close>

text \<open>
  \<open>ws_request\<close> says whether the connection has a request, that is, whether it is the server's
  end. \<open>ws_rand\<close> are the next keys of crypto/rand (an error when none is left).
\<close>

record ws_conn =
  ws_request :: bool
  ws_rd :: rbuf
  ws_wr :: bwriter
  ws_frame :: "hybiFrameReader option"
  ws_PayloadType :: byte
  defaultCloseStatus :: nat
  handler_payloadType :: byte
  ws_rand :: "bytes list"
  rwc_closed :: bool

definition closeStatusNormal :: nat where "closeStatusNormal = 1000"
definition closeStatusProtocolError :: nat where "closeStatusProtocolError = 1002"
definition maxControlFramePayloadLength :: nat where "maxControlFramePayloadLength = 125"

definition newHybiConn :: "rbuf \<Rightarrow> bwriter \<Rightarrow> bool \<Rightarrow> bytes list \<Rightarrow> ws_conn" where
  "newHybiConn rd wr request rand = \<lparr>ws_request = request, ws_rd = rd, ws_wr = wr, ws_frame = None,
     ws_PayloadType = TextFrame, defaultCloseStatus = closeStatusNormal, handler_payloadType = 0,
     ws_rand = rand, rwc_closed = False\<rparr>"

definition IsClientConn :: "ws_conn \<Rightarrow> bool" where "IsClientConn ws \<longleftrightarrow> \<not> ws_request ws"
definition IsServerConn :: "ws_conn \<Rightarrow> bool" where "IsServerConn ws \<longleftrightarrow> ws_request ws"

section \<open>Writing\<close>

definition generateMaskingKey :: "ws_conn \<Rightarrow> (werror + bytes) \<times> ws_conn" where
  "generateMaskingKey ws = (case ws_rand ws of
      [] \<Rightarrow> (Inl (OtherError ''rand''), ws)
    | k # ks \<Rightarrow> (Inr k, ws\<lparr>ws_rand := ks\<rparr>))"

text \<open>\<open>needMaskingKey\<close> is \<open>request == nil\<close>.\<close>

definition NewFrameWriter :: "byte \<Rightarrow> ws_conn \<Rightarrow> (werror + hybiFrameHeader) \<times> ws_conn" where
  "NewFrameWriter payloadType ws =
     (let h = \<lparr>Fin = True, Rsv = (False, False, False), OpCode = payloadType, FrLength = 0,
               MaskingKey = None, hdr_data = []\<rparr>
      in if IsClientConn ws then
           (case generateMaskingKey ws of
              (Inl e, ws) \<Rightarrow> (Inl e, ws)
            | (Inr k, ws) \<Rightarrow> (Inr (h\<lparr>MaskingKey := Some k\<rparr>), ws))
         else (Inr h, ws))"

definition write_message :: "byte \<Rightarrow> bytes \<Rightarrow> ws_conn \<Rightarrow> (nat \<times> werror option) \<times> ws_conn" where
  "write_message payloadType msg ws =
     (case NewFrameWriter payloadType ws of
        (Inl e, ws) \<Rightarrow> ((0, Some e), ws)
      | (Inr h, ws) \<Rightarrow> (case frame_Write h msg (ws_wr ws) of (r, w) \<Rightarrow> (r, ws\<lparr>ws_wr := w\<rparr>)))"

definition Conn_Write :: "bytes \<Rightarrow> ws_conn \<Rightarrow> (nat \<times> werror option) \<times> ws_conn" where
  "Conn_Write msg ws = write_message (ws_PayloadType ws) msg ws"

definition WriteClose :: "nat \<Rightarrow> ws_conn \<Rightarrow> werror option \<times> ws_conn" where
  "WriteClose status ws =
     (case write_message CloseFrame (PutUint16 0 (of_nat status) [0, 0]) ws of
        ((n, e), ws) \<Rightarrow> (e, ws))"

definition WritePong :: "bytes \<Rightarrow> ws_conn \<Rightarrow> (nat \<times> werror option) \<times> ws_conn" where
  "WritePong msg ws = write_message PongFrame msg ws"

definition Conn_Close :: "ws_conn \<Rightarrow> werror option \<times> ws_conn" where
  "Conn_Close ws =
     (case WriteClose (defaultCloseStatus ws) ws of
        (Some e, ws) \<Rightarrow> (Some e, ws)
      | (None, ws) \<Rightarrow> (None, ws\<lparr>rwc_closed := True\<rparr>))"

section \<open>Control frames\<close>

text \<open>
  \<open>HandleFrame\<close> returns a data frame, nothing (the frame is done), or an error. io.Copy to
  ioutil.Discard reads in pieces of 8192 bytes; its result is ignored.
\<close>

definition discard_frame :: "hybiFrameReader \<times> rbuf \<Rightarrow> (bytes \<times> werror option) rres \<times> hybiFrameReader \<times> rbuf" where
  "discard_frame fs = ReadAll frame_Read (Suc (length (rd_in (snd fs)))) 8192 [] fs"

definition HandleFrame :: "hybiFrameReader \<Rightarrow> ws_conn \<Rightarrow> hybiFrameReader option rres \<times> ws_conn" where
  "HandleFrame fr ws =
     (if IsServerConn ws \<and> MaskingKey (fr_header fr) = None
         \<or> \<not> IsServerConn ws \<and> MaskingKey (fr_header fr) \<noteq> None
      then (RErr io_EOF, snd (WriteClose closeStatusProtocolError ws))
      else
        let fr = fr\<lparr>fr_header := (fr_header fr)\<lparr>hdr_data := []\<rparr>\<rparr>;
            t = PayloadType fr
        in if t = ContinuationFrame then
             (RVal (Some (fr\<lparr>fr_header := (fr_header fr)\<lparr>OpCode := handler_payloadType ws\<rparr>\<rparr>)), ws)
           else if t = TextFrame \<or> t = BinaryFrame then
             (RVal (Some fr), ws\<lparr>handler_payloadType := t\<rparr>)
           else if t = CloseFrame then (RErr io_EOF, ws)
           else if t = PingFrame then
             (case ReadFull frame_Read maxControlFramePayloadLength maxControlFramePayloadLength [] (fr, ws_rd ws) of
                (RVal (msg, err), fs) \<Rightarrow>
                  if err \<noteq> None \<and> err \<noteq> Some io_ErrUnexpectedEOF then
                    (RErr (the err), ws\<lparr>ws_rd := snd fs\<rparr>)
                  else
                    (case discard_frame fs of
                       (RVal _, fs) \<Rightarrow>
                         (case WritePong msg (ws\<lparr>ws_rd := snd fs\<rparr>) of
                            ((n, Some e), ws) \<Rightarrow> (RErr e, ws)
                          | ((n, None), ws) \<Rightarrow> (RVal None, ws))
                     | (RErr e, fs) \<Rightarrow> (RErr e, ws\<lparr>ws_rd := snd fs\<rparr>)
                     | (RBlock, fs) \<Rightarrow> (RBlock, ws))
              | (RErr e, fs) \<Rightarrow> (RErr e, ws\<lparr>ws_rd := snd fs\<rparr>)
              | (RBlock, fs) \<Rightarrow> (RBlock, ws))
           else if t = PongFrame then (RErr ErrNotImplemented, ws)
           else (RVal (Some fr), ws))"

section \<open>Consumption of the input\<close>

lemma rd_fail_not_val [simp]: "rd_fail r \<noteq> RVal b"
  by (simp add: rd_fail_def split: option.split)

lemma ReadByte_le: "ReadByte r = (x, r') \<Longrightarrow> length (rd_in r') \<le> length (rd_in r)"
  and ReadByte_less: "ReadByte r = (RVal b, r') \<Longrightarrow> length (rd_in r') < length (rd_in r)"
  by (auto simp: ReadByte_def split: list.splits)

lemma ReadBytes_le: "ReadBytes k r = (x, r') \<Longrightarrow> length (rd_in r') \<le> length (rd_in r)"
proof (induction k arbitrary: r x r')
  case (Suc k)
  then show ?case
    by (auto split: prod.splits rres.splits dest!: ReadByte_le Suc.IH intro: order_trans)
qed simp

lemma NewFrameReader_less:
  assumes "NewFrameReader r = (RVal fr, r')"
  shows "length (rd_in r') < length (rd_in r)"
  using assms
  by (auto simp: NewFrameReader_def rbind_def split: prod.splits rres.splits
      dest!: ReadByte_less ReadBytes_le)

lemma rd_Read_le: "rd_Read n r = (x, r') \<Longrightarrow> length (rd_in r') \<le> length (rd_in r)"
  by (auto simp: rd_Read_def split: if_splits)

lemma frame_Read_le: "frame_Read n fs = (x, fs') \<Longrightarrow> length (rd_in (snd fs')) \<le> length (rd_in (snd fs))"
  by (cases fs)
    (auto simp: frame_Read_def limit_Read_def split: if_splits prod.splits rres.splits option.splits
      dest!: rd_Read_le)

lemma write_message_rd: "write_message t m ws = (r, ws') \<Longrightarrow> ws_rd ws' = ws_rd ws"
  by (auto simp: write_message_def NewFrameWriter_def generateMaskingKey_def Let_def
      split: if_splits list.splits prod.splits sum.splits)

lemma HandleFrame_le:
  assumes h: "HandleFrame fr ws = (x, ws')"
  shows "length (rd_in (ws_rd ws')) \<le> length (rd_in (ws_rd ws))"
proof -
  let ?P = "\<lambda>fs. length (rd_in (snd fs)) \<le> length (rd_in (ws_rd ws))"
  have step: "?P s'" if "?P s" and "frame_Read n s = (x, s')" for n s x s'
    using that frame_Read_le [OF that(2)] by simp
  have full: "?P fs" if "ReadFull frame_Read k n acc (f, ws_rd ws) = (y, fs)" for f k n acc y fs
    by (rule ReadFull_preserves [where P = ?P, OF _ _ that]) (use step in auto)
  have disc: "?P gs" if "?P fs" and "discard_frame fs = (y, gs)" for fs gs y
    by (rule ReadAll_preserves [where P = ?P, OF _ that(1) that(2) [unfolded discard_frame_def]])
      (use step in auto)
  from h show ?thesis
    by (auto simp: HandleFrame_def Let_def WriteClose_def WritePong_def
        split: if_splits prod.splits rres.splits option.splits
        dest!: full write_message_rd dest: disc)
qed

lemma handled_less:
  assumes "NewFrameReader (ws_rd ws) = (RVal fr, r)" and "HandleFrame fr (ws\<lparr>ws_rd := r\<rparr>) = (x, ws')"
  shows "length (rd_in (ws_rd ws')) < length (rd_in (ws_rd ws))"
  using NewFrameReader_less [OF assms(1)] HandleFrame_le [OF assms(2)] by simp

section \<open>Reading\<close>

text \<open>
  A call that has to wait is given from the state before it waits: it will be retried there.
\<close>

function Conn_Read :: "nat \<Rightarrow> ws_conn \<Rightarrow> bytes rres \<times> ws_conn" where
  "Conn_Read n ws =
     (case ws_frame ws of
        None \<Rightarrow>
          (case NewFrameReader (ws_rd ws) of
             (RVal fr, r) \<Rightarrow>
               (case HandleFrame fr (ws\<lparr>ws_rd := r\<rparr>) of
                  (RVal fr, ws') \<Rightarrow> Conn_Read n (ws'\<lparr>ws_frame := fr\<rparr>)
                | (RErr e, ws') \<Rightarrow> (RErr e, ws'\<lparr>ws_frame := None\<rparr>)
                | (RBlock, ws') \<Rightarrow> (RBlock, ws))
           | (RErr e, r) \<Rightarrow> (RErr e, ws\<lparr>ws_rd := r\<rparr>)
           | (RBlock, r) \<Rightarrow> (RBlock, ws))
      | Some fr \<Rightarrow>
          (case frame_Read n (fr, ws_rd ws) of
             (RVal b, fr, r) \<Rightarrow> (RVal b, ws\<lparr>ws_frame := Some fr, ws_rd := r\<rparr>)
           | (RErr e, fr, r) \<Rightarrow>
               if e = io_EOF then Conn_Read n (ws\<lparr>ws_frame := None, ws_rd := r\<rparr>)
               else (RErr e, ws\<lparr>ws_frame := Some fr, ws_rd := r\<rparr>)
           | (RBlock, fr, r) \<Rightarrow> (RBlock, ws)))"
  by pat_completeness auto
termination
  by (relation "measure (\<lambda>(n, ws). 2 * length (rd_in (ws_rd ws)) + (if ws_frame ws = None then 0 else 1))")
    (auto dest: handled_less [OF sym sym] frame_Read_le [OF sym])

declare Conn_Read.simps [simp del]

section \<open>Codecs\<close>

text \<open>A Go value handed to a codec: a string, a byte slice or something else.\<close>

datatype gvalue = GString bytes | GBytes bytes | GOther

datatype gtarget = ToString | ToBytes | ToOther

definition ErrNotSupported :: werror where "ErrNotSupported = ProtocolError ''not supported''"

fun marshal :: "gvalue \<Rightarrow> werror + (bytes \<times> byte)" where
  "marshal (GString b) = Inr (b, TextFrame)"
| "marshal (GBytes b) = Inr (b, BinaryFrame)"
| "marshal GOther = Inl ErrNotSupported"

fun unmarshal :: "bytes \<Rightarrow> byte \<Rightarrow> gtarget \<Rightarrow> werror + gvalue" where
  "unmarshal msg payloadType ToString = Inr (GString msg)"
| "unmarshal msg payloadType ToBytes = Inr (GBytes msg)"
| "unmarshal msg payloadType ToOther = Inl ErrNotSupported"

definition Codec_Send :: "('v \<Rightarrow> werror + (bytes \<times> byte)) \<Rightarrow> 'v \<Rightarrow> ws_conn \<Rightarrow> werror option \<times> ws_conn" where
  "Codec_Send cd v ws =
     (case cd v of
        Inl e \<Rightarrow> (Some e, ws)
      | Inr (data, payloadType) \<Rightarrow> (case write_message payloadType data ws of ((n, e), ws) \<Rightarrow> (e, ws)))"

text \<open>The loop of Receive: control frames are handled and the next frame is taken.\<close>

function next_frame :: "ws_conn \<Rightarrow> hybiFrameReader rres \<times> ws_conn" where
  "next_frame ws =
     (case NewFrameReader (ws_rd ws) of
        (RVal fr, r) \<Rightarrow>
          (case HandleFrame fr (ws\<lparr>ws_rd := r\<rparr>) of
             (RVal (Some fr), ws') \<Rightarrow> (RVal fr, ws')
           | (RVal None, ws') \<Rightarrow> next_frame ws'
           | (RErr e, ws') \<Rightarrow> (RErr e, ws')
           | (RBlock, ws') \<Rightarrow> (RBlock, ws))
      | (RErr e, r) \<Rightarrow> (RErr e, ws\<lparr>ws_rd := r\<rparr>)
      | (RBlock, r) \<Rightarrow> (RBlock, ws))"
  by pat_completeness auto
termination
  by (relation "measure (\<lambda>ws. length (rd_in (ws_rd ws)))")
    (auto dest: handled_less [OF sym sym])

declare next_frame.simps [simp del]

definition Codec_Receive :: "(bytes \<Rightarrow> byte \<Rightarrow> 't \<Rightarrow> werror + 'v) \<Rightarrow> 't \<Rightarrow> ws_conn
    \<Rightarrow> (werror + 'v) rres \<times> ws_conn" where
  "Codec_Receive cd t ws0 =
     (case (case ws_frame ws0 of
              None \<Rightarrow> (RVal None, ws0)
            | Some fr \<Rightarrow>
                (case discard_frame (fr, ws_rd ws0) of
                   (RVal (_, Some e), fr, r) \<Rightarrow> (RVal (Some e), ws0\<lparr>ws_frame := Some fr, ws_rd := r\<rparr>)
                 | (RVal (_, None), fr, r) \<Rightarrow> (RVal None, ws0\<lparr>ws_frame := None, ws_rd := r\<rparr>)
                 | (RErr e, fr, r) \<Rightarrow> (RErr e, ws0)
                 | (RBlock, fr, r) \<Rightarrow> (RBlock, ws0))) of
        (RVal (Some e), ws) \<Rightarrow> (RVal (Inl e), ws)
      | (RVal None, ws) \<Rightarrow>
          (case next_frame ws of
             (RVal fr, ws) \<Rightarrow>
               (case ReadAll frame_Read (Suc (length (rd_in (ws_rd ws)))) 512 [] (fr, ws_rd ws) of
                  (RVal (data, Some e), fs) \<Rightarrow> (RVal (Inl e), ws\<lparr>ws_rd := snd fs\<rparr>)
                | (RVal (data, None), fs) \<Rightarrow> (RVal (cd data (PayloadType fr) t), ws\<lparr>ws_rd := snd fs\<rparr>)
                | (RErr e, fs) \<Rightarrow> (RErr e, ws)
                | (RBlock, fs) \<Rightarrow> (RBlock, ws0))
           | (RErr e, ws) \<Rightarrow> (RVal (Inl e), ws)
           | (RBlock, ws) \<Rightarrow> (RBlock, ws0))
      | (RErr e, ws) \<Rightarrow> (RVal (Inl e), ws)
      | (RBlock, ws) \<Rightarrow> (RBlock, ws0))"

definition jsonMarshal :: "('v \<Rightarrow> werror + bytes) \<Rightarrow> 'v \<Rightarrow> werror + (bytes \<times> byte)" where
  "jsonMarshal enc v = (case enc v of Inl e \<Rightarrow> Inl e | Inr b \<Rightarrow> Inr (b, TextFrame))"

definition jsonUnmarshal :: "(bytes \<Rightarrow> 't \<Rightarrow> werror + 'v) \<Rightarrow> bytes \<Rightarrow> byte \<Rightarrow> 't \<Rightarrow> werror + 'v" where
  "jsonUnmarshal dec msg payloadType v = dec msg v"

section \<open>Addresses and deadlines\<close>

definition ws_LocalAddr :: "'u \<Rightarrow> 'u \<Rightarrow> ws_conn \<Rightarrow> 'u" where
  "ws_LocalAddr origin location ws = (if IsClientConn ws then origin else location)"

definition ws_RemoteAddr :: "'u \<Rightarrow> 'u \<Rightarrow> ws_conn \<Rightarrow> 'u" where
  "ws_RemoteAddr origin location ws = (if IsClientConn ws then location else origin)"

text \<open>\<open>set\<close> is the method of the net.Conn below, None when \<open>rwc\<close> is not one.\<close>

definition errSetDeadline :: werror where
  "errSetDeadline = OtherError ''websocket: cannot set deadline: not using a net.Conn''"

definition ws_SetDeadline :: "('t \<Rightarrow> werror option) option \<Rightarrow> 't \<Rightarrow> werror option" where
  "ws_SetDeadline set_it t = (case set_it of Some f \<Rightarrow> f t | None \<Rightarrow> Some errSetDeadline)"

end
