(* ===== verification/Ws_Stream.thy ===== *)
theory Ws_Stream
  imports Ws_Conn
begin

text \<open>
  What a connection delivers, on either side: for an input that is a sequence of well-formed
  frames of the other side (masked ones from a client, unmasked ones from a server), Read keeps
  the contract of an io.Reader on the concatenation of the data payloads. Pings of a client are
  answered in between, a close frame ends the stream.
\<close>

section \<open>Well-formed input\<close>

definition data_type :: "byte \<Rightarrow> bool" where
  "data_type t \<longleftrightarrow> t = ContinuationFrame \<or> t = TextFrame \<or> t = BinaryFrame"

lemma opcode_ok_types [simp]:
  "opcode_ok ContinuationFrame" "opcode_ok TextFrame" "opcode_ok BinaryFrame"
  "opcode_ok CloseFrame" "opcode_ok PingFrame" "opcode_ok PongFrame"
  by (simp_all add: opcode_ok_def frame_type_defs)

lemma data_type_ok: "data_type t \<Longrightarrow> opcode_ok t"
  by (auto simp: data_type_def)

text \<open>
  \<open>peer_frame srv h msg bs\<close>: bs are the bytes of a frame for a server, which is masked, or for a
  client, which is not.
\<close>

definition peer_frame :: "bool \<Rightarrow> hybiFrameHeader \<Rightarrow> bytes \<Rightarrow> bytes \<Rightarrow> bool" where
  "peer_frame srv h msg bs \<longleftrightarrow> (MaskingKey h \<noteq> None) = srv \<and> opcode_ok (OpCode h) \<and> length msg < 2 ^ 63 \<and>
     frame_bytes h msg = Inr bs"

abbreviation client_frame :: "hybiFrameHeader \<Rightarrow> bytes \<Rightarrow> bytes \<Rightarrow> bool" where
  "client_frame \<equiv> peer_frame True"

text \<open>A server of this package sends no pings, so that a client's input has none.\<close>

inductive frames :: "bool \<Rightarrow> bytes \<Rightarrow> bytes \<Rightarrow> bool" for srv where
  feed_end: "frames srv [] []"
| feed_data: "peer_frame srv h msg bs \<Longrightarrow> data_type (OpCode h) \<Longrightarrow> frames srv inp p \<Longrightarrow> frames srv (bs @ inp) (msg @ p)"
| feed_ping: "peer_frame srv h msg bs \<Longrightarrow> srv \<Longrightarrow> OpCode h = PingFrame \<Longrightarrow> msg \<noteq> [] \<Longrightarrow> frames srv inp p \<Longrightarrow> frames srv (bs @ inp) p"
| feed_close: "peer_frame srv h msg bs \<Longrightarrow> OpCode h = CloseFrame \<Longrightarrow> frames srv (bs @ inp) []"

abbreviation feed :: "bytes \<Rightarrow> bytes \<Rightarrow> bool" where
  "feed \<equiv> frames True"

inductive_cases framesE: "frames srv inp p"

lemma peer_frame_read:
  assumes "peer_frame srv h msg bs" and "rd_in r = bs @ rest"
  obtains fr where "NewFrameReader r = (RVal fr, r\<lparr>rd_in := unmask (MaskingKey h) 0 msg @ rest\<rparr>)"
    "OpCode (fr_header fr) = OpCode h" "MaskingKey (fr_header fr) = MaskingKey h"
    "fr_limit fr = int (length msg)" "fr_pos fr = 0"
  using frame_roundtrip [of h msg bs r rest] assms by (auto simp: peer_frame_def)

lemma peer_frame_nonempty: "peer_frame srv h msg bs \<Longrightarrow> bs \<noteq> []"
  by (auto simp: peer_frame_def frame_bytes_def Let_def split: option.splits if_splits)

lemma feed_Nil: "frames srv [] q \<Longrightarrow> q = []"
  by (erule framesE) (use peer_frame_nonempty in force)+

lemma unmask_unmask [simp]: "unmask k p (unmask k p m) = m"
  by (simp add: unmask_def split: option.split)

lemma peer_frame_inj:
  assumes "peer_frame srv h msg bs" and "peer_frame srv h' msg' bs'" and "bs @ inp = bs' @ inp'"
  shows "OpCode h = OpCode h' \<and> msg = msg' \<and> inp = inp'"
proof -
  let ?r = "\<lparr>rd_in = bs @ inp, rd_end = None, rd_sizes = []\<rparr>"
  obtain fr where fr: "NewFrameReader ?r = (RVal fr, ?r\<lparr>rd_in := unmask (MaskingKey h) 0 msg @ inp\<rparr>)"
    "OpCode (fr_header fr) = OpCode h" "MaskingKey (fr_header fr) = MaskingKey h"
    "fr_limit fr = int (length msg)"
    by (rule peer_frame_read [OF assms(1), of ?r inp]) auto
  obtain fr' where fr': "NewFrameReader ?r = (RVal fr', ?r\<lparr>rd_in := unmask (MaskingKey h') 0 msg' @ inp'\<rparr>)"
    "OpCode (fr_header fr') = OpCode h'" "MaskingKey (fr_header fr') = MaskingKey h'"
    "fr_limit fr' = int (length msg')"
    by (rule peer_frame_read [OF assms(2), of ?r inp']) (auto simp: assms(3))
  have eq: "fr = fr'" "unmask (MaskingKey h) 0 msg @ inp = unmask (MaskingKey h') 0 msg' @ inp'"
    using fr(1) fr'(1) by simp_all
  then have "length msg = length msg'" "MaskingKey h = MaskingKey h'" using fr fr' by auto
  with eq have "unmask (MaskingKey h) 0 msg = unmask (MaskingKey h) 0 msg'" "inp = inp'" by auto
  then show ?thesis using eq fr fr' by (metis unmask_unmask)
qed

lemma data_not_control [simp]: "\<not> data_type PingFrame" "\<not> data_type CloseFrame" "CloseFrame \<noteq> PingFrame"
  "PingFrame \<noteq> CloseFrame"
  by (simp_all add: data_type_def frame_type_defs)

lemma feed_frame:
  assumes f: "frames srv (bs @ inp) q" and c: "peer_frame srv h msg bs"
  shows "(data_type (OpCode h) \<longrightarrow> (\<exists>p. q = msg @ p \<and> frames srv inp p)) \<and>
    (OpCode h = PingFrame \<longrightarrow> frames srv inp q) \<and> (OpCode h = CloseFrame \<longrightarrow> q = [])"
  using f
proof (cases rule: frames.cases)
  case feed_end
  then have "bs = []" by (metis append_is_Nil_conv)
  with peer_frame_nonempty [OF c] show ?thesis by blast
next
  case (feed_data h' msg' bs' inp' p)
  with peer_frame_inj [OF c feed_data(3,1)] show ?thesis by auto
next
  case (feed_ping h' msg' bs' inp')
  with peer_frame_inj [OF c feed_ping(2,1)] show ?thesis by auto
next
  case (feed_close h' msg' bs' inp')
  with peer_frame_inj [OF c feed_close(3,1)] show ?thesis by auto
qed

lemma feed_unique: "frames srv inp p \<Longrightarrow> frames srv inp q \<Longrightarrow> p = q"
proof (induction arbitrary: q rule: frames.induct)
  case feed_end
  then show ?case by (metis feed_Nil)
next
  case (feed_data h msg bs inp p)
  with feed_frame [OF feed_data.prems feed_data.hyps(1)] show ?case by blast
next
  case (feed_ping h msg bs inp p)
  with feed_frame [OF feed_ping.prems feed_ping.hyps(1)] show ?case by blast
next
  case (feed_close h msg bs inp)
  with feed_frame [OF feed_close.prems feed_close.hyps(1)] show ?case by blast
qed

definition feed_of :: "bool \<Rightarrow> bytes \<Rightarrow> bytes" where
  "feed_of srv inp = (THE p. frames srv inp p)"

lemma feed_of_eq: "frames srv inp p \<Longrightarrow> feed_of srv inp = p"
  unfolding feed_of_def by (rule the_equality) (auto intro: feed_unique)

section \<open>Frames on a server's connection\<close>

text \<open>The state of a payload reader within a buffer whose frames after it are \<open>inp\<close>.\<close>

definition at_frame :: "bytes \<Rightarrow> werror option \<Rightarrow> hybiFrameReader \<times> rbuf \<Rightarrow> bool" where
  "at_frame inp e fs \<longleftrightarrow> 0 \<le> fr_limit (fst fs) \<and> frame_complete fs \<and>
     drop (nat (fr_limit (fst fs))) (rd_in (snd fs)) = inp \<and> rd_end (snd fs) = e"

lemma at_frame_read:
  assumes a: "at_frame inp e s" and r: "frame_Read n s = (x, s')"
  shows "at_frame inp e s'"
proof (cases x)
  case (RVal b)
  have v: "frame_complete s'" "rd_in (snd s') = drop (length b) (rd_in (snd s))"
    "rd_end (snd s') = rd_end (snd s)" "fr_limit (fst s') = fr_limit (fst s) - int (length b)"
    "frame_rest s = b @ frame_rest s'"
    using frame_Read_val [of "fst s" "snd s" n b s'] a r RVal by (auto simp: at_frame_def)
  have le: "length b \<le> nat (fr_limit (fst s))"
    using arg_cong [OF v(5), of length] by (simp add: frame_rest_def)
  then have "nat (fr_limit (fst s) - int (length b)) + length b = nat (fr_limit (fst s))" by arith
  with a v le show ?thesis by (auto simp: at_frame_def)
next
  case (RErr err)
  with a r show ?thesis
    by (cases s) (auto simp: frame_Read_def limit_Read_def at_frame_def frame_complete_def rd_Read_def
        split: if_splits prod.splits rres.splits option.splits)
next
  case RBlock
  with a r show ?thesis
    by (cases s) (auto simp: frame_Read_def limit_Read_def at_frame_def frame_complete_def rd_Read_def
        split: if_splits prod.splits rres.splits option.splits)
qed

lemma at_frame_eof:
  assumes a: "at_frame inp e s" and r: "frame_Read n s = (RErr io_EOF, s')" and e: "e \<noteq> None"
  shows "rd_in (snd s') = inp \<and> rd_end (snd s') = e"
proof -
  have "fr_limit (fst s) \<le> 0 \<or> rd_in (snd s) = []"
    using r by (cases s) (auto simp: frame_Read_def limit_Read_def rd_Read_def
        split: if_splits prod.splits rres.splits option.splits)
  with a have "fr_limit (fst s) = 0" by (auto simp: at_frame_def frame_complete_def)
  with a r show ?thesis
    by (cases s) (auto simp: frame_Read_def limit_Read_def at_frame_def)
qed

lemma ReadAll_at_frame:
  assumes a: "at_frame inp (Some io_EOF) s" and sz: "0 < sz"
  shows "\<exists>s'. ReadAll frame_Read (Suc (length (rd_in (snd s)))) sz [] s = (RVal (frame_rest s, None), s') \<and>
    rd_in (snd s') = inp \<and> rd_end (snd s') = Some io_EOF"
proof -
  have c: "frame_complete s" using a by (simp add: at_frame_def)
  have len: "length (frame_rest s) < Suc (length (rd_in (snd s)))" by (simp add: frame_rest_def)
  obtain s' where s': "ReadAll frame_Read (Suc (length (rd_in (snd s)))) sz [] s = (RVal (frame_rest s, None), s')"
    using frame.ReadAll_rest [OF c sz len, of "[]"] by auto
  have step: "at_frame inp (Some io_EOF) t'" if "at_frame inp (Some io_EOF) t" and "frame_Read n t = (x, t')" for n t x t'
    using that by (rule at_frame_read)
  have "\<exists>t. at_frame inp (Some io_EOF) t \<and> frame_Read sz t = (RErr io_EOF, s')"
    by (rule ReadAll_end [where P = "at_frame inp (Some io_EOF)", OF _ a s']) (use step in auto)
  with s' at_frame_eof show ?thesis by blast
qed

lemma discard_at_frame:
  assumes "at_frame inp (Some io_EOF) s"
  shows "\<exists>b s'. discard_frame s = (RVal (b, None), s') \<and> rd_in (snd s') = inp \<and> rd_end (snd s') = Some io_EOF"
  using ReadAll_at_frame [OF assms, of 8192] by (auto simp: discard_frame_def)

lemma read_ping_payload:
  assumes a: "at_frame inp (Some io_EOF) s" and m: "frame_rest s = msg" "msg \<noteq> []"
  shows "\<exists>err s'. ReadFull frame_Read 125 125 [] s = (RVal (take 125 msg, err), s') \<and>
    (err = None \<or> err = Some io_ErrUnexpectedEOF) \<and> at_frame inp (Some io_EOF) s'"
proof -
  have c: "frame_complete s" using a by (simp add: at_frame_def)
  have keep: "at_frame inp (Some io_EOF) s'" if "ReadFull frame_Read 125 125 [] s = (r, s')" for r s'
    by (rule ReadFull_preserves [where P = "at_frame inp (Some io_EOF)", OF _ a that])
      (use at_frame_read in blast)
  show ?thesis
  proof (cases "125 \<le> length msg")
    case True
    then obtain s' where "ReadFull frame_Read 125 125 [] s = (RVal (take 125 msg, None), s')"
      using frame.ReadFull_enough [OF c, of 125 125 "[]"] m by auto
    with keep show ?thesis by blast
  next
    case False
    then obtain s' where "ReadFull frame_Read 125 125 [] s = (RVal (msg, Some io_ErrUnexpectedEOF), s')"
      using frame.ReadFull_short [OF c, of 125 125 "[]"] m by auto
    with keep False show ?thesis by auto
  qed
qed

text \<open>The writer of a connection that takes everything.\<close>

definition healthy :: "bwriter \<Rightarrow> bool" where
  "healthy w \<longleftrightarrow> bw_err w = None \<and> bw_room w = None \<and> bw_buf w = []"

lemma server_write:
  assumes "ws_request ws" and "healthy (ws_wr ws)"
  shows "\<exists>ws'. write_message t msg ws = ((length msg, None), ws') \<and> healthy (ws_wr ws') \<and>
    ws' = ws\<lparr>ws_wr := ws_wr ws'\<rparr> \<and>
    (\<exists>bs. frame_bytes \<lparr>Fin = True, Rsv = (False, False, False), OpCode = t, FrLength = 0,
               MaskingKey = None, hdr_data = []\<rparr> msg = Inr bs \<and> bw_out (ws_wr ws') = bw_out (ws_wr ws) @ bs)"
  using assms
  by (simp add: write_message_def NewFrameWriter_def IsClientConn_def frame_Write_def frame_bytes_def
      bw_Flush_def bw_Write_def healthy_def Let_def)

lemma HandleFrame_ping:
  assumes ws: "ws_request ws" "healthy (ws_wr ws)" "rd_end (ws_rd ws) = Some io_EOF"
    and fr: "MaskingKey (fr_header fr) \<noteq> None" "OpCode (fr_header fr) = PingFrame" "0 \<le> fr_limit fr"
      "fr_limit fr \<le> int (length (rd_in (ws_rd ws)))" "drop (nat (fr_limit fr)) (rd_in (ws_rd ws)) = inp"
    and msg: "frame_rest (fr, ws_rd ws) = msg" "msg \<noteq> []"
  shows "\<exists>ws'. HandleFrame fr ws = (RVal None, ws') \<and> ws_request ws' \<and> healthy (ws_wr ws') \<and>
    rd_in (ws_rd ws') = inp \<and> rd_end (ws_rd ws') = Some io_EOF \<and> ws_frame ws' = ws_frame ws \<and>
    (\<exists>bs. frame_bytes \<lparr>Fin = True, Rsv = (False, False, False), OpCode = PongFrame, FrLength = 0,
               MaskingKey = None, hdr_data = []\<rparr> (take 125 msg) = Inr bs \<and>
       bw_out (ws_wr ws') = bw_out (ws_wr ws) @ bs)"
proof -
  let ?fr = "fr\<lparr>fr_header := (fr_header fr)\<lparr>hdr_data := []\<rparr>\<rparr>"
  have a: "at_frame inp (Some io_EOF) (?fr, ws_rd ws)"
    using ws fr by (simp add: at_frame_def frame_complete_def)
  have m: "frame_rest (?fr, ws_rd ws) = msg" using msg(1) by (simp add: frame_rest_def)
  obtain err fs where rf: "ReadFull frame_Read 125 125 [] (?fr, ws_rd ws) = (RVal (take 125 msg, err), fs)"
      "err = None \<or> err = Some io_ErrUnexpectedEOF" "at_frame inp (Some io_EOF) fs"
    using read_ping_payload [OF a m msg(2)] by blast
  obtain b gs where d: "discard_frame fs = (RVal (b, None), gs)" "rd_in (snd gs) = inp" "rd_end (snd gs) = Some io_EOF"
    using discard_at_frame [OF rf(3)] by blast
  let ?ws = "ws\<lparr>ws_rd := snd gs\<rparr>"
  obtain ws' where w: "write_message PongFrame (take 125 msg) ?ws = ((length (take 125 msg), None), ws')"
      "healthy (ws_wr ws')" "ws' = ?ws\<lparr>ws_wr := ws_wr ws'\<rparr>"
      "\<exists>bs. frame_bytes \<lparr>Fin = True, Rsv = (False, False, False), OpCode = PongFrame, FrLength = 0,
               MaskingKey = None, hdr_data = []\<rparr> (take 125 msg) = Inr bs \<and> bw_out (ws_wr ws') = bw_out (ws_wr ?ws) @ bs"
    using server_write [of ?ws PongFrame "take 125 msg"] ws by auto
  have sel: "ws_request ws'" "rd_in (ws_rd ws') = inp" "rd_end (ws_rd ws') = Some io_EOF" "ws_frame ws' = ws_frame ws"
    using ws d by (subst w(3), simp)+
  have "HandleFrame fr ws = (RVal None, ws')"
    using ws(1) fr(1,2) rf d(1) w(1)
    by (auto simp: HandleFrame_def Let_def IsServerConn_def PayloadType_def maxControlFramePayloadLength_def
        WritePong_def frame_type_defs)
  with w sel show ?thesis by auto
qed

lemma HandleFrame_data:
  assumes "(MaskingKey (fr_header fr) \<noteq> None) = ws_request ws" and "data_type (OpCode (fr_header fr))"
  shows "\<exists>fr' t. HandleFrame fr ws = (RVal (Some fr'), ws\<lparr>handler_payloadType := t\<rparr>) \<and>
    MaskingKey (fr_header fr') = MaskingKey (fr_header fr) \<and> fr_limit fr' = fr_limit fr \<and> fr_pos fr' = fr_pos fr"
proof (cases "OpCode (fr_header fr) = ContinuationFrame")
  case True
  with assms show ?thesis
    by (intro exI [of _ "fr\<lparr>fr_header := (fr_header fr)\<lparr>hdr_data := [], OpCode := handler_payloadType ws\<rparr>\<rparr>"]
        exI [of _ "handler_payloadType ws"])
      (simp add: HandleFrame_def Let_def IsServerConn_def IsClientConn_def PayloadType_def)
next
  case False
  then show ?thesis using assms
    by (intro exI [of _ "fr\<lparr>fr_header := (fr_header fr)\<lparr>hdr_data := []\<rparr>\<rparr>"] exI [of _ "OpCode (fr_header fr)"])
      (auto simp: HandleFrame_def Let_def IsServerConn_def IsClientConn_def PayloadType_def data_type_def)
qed

lemma HandleFrame_close:
  assumes "(MaskingKey (fr_header fr) \<noteq> None) = ws_request ws" and "OpCode (fr_header fr) = CloseFrame"
  shows "HandleFrame fr ws = (RErr io_EOF, ws)"
  using assms by (auto simp: HandleFrame_def Let_def IsServerConn_def IsClientConn_def PayloadType_def frame_type_defs)

section \<open>Read on a connection\<close>

definition ws_good :: "ws_conn \<Rightarrow> bool" where
  "ws_good ws \<longleftrightarrow> healthy (ws_wr ws) \<and> rd_end (ws_rd ws) = Some io_EOF \<and>
     (case ws_frame ws of
        None \<Rightarrow> \<exists>p. frames (ws_request ws) (rd_in (ws_rd ws)) p
      | Some fr \<Rightarrow> 0 \<le> fr_limit fr \<and> fr_limit fr \<le> int (length (rd_in (ws_rd ws))) \<and>
          (\<exists>p. frames (ws_request ws) (drop (nat (fr_limit fr)) (rd_in (ws_rd ws))) p))"

definition ws_rest :: "ws_conn \<Rightarrow> bytes" where
  "ws_rest ws = (case ws_frame ws of
      None \<Rightarrow> feed_of (ws_request ws) (rd_in (ws_rd ws))
    | Some fr \<Rightarrow> frame_rest (fr, ws_rd ws) @ feed_of (ws_request ws) (drop (nat (fr_limit fr)) (rd_in (ws_rd ws))))"

definition read_ok :: "nat \<Rightarrow> bytes \<Rightarrow> bytes rres \<times> ws_conn \<Rightarrow> bool" where
  "read_ok n p res \<longleftrightarrow> (case res of
      (RVal b, ws) \<Rightarrow> ws_good ws \<and> p = b @ ws_rest ws \<and> length b \<le> n \<and> (0 < n \<longrightarrow> b \<noteq> [])
    | (RErr e, ws) \<Rightarrow> e = io_EOF \<and> p = []
    | (RBlock, ws) \<Rightarrow> False)"

text \<open>A frame that arrives at a connection with no frame open.\<close>

lemma new_frame_data:
  assumes g: "ws_good ws" "ws_frame ws = None" and inp: "rd_in (ws_rd ws) = bs @ inp"
    and c: "peer_frame (ws_request ws) h msg bs" and t: "data_type (OpCode h)" and p: "frames (ws_request ws) inp p"
  obtains fr r fr' ws' where "NewFrameReader (ws_rd ws) = (RVal fr, r)"
    "HandleFrame fr (ws\<lparr>ws_rd := r\<rparr>) = (RVal (Some fr'), ws')" "ws_good (ws'\<lparr>ws_frame := Some fr'\<rparr>)"
    "ws_rest (ws'\<lparr>ws_frame := Some fr'\<rparr>) = ws_rest ws"
proof -
  obtain fr where fr: "NewFrameReader (ws_rd ws) = (RVal fr, (ws_rd ws)\<lparr>rd_in := unmask (MaskingKey h) 0 msg @ inp\<rparr>)"
    "OpCode (fr_header fr) = OpCode h" "MaskingKey (fr_header fr) = MaskingKey h"
    "fr_limit fr = int (length msg)" "fr_pos fr = 0"
    using peer_frame_read [OF c inp] by blast
  let ?ws = "ws\<lparr>ws_rd := (ws_rd ws)\<lparr>rd_in := unmask (MaskingKey h) 0 msg @ inp\<rparr>\<rparr>"
  have pre: "(MaskingKey (fr_header fr) \<noteq> None) = ws_request ?ws" "data_type (OpCode (fr_header fr))"
    using g c t fr by (simp_all add: ws_good_def peer_frame_def)
  obtain fr' pt where h: "HandleFrame fr ?ws = (RVal (Some fr'), ?ws\<lparr>handler_payloadType := pt\<rparr>)"
    "MaskingKey (fr_header fr') = MaskingKey h" "fr_limit fr' = int (length msg)" "fr_pos fr' = 0"
    using HandleFrame_data [OF pre] fr by auto
  have f: "frames (ws_request ws) (bs @ inp) (msg @ p)" using c t p by (rule frames.feed_data)
  show thesis
  proof (rule that [OF fr(1) h(1)])
    show "ws_good (?ws\<lparr>handler_payloadType := pt, ws_frame := Some fr'\<rparr>)"
      using g p h by (auto simp: ws_good_def)
    show "ws_rest (?ws\<lparr>handler_payloadType := pt, ws_frame := Some fr'\<rparr>) = ws_rest ws"
      using g(2) inp h feed_of_eq [OF f] feed_of_eq [OF p] by (simp add: ws_rest_def frame_rest_def)
  qed
qed

lemma new_frame_ping:
  assumes g: "ws_good ws" "ws_frame ws = None" and inp: "rd_in (ws_rd ws) = bs @ inp"
    and c: "peer_frame (ws_request ws) h msg bs" and srv: "ws_request ws" and t: "OpCode h = PingFrame" and m: "msg \<noteq> []" and p: "frames (ws_request ws) inp p"
  obtains fr r ws' out where "NewFrameReader (ws_rd ws) = (RVal fr, r)"
    "HandleFrame fr (ws\<lparr>ws_rd := r\<rparr>) = (RVal None, ws')" "ws_good (ws'\<lparr>ws_frame := None\<rparr>)"
    "ws_rest (ws'\<lparr>ws_frame := None\<rparr>) = ws_rest ws" "rd_in (ws_rd ws') = inp"
    "frame_bytes \<lparr>Fin = True, Rsv = (False, False, False), OpCode = PongFrame, FrLength = 0,
       MaskingKey = None, hdr_data = []\<rparr> (take 125 msg) = Inr out"
    "bw_out (ws_wr ws') = bw_out (ws_wr ws) @ out"
proof -
  obtain fr where fr: "NewFrameReader (ws_rd ws) = (RVal fr, (ws_rd ws)\<lparr>rd_in := unmask (MaskingKey h) 0 msg @ inp\<rparr>)"
    "OpCode (fr_header fr) = OpCode h" "MaskingKey (fr_header fr) = MaskingKey h"
    "fr_limit fr = int (length msg)" "fr_pos fr = 0"
    using peer_frame_read [OF c inp] by blast
  let ?ws = "ws\<lparr>ws_rd := (ws_rd ws)\<lparr>rd_in := unmask (MaskingKey h) 0 msg @ inp\<rparr>\<rparr>"
  have "\<exists>ws'. HandleFrame fr ?ws = (RVal None, ws') \<and> ws_request ws' \<and> healthy (ws_wr ws') \<and>
    rd_in (ws_rd ws') = inp \<and> rd_end (ws_rd ws') = Some io_EOF \<and> ws_frame ws' = ws_frame ?ws \<and>
    (\<exists>bs. frame_bytes \<lparr>Fin = True, Rsv = (False, False, False), OpCode = PongFrame, FrLength = 0,
               MaskingKey = None, hdr_data = []\<rparr> (take 125 msg) = Inr bs \<and>
       bw_out (ws_wr ws') = bw_out (ws_wr ?ws) @ bs)"
    by (rule HandleFrame_ping) (use g c t fr m srv in \<open>auto simp: ws_good_def peer_frame_def frame_rest_def\<close>)
  then obtain ws' out where h: "HandleFrame fr ?ws = (RVal None, ws')" "ws_request ws'" "healthy (ws_wr ws')"
    "rd_in (ws_rd ws') = inp" "rd_end (ws_rd ws') = Some io_EOF"
    "frame_bytes \<lparr>Fin = True, Rsv = (False, False, False), OpCode = PongFrame, FrLength = 0,
       MaskingKey = None, hdr_data = []\<rparr> (take 125 msg) = Inr out"
    "bw_out (ws_wr ws') = bw_out (ws_wr ws) @ out"
    by auto
  have f: "frames (ws_request ws) (bs @ inp) p" using c srv t m p by (rule frames.feed_ping)
  show thesis
  proof (rule that [OF fr(1) h(1) _ _ h(4,6,7)])
    show "ws_good (ws'\<lparr>ws_frame := None\<rparr>)" using h p srv by (auto simp: ws_good_def)
    show "ws_rest (ws'\<lparr>ws_frame := None\<rparr>) = ws_rest ws"
      using g(2) h inp srv feed_of_eq [OF f] feed_of_eq [OF p] by (simp add: ws_rest_def)
  qed
qed

lemma new_frame_close:
  assumes g: "ws_good ws" "ws_frame ws = None" and inp: "rd_in (ws_rd ws) = bs @ inp"
    and c: "peer_frame (ws_request ws) h msg bs" and t: "OpCode h = CloseFrame"
  obtains fr r ws' where "NewFrameReader (ws_rd ws) = (RVal fr, r)"
    "HandleFrame fr (ws\<lparr>ws_rd := r\<rparr>) = (RErr io_EOF, ws')" "ws_rest ws = []"
proof -
  obtain fr where fr: "NewFrameReader (ws_rd ws) = (RVal fr, (ws_rd ws)\<lparr>rd_in := unmask (MaskingKey h) 0 msg @ inp\<rparr>)"
    "OpCode (fr_header fr) = OpCode h" "MaskingKey (fr_header fr) = MaskingKey h"
    using peer_frame_read [OF c inp] by blast
  have "HandleFrame fr (ws\<lparr>ws_rd := (ws_rd ws)\<lparr>rd_in := unmask (MaskingKey h) 0 msg @ inp\<rparr>\<rparr>) =
      (RErr io_EOF, ws\<lparr>ws_rd := (ws_rd ws)\<lparr>rd_in := unmask (MaskingKey h) 0 msg @ inp\<rparr>\<rparr>)"
    by (rule HandleFrame_close) (use c t fr in \<open>auto simp: ws_good_def peer_frame_def\<close>)
  moreover have "ws_rest ws = []"
    using feed_of_eq [OF frames.feed_close [OF c t]] g(2) inp by (simp add: ws_rest_def)
  ultimately show thesis using that fr(1) by blast
qed

end
