(* ===== verification/Ws_Delivery.thy ===== *)
theory Ws_Delivery
  imports Ws_Stream
begin

text \<open>
  Read of a connection keeps the contract of an io.Reader, and what follows from it: the
  messages one side writes come out of the other as one byte stream, a message sent by a codec
  is received with its type, and the two ends enforce the masking rule.
\<close>

section \<open>Read keeps the contract\<close>

lemma feed_Nil_intro: "ws_good ws \<Longrightarrow> ws_frame ws = None \<Longrightarrow> rd_in (ws_rd ws) = [] \<Longrightarrow> ws_rest ws = []"
  by (auto simp: ws_good_def ws_rest_def intro: feed_of_eq frames.feed_end)

lemma open_frame_val:
  assumes g: "ws_good ws" and f: "ws_frame ws = Some fr" and r: "frame_Read n (fr, ws_rd ws) = (RVal b, fr', r')"
  shows "ws_good (ws\<lparr>ws_frame := Some fr', ws_rd := r'\<rparr>) \<and>
    ws_rest ws = b @ ws_rest (ws\<lparr>ws_frame := Some fr', ws_rd := r'\<rparr>) \<and> length b \<le> n"
proof -
  have c: "frame_complete (fr, ws_rd ws)" using g f by (simp add: ws_good_def frame_complete_def)
  have v: "frame_complete (fr', r')" "frame_rest (fr, ws_rd ws) = b @ frame_rest (fr', r')" "length b \<le> n"
    "rd_in r' = drop (length b) (rd_in (ws_rd ws))" "rd_end r' = rd_end (ws_rd ws)"
    "fr_limit fr' = fr_limit fr - int (length b)"
    using frame_Read_val [OF c r] by simp_all
  have le: "length b \<le> nat (fr_limit fr)"
    using arg_cong [OF v(2), of length] by (simp add: frame_rest_def)
  then have n: "nat (fr_limit fr - int (length b)) + length b = nat (fr_limit fr)" by arith
  then have d: "drop (nat (fr_limit fr')) (rd_in r') = drop (nat (fr_limit fr)) (rd_in (ws_rd ws))"
    using v by simp
  have "0 \<le> fr_limit fr'" "fr_limit fr' \<le> int (length (rd_in r'))"
    using le v(1,6) g f by (simp_all add: ws_good_def frame_complete_def le_nat_iff)
  then show ?thesis using g f v d by (simp add: ws_good_def ws_rest_def)
qed

lemma open_frame_eof:
  assumes g: "ws_good ws" and f: "ws_frame ws = Some fr" and e: "frame_rest (fr, ws_rd ws) = []"
  shows "frame_Read n (fr, ws_rd ws) = (RErr io_EOF, fr, ws_rd ws)"
    "ws_good (ws\<lparr>ws_frame := None\<rparr>)" "ws_rest (ws\<lparr>ws_frame := None\<rparr>) = ws_rest ws"
proof -
  have c: "frame_complete (fr, ws_rd ws)" using g f by (simp add: ws_good_def frame_complete_def)
  show "frame_Read n (fr, ws_rd ws) = (RErr io_EOF, fr, ws_rd ws)" by (rule frame_Read_end [OF c e])
  have "fr_limit fr = 0" using g f e by (auto simp: ws_good_def frame_rest_def)
  then show "ws_good (ws\<lparr>ws_frame := None\<rparr>)" "ws_rest (ws\<lparr>ws_frame := None\<rparr>) = ws_rest ws"
    using g f e by (simp_all add: ws_good_def ws_rest_def)
qed

text \<open>The frame reader at a complete frame: bytes, or the end of the frame.\<close>

lemma open_frame_cases:
  assumes g: "ws_good ws" and f: "ws_frame ws = Some fr"
  obtains (bytes) b fr' r' where "frame_Read n (fr, ws_rd ws) = (RVal b, fr', r')" "0 < n \<longrightarrow> b \<noteq> []"
  | (eof) "frame_rest (fr, ws_rd ws) = []"
proof (cases "frame_rest (fr, ws_rd ws) = []")
  case False
  have c: "frame_complete (fr, ws_rd ws)" using g f by (simp add: ws_good_def frame_complete_def)
  have "\<exists>b s'. frame_Read n (fr, ws_rd ws) = (RVal b, s') \<and> (0 < n \<longrightarrow> b \<noteq> [])"
  proof (cases "n = 0")
    case True
    have "0 < fr_limit fr" using False by (auto simp: frame_rest_def)
    with True show ?thesis by (simp add: frame_Read_def limit_Read_def rd_Read_def split: option.split)
  next
    case n: False
    then show ?thesis using frame_Read_some [OF c _ False, of n] by blast
  qed
  then obtain b s' where "frame_Read n (fr, ws_rd ws) = (RVal b, s')" "0 < n \<longrightarrow> b \<noteq> []" by blast
  then show thesis using bytes by (cases s') simp
qed (rule eof)

lemma new_frame_cases:
  assumes g: "ws_good ws" and f: "ws_frame ws = None"
  obtains (none) "rd_in (ws_rd ws) = []"
  | (handled) fr r x ws' where "NewFrameReader (ws_rd ws) = (RVal fr, r)" "HandleFrame fr (ws\<lparr>ws_rd := r\<rparr>) = (RVal x, ws')"
      "ws_good (ws'\<lparr>ws_frame := x\<rparr>)" "ws_rest (ws'\<lparr>ws_frame := x\<rparr>) = ws_rest ws"
  | (closed) fr r ws' where "NewFrameReader (ws_rd ws) = (RVal fr, r)" "HandleFrame fr (ws\<lparr>ws_rd := r\<rparr>) = (RErr io_EOF, ws')"
      "ws_rest ws = []"
proof -
  obtain p where "frames (ws_request ws) (rd_in (ws_rd ws)) p" using g f by (auto simp: ws_good_def)
  then show thesis
  proof (cases rule: frames.cases)
    case (feed_data h msg bs inp p)
    show thesis by (rule new_frame_data [OF g f feed_data(1,3,4,5)]) (rule handled)
  next
    case (feed_ping h msg bs inp)
    show thesis by (rule new_frame_ping [OF g f feed_ping(1-6)]) (rule handled)
  next
    case (feed_close h msg bs inp)
    show thesis by (rule new_frame_close [OF g f feed_close(1,3,4)]) (rule closed)
  qed (rule none)
qed

lemma NewFrameReader_end: "rd_in r = [] \<Longrightarrow> rd_end r = Some e \<Longrightarrow> NewFrameReader r = (RErr e, r)"
  by (simp add: NewFrameReader_def rbind_def ReadByte_def rd_fail_def)

lemma Conn_Read_ok: "ws_good ws \<Longrightarrow> read_ok n (ws_rest ws) (Conn_Read n ws)"
proof (induction n ws rule: Conn_Read.induct)
  case (1 n ws)
  show ?case
  proof (cases "ws_frame ws")
    case None
    from "1.prems" None show ?thesis
    proof (cases rule: new_frame_cases)
      case none
      then have "NewFrameReader (ws_rd ws) = (RErr io_EOF, ws_rd ws)"
        using "1.prems" by (intro NewFrameReader_end) (simp_all add: ws_good_def)
      with None feed_Nil_intro [OF "1.prems" None none] show ?thesis
        by (subst Conn_Read.simps) (simp add: read_ok_def)
    next
      case (handled fr r x ws')
      have "read_ok n (ws_rest (ws'\<lparr>ws_frame := x\<rparr>)) (Conn_Read n (ws'\<lparr>ws_frame := x\<rparr>))"
        by (rule "1.IH"(1) [OF None handled(1) [symmetric] refl handled(2) [symmetric] refl handled(3)])
      with handled None show ?thesis by (subst Conn_Read.simps) simp
    next
      case (closed fr r ws')
      with None show ?thesis by (subst Conn_Read.simps) (simp add: read_ok_def)
    qed
  next
    case (Some fr)
    from "1.prems" Some show ?thesis
    proof (cases rule: open_frame_cases [where n = n])
      case (bytes b fr' r')
      with open_frame_val [OF "1.prems" Some bytes(1)] Some show ?thesis
        by (subst Conn_Read.simps) (simp add: read_ok_def)
    next
      case eof
      note e = open_frame_eof [OF "1.prems" Some eof]
      have "read_ok n (ws_rest (ws\<lparr>ws_frame := None, ws_rd := ws_rd ws\<rparr>)) (Conn_Read n (ws\<lparr>ws_frame := None, ws_rd := ws_rd ws\<rparr>))"
        by (rule "1.IH"(2) [OF Some e(1) [of n, symmetric] refl refl refl]) (use e "1.prems" in simp_all)
      with e Some show ?thesis by (subst Conn_Read.simps) simp
    qed
  qed
qed

interpretation conn_read: byte_source Conn_Read ws_rest ws_good
proof unfold_locales
  fix s s' :: ws_conn and n b
  assume "ws_good s" and "Conn_Read n s = (RVal b, s')"
  then show "ws_good s' \<and> ws_rest s = b @ ws_rest s' \<and> length b \<le> n"
    using Conn_Read_ok [of s n] by (simp add: read_ok_def)
next
  fix s :: ws_conn and n :: nat
  assume "ws_good s" and "0 < n" and "ws_rest s = []"
  then show "\<exists>s'. Conn_Read n s = (RErr io_EOF, s')"
    using Conn_Read_ok [of s n] by (auto simp: read_ok_def split: prod.splits rres.splits)
next
  fix s :: ws_conn and n :: nat
  assume "ws_good s" and "0 < n" and "ws_rest s \<noteq> []"
  then show "\<exists>b s'. Conn_Read n s = (RVal b, s') \<and> b \<noteq> []"
    using Conn_Read_ok [of s n] by (auto simp: read_ok_def split: prod.splits rres.splits)
qed

section \<open>What the sides write\<close>

definition client_ok :: "ws_conn \<Rightarrow> bool" where
  "client_ok ws \<longleftrightarrow> \<not> ws_request ws \<and> healthy (ws_wr ws) \<and> (\<forall>k \<in> set (ws_rand ws). length k = 4)"

definition client_header :: "byte \<Rightarrow> bytes \<Rightarrow> hybiFrameHeader" where
  "client_header t k = \<lparr>Fin = True, Rsv = (False, False, False), OpCode = t, FrLength = 0,
     MaskingKey = Some k, hdr_data = []\<rparr>"

lemma client_write:
  assumes "client_ok ws" and "ws_rand ws = k # ks" and "length msg < 2 ^ 63" and "opcode_ok t"
  obtains bs ws' where "write_message t msg ws = ((length msg, None), ws')"
    "client_frame (client_header t k) msg bs" "bw_out (ws_wr ws') = bw_out (ws_wr ws) @ bs"
    "client_ok ws'" "ws_rand ws' = ks" "ws_PayloadType ws' = ws_PayloadType ws"
  using assms
  by (simp add: write_message_def NewFrameWriter_def IsClientConn_def generateMaskingKey_def frame_Write_def
      frame_bytes_def bw_Flush_def bw_Write_def healthy_def Let_def client_ok_def client_header_def peer_frame_def)

fun Conn_Writes :: "bytes list \<Rightarrow> ws_conn \<Rightarrow> ws_conn" where
  "Conn_Writes [] ws = ws"
| "Conn_Writes (m # ms) ws = Conn_Writes ms (snd (Conn_Write m ws))"

lemma Conn_Writes_feed:
  "client_ok ws \<Longrightarrow> data_type (ws_PayloadType ws) \<Longrightarrow> length ms \<le> length (ws_rand ws) \<Longrightarrow>
    \<forall>m \<in> set ms. length m < 2 ^ 63 \<Longrightarrow>
    \<exists>out. bw_out (ws_wr (Conn_Writes ms ws)) = bw_out (ws_wr ws) @ out \<and> feed out (concat ms)"
proof (induction ms arbitrary: ws)
  case Nil
  then show ?case by (auto intro: frames.feed_end)
next
  case (Cons m ms)
  then obtain k ks where k: "ws_rand ws = k # ks" by (cases "ws_rand ws") auto
  obtain bs ws' where w: "Conn_Write m ws = ((length m, None), ws')"
    "client_frame (client_header (ws_PayloadType ws) k) m bs" "bw_out (ws_wr ws') = bw_out (ws_wr ws) @ bs"
    "client_ok ws'" "ws_rand ws' = ks" "ws_PayloadType ws' = ws_PayloadType ws"
    by (rule client_write [OF Cons.prems(1) k, of m "ws_PayloadType ws"])
      (use Cons.prems data_type_ok in \<open>auto simp: Conn_Write_def\<close>)
  have "\<exists>out. bw_out (ws_wr (Conn_Writes ms ws')) = bw_out (ws_wr ws') @ out \<and> feed out (concat ms)"
    by (rule Cons.IH) (use Cons.prems w k in auto)
  then obtain out where "bw_out (ws_wr (Conn_Writes ms ws')) = bw_out (ws_wr ws') @ out" "feed out (concat ms)"
    by blast
  moreover have "feed (bs @ out) (m @ concat ms)"
    by (rule frames.feed_data [OF w(2)]) (use Cons.prems calculation in \<open>simp_all add: client_header_def\<close>)
  ultimately show ?case using w by auto
qed

text \<open>The writes of a server, which need no keys.\<close>

definition server_header :: "byte \<Rightarrow> hybiFrameHeader" where
  "server_header t = \<lparr>Fin = True, Rsv = (False, False, False), OpCode = t, FrLength = 0,
     MaskingKey = None, hdr_data = []\<rparr>"

lemma server_Conn_Write:
  assumes "ws_request ws" and "healthy (ws_wr ws)" and "data_type (ws_PayloadType ws)" and "length m < 2 ^ 63"
  obtains bs ws' where "Conn_Write m ws = ((length m, None), ws')" "peer_frame False (server_header (ws_PayloadType ws)) m bs"
    "bw_out (ws_wr ws') = bw_out (ws_wr ws) @ bs" "ws_request ws'" "healthy (ws_wr ws')" "ws_PayloadType ws' = ws_PayloadType ws"
proof -
  obtain ws' bs where w: "write_message (ws_PayloadType ws) m ws = ((length m, None), ws')" "healthy (ws_wr ws')"
    "ws' = ws\<lparr>ws_wr := ws_wr ws'\<rparr>" "frame_bytes (server_header (ws_PayloadType ws)) m = Inr bs"
    "bw_out (ws_wr ws') = bw_out (ws_wr ws) @ bs"
    using server_write [OF assms(1,2), of "ws_PayloadType ws" m] unfolding server_header_def by blast
  have "ws_request ws'" "ws_PayloadType ws' = ws_PayloadType ws" by (subst w(3), simp add: assms(1))+
  with w assms(3,4) data_type_ok that show thesis
    by (auto simp: Conn_Write_def peer_frame_def server_header_def)
qed

lemma server_Conn_Writes_frames:
  "ws_request ws \<Longrightarrow> healthy (ws_wr ws) \<Longrightarrow> data_type (ws_PayloadType ws) \<Longrightarrow> \<forall>m \<in> set ms. length m < 2 ^ 63 \<Longrightarrow>
    \<exists>out. bw_out (ws_wr (Conn_Writes ms ws)) = bw_out (ws_wr ws) @ out \<and> frames False out (concat ms)"
proof (induction ms arbitrary: ws)
  case Nil
  then show ?case by (auto intro: frames.feed_end)
next
  case (Cons m ms)
  obtain bs ws' where w: "Conn_Write m ws = ((length m, None), ws')" "peer_frame False (server_header (ws_PayloadType ws)) m bs"
    "bw_out (ws_wr ws') = bw_out (ws_wr ws) @ bs" "ws_request ws'" "healthy (ws_wr ws')" "ws_PayloadType ws' = ws_PayloadType ws"
    by (rule server_Conn_Write [OF Cons.prems(1-3), of m]) (use Cons.prems(4) in auto)
  have "\<exists>out. bw_out (ws_wr (Conn_Writes ms ws')) = bw_out (ws_wr ws') @ out \<and> frames False out (concat ms)"
    by (rule Cons.IH) (use Cons.prems w in auto)
  then obtain out where o: "bw_out (ws_wr (Conn_Writes ms ws')) = bw_out (ws_wr ws') @ out" "frames False out (concat ms)"
    by blast
  have "frames False (bs @ out) (m @ concat ms)"
    by (rule frames.feed_data [OF w(2)]) (use Cons.prems o in \<open>simp_all add: server_header_def\<close>)
  with w o show ?case by auto
qed

section \<open>Messages arrive\<close>

text \<open>A connection that has an input to read, and one that has nothing written yet.\<close>

definition conn_on :: "bool \<Rightarrow> bytes \<Rightarrow> nat list \<Rightarrow> ws_conn" where
  "conn_on srv inp sizes = newHybiConn \<lparr>rd_in = inp, rd_end = Some io_EOF, rd_sizes = sizes\<rparr>
     \<lparr>bw_buf = [], bw_out = [], bw_err = None, bw_room = None\<rparr> srv []"

definition conn_new :: "bool \<Rightarrow> bytes list \<Rightarrow> ws_conn" where
  "conn_new srv keys = newHybiConn \<lparr>rd_in = [], rd_end = None, rd_sizes = []\<rparr>
     \<lparr>bw_buf = [], bw_out = [], bw_err = None, bw_room = None\<rparr> srv keys"

abbreviation server_on :: "bytes \<Rightarrow> nat list \<Rightarrow> ws_conn" where "server_on \<equiv> conn_on True"
abbreviation client_on :: "bytes \<Rightarrow> nat list \<Rightarrow> ws_conn" where "client_on \<equiv> conn_on False"
abbreviation client_new :: "bytes list \<Rightarrow> ws_conn" where "client_new \<equiv> conn_new False"
abbreviation server_new :: ws_conn where "server_new \<equiv> conn_new True []"

lemma conn_on_good: "frames srv inp p \<Longrightarrow> ws_good (conn_on srv inp sizes) \<and> ws_rest (conn_on srv inp sizes) = p"
  by (auto simp: conn_on_def newHybiConn_def ws_good_def ws_rest_def healthy_def intro: feed_of_eq)

lemma client_new_ok: "\<forall>k \<in> set keys. length k = 4 \<Longrightarrow> client_ok (client_new keys)"
  by (simp add: conn_new_def newHybiConn_def client_ok_def healthy_def)


definition demo_data :: hybiFrameHeader where
  "demo_data = client_header TextFrame [1, 2, 3, 4]"

lemma demo_frame: "client_frame demo_data [72, 105] [0x81, 0x82, 1, 2, 3, 4, 73, 107]"
  by (simp add: peer_frame_def demo_data_def client_header_def opcode_ok_def TextFrame_def frame_bytes_def
      first_byte_def length_header_def)


lemma Conn_Writes_arrive:
  assumes "\<forall>key \<in> set keys. length key = 4" and "length ms \<le> length keys" and "\<forall>m \<in> set ms. length m < 2 ^ 63"
    and "length (concat ms) < k" and "0 < sz"
  shows "\<exists>s. ReadAll Conn_Read k sz [] (server_on (bw_out (ws_wr (Conn_Writes ms (client_new keys)))) sizes) =
    (RVal (concat ms, None), s)"
proof -
  have "\<exists>out. bw_out (ws_wr (Conn_Writes ms (client_new keys))) = bw_out (ws_wr (client_new keys)) @ out \<and>
      feed out (concat ms)"
    using assms client_new_ok by (intro Conn_Writes_feed) (simp_all add: conn_new_def newHybiConn_def data_type_def)
  then have "feed (bw_out (ws_wr (Conn_Writes ms (client_new keys)))) (concat ms)"
    by (simp add: conn_new_def newHybiConn_def)
  from conn_on_good [OF this, of sizes] assms show ?thesis
    using conn_read.ReadAll_rest [of "server_on (bw_out (ws_wr (Conn_Writes ms (client_new keys)))) sizes" sz k "[]"]
    by simp
qed

lemma server_Conn_Writes_arrive:
  assumes "\<forall>m \<in> set ms. length m < 2 ^ 63" and "length (concat ms) < k" and "0 < sz"
  shows "\<exists>s. ReadAll Conn_Read k sz [] (client_on (bw_out (ws_wr (Conn_Writes ms server_new))) sizes) =
    (RVal (concat ms, None), s)"
proof -
  have "\<exists>out. bw_out (ws_wr (Conn_Writes ms server_new)) = bw_out (ws_wr server_new) @ out \<and> frames False out (concat ms)"
    by (rule server_Conn_Writes_frames) (use assms(1) in \<open>simp_all add: conn_new_def newHybiConn_def healthy_def data_type_def\<close>)
  then have "frames False (bw_out (ws_wr (Conn_Writes ms server_new))) (concat ms)"
    by (simp add: conn_new_def newHybiConn_def)
  from conn_on_good [OF this, of sizes] assms(2,3) show ?thesis
    using conn_read.ReadAll_rest [of "client_on (bw_out (ws_wr (Conn_Writes ms server_new))) sizes" sz k "[]"] by simp
qed

text \<open>
  The way back: what a server writes with any number of calls of Write is what the client
  reads, whatever the sizes of the single reads.
\<close>

theorem server_writes_reach_client:
  assumes "\<forall>m \<in> set ms. length m < 2 ^ 63" and "length (concat ms) < k" and "0 < sz"
  shows "\<exists>s. ReadAll Conn_Read k sz [] (client_on (bw_out (ws_wr (Conn_Writes ms server_new))) sizes) =
    (RVal (concat ms, None), s)"
  using assms by (rule server_Conn_Writes_arrive)

theorem server_writes_reach_client_witness:
  "\<exists>s. ReadAll Conn_Read 9 2 [] (client_on (bw_out (ws_wr (Conn_Writes [[1, 2, 3], [], [4]] server_new))) [1]) =
    (RVal ([1, 2, 3, 4], None), s)"
  using server_writes_reach_client [of "[[1, 2, 3], [], [4]]" 9 2 "[1]"] by simp

text \<open>
  What a client writes with any number of calls of Write, whatever masking keys it draws,
  is what the server reads.
\<close>

theorem client_writes_reach_server:
  assumes "\<forall>key \<in> set keys. length key = 4" and "length ms \<le> length keys"
    and "\<forall>m \<in> set ms. length m < 2 ^ 63" and "length (concat ms) < k" and "0 < sz"
  shows "\<exists>s. ReadAll Conn_Read k sz [] (server_on (bw_out (ws_wr (Conn_Writes ms (client_new keys)))) sizes) =
    (RVal (concat ms, None), s)"
  using assms by (rule Conn_Writes_arrive)

theorem client_writes_reach_server_witness:
  "\<exists>s. ReadAll Conn_Read 9 2 [] (server_on (bw_out (ws_wr
     (Conn_Writes [[1, 2, 3], [], [4]] (client_new [[9, 8, 7, 6], [0, 0, 0, 0], [255, 1, 2, 3]])))) []) =
    (RVal ([1, 2, 3, 4], None), s)"
  using client_writes_reach_server [of "[[9, 8, 7, 6], [0, 0, 0, 0], [255, 1, 2, 3]]" "[[1, 2, 3], [], [4]]" 9 2 "[]"]
  by simp

section \<open>Control frames and the masking rule\<close>



text \<open>
  An endpoint refuses a frame that breaks the masking rule, before it looks at the frame's
  type: an unmasked frame at the server, a masked one at the client. It tries to send a close
  frame with status 1002 and ends the read.
\<close>

theorem masking_rule:
  assumes "(MaskingKey (fr_header fr) = None) = ws_request ws"
  shows "HandleFrame fr ws = (RErr io_EOF, snd (WriteClose 1002 ws))"
  using assms by (auto simp: HandleFrame_def IsServerConn_def closeStatusProtocolError_def)

theorem masking_rule_witness:
  "HandleFrame (make_frame 0x81 0x01 [] []) (server_on [65] []) =
    (RErr io_EOF, snd (WriteClose 1002 (server_on [65] [])))"
  by (rule masking_rule) (simp add: make_frame_def Let_def conn_on_def newHybiConn_def)

lemma ReadFull_error:
  "0 < n \<Longrightarrow> 0 < k \<Longrightarrow> rd n s = (RErr e, s') \<Longrightarrow> ReadFull rd k n [] s = (RVal ([], Some e), s')"
  by (cases k) (simp_all add: ReadFull.simps)

text \<open>
  A ping without payload, which the protocol allows, ends the connection: io.ReadFull
  reports io.EOF for it and HandleFrame returns that error, so the server's Read reports the
  end of the stream although data may follow.
\<close>

theorem empty_ping_ends_read:
  assumes "client_frame h [] bs" and "OpCode h = PingFrame"
  shows "fst (Conn_Read n (server_on (bs @ inp) sizes)) = RErr io_EOF"
proof -
  let ?ws = "server_on (bs @ inp) sizes"
  have f: "ws_frame ?ws = None" "rd_in (ws_rd ?ws) = bs @ inp" "ws_request ?ws"
    by (simp_all add: conn_on_def newHybiConn_def)
  obtain fr where fr: "NewFrameReader (ws_rd ?ws) = (RVal fr, (ws_rd ?ws)\<lparr>rd_in := unmask (MaskingKey h) 0 [] @ inp\<rparr>)"
    "OpCode (fr_header fr) = OpCode h" "MaskingKey (fr_header fr) = MaskingKey h" "fr_limit fr = 0"
    by (rule peer_frame_read [OF assms(1) f(2)]) simp
  have "MaskingKey h \<noteq> None" using assms(1) by (simp add: peer_frame_def)
  then have "fst (HandleFrame fr (?ws\<lparr>ws_rd := (ws_rd ?ws)\<lparr>rd_in := unmask (MaskingKey h) 0 [] @ inp\<rparr>\<rparr>)) = RErr io_EOF"
    using fr assms(2) f(3)
    by (auto simp: HandleFrame_def Let_def IsServerConn_def PayloadType_def frame_type_defs
        maxControlFramePayloadLength_def ReadFull_error frame_Read_def limit_Read_def)
  then show ?thesis using f fr by (subst Conn_Read.simps) (auto split: prod.splits rres.splits)
qed

theorem empty_ping_ends_read_witness:
  "fst (Conn_Read 5 (server_on [0x89, 0x80, 0, 0, 0, 0, 0x81, 0x81, 0, 0, 0, 0, 65] [])) = RErr io_EOF"
  using empty_ping_ends_read [of "client_header PingFrame [0, 0, 0, 0]" "[0x89, 0x80, 0, 0, 0, 0]" 5
      "[0x81, 0x81, 0, 0, 0, 0, 65]" "[]"]
  by (simp add: peer_frame_def client_header_def opcode_ok_def PingFrame_def frame_bytes_def
      first_byte_def length_header_def)

section \<open>A message and its type\<close>

fun target_of :: "gvalue \<Rightarrow> gtarget" where
  "target_of (GString b) = ToString"
| "target_of (GBytes b) = ToBytes"
| "target_of GOther = ToOther"

lemma next_frame_data:
  assumes c: "client_frame h msg bs" and t: "OpCode h = TextFrame \<or> OpCode h = BinaryFrame"
  shows "\<exists>fr ws. next_frame (server_on (bs @ inp) sizes) = (RVal fr, ws) \<and> OpCode (fr_header fr) = OpCode h \<and>
    frame_complete (fr, ws_rd ws) \<and> frame_rest (fr, ws_rd ws) = msg \<and> 
    at_frame inp (Some io_EOF) (fr, ws_rd ws)"
proof -
  let ?ws = "server_on (bs @ inp) sizes"
  have f: "rd_in (ws_rd ?ws) = bs @ inp" "ws_request ?ws" "rd_end (ws_rd ?ws) = Some io_EOF"
    by (simp_all add: conn_on_def newHybiConn_def)
  obtain fr where fr: "NewFrameReader (ws_rd ?ws) = (RVal fr, (ws_rd ?ws)\<lparr>rd_in := unmask (MaskingKey h) 0 msg @ inp\<rparr>)"
    "OpCode (fr_header fr) = OpCode h" "MaskingKey (fr_header fr) = MaskingKey h"
    "fr_limit fr = int (length msg)" "fr_pos fr = 0"
    using peer_frame_read [OF c f(1)] by blast
  let ?ws1 = "?ws\<lparr>ws_rd := (ws_rd ?ws)\<lparr>rd_in := unmask (MaskingKey h) 0 msg @ inp\<rparr>\<rparr>"
  let ?fr = "fr\<lparr>fr_header := (fr_header fr)\<lparr>hdr_data := []\<rparr>\<rparr>"
  have "HandleFrame fr ?ws1 = (RVal (Some ?fr), ?ws1\<lparr>handler_payloadType := OpCode h\<rparr>)"
    using c fr t f(2) by (auto simp: HandleFrame_def Let_def IsServerConn_def PayloadType_def
        peer_frame_def frame_type_defs)
  then have "next_frame ?ws = (RVal ?fr, ?ws1\<lparr>handler_payloadType := OpCode h\<rparr>)"
    using fr(1) by (subst next_frame.simps) simp
  then show ?thesis using fr f
    by (auto simp: frame_complete_def frame_rest_def at_frame_def)
qed

text \<open>
  C32: A string or byte slice sent by a client's codec is received by the server's codec as the
  same value of the same type, and the connection stands at the byte after the message.
\<close>

theorem codec_roundtrip:
  assumes "marshal v = Inr (msg, t)" and "length msg < 2 ^ 63" and "length key = 4"
  shows "\<exists>ws ws'. Codec_Send marshal v (client_new [key]) = (None, ws) \<and>
    Codec_Receive unmarshal (target_of v) (server_on (bw_out (ws_wr ws) @ inp) sizes) = (RVal (Inr v), ws') \<and>
    rd_in (ws_rd ws') = inp"
proof -
  have t: "t = TextFrame \<or> t = BinaryFrame" "opcode_ok t" "unmarshal msg t (target_of v) = Inr v"
    using assms(1) by (cases v; auto)+
  obtain bs ws where w: "write_message t msg (client_new [key]) = ((length msg, None), ws)"
    "client_frame (client_header t key) msg bs" "bw_out (ws_wr ws) = bw_out (ws_wr (client_new [key])) @ bs"
    by (rule client_write [of "client_new [key]" key "[]" msg t])
      (use client_new_ok [of "[key]"] assms(2,3) t(2) in \<open>auto simp: conn_new_def newHybiConn_def\<close>)
  have send: "Codec_Send marshal v (client_new [key]) = (None, ws)"
    using assms(1) w(1) by (simp add: Codec_Send_def)
  have out: "bw_out (ws_wr ws) = bs" using w(3) by (simp add: conn_new_def newHybiConn_def)
  have t': "OpCode (client_header t key) = TextFrame \<or> OpCode (client_header t key) = BinaryFrame"
    using t(1) by (simp add: client_header_def)
  obtain fr rs where n: "next_frame (server_on (bs @ inp) sizes) = (RVal fr, rs)" "OpCode (fr_header fr) = t"
    "frame_complete (fr, ws_rd rs)" "frame_rest (fr, ws_rd rs) = msg" "at_frame inp (Some io_EOF) (fr, ws_rd rs)"
    using next_frame_data [OF w(2) t', of inp sizes] by (auto simp: client_header_def)
  obtain fs where r: "ReadAll frame_Read (Suc (length (rd_in (ws_rd rs)))) 512 [] (fr, ws_rd rs) = (RVal (msg, None), fs)"
    "rd_in (snd fs) = inp"
    using ReadAll_at_frame [OF n(5), of 512] n(4) by auto
  have "Codec_Receive unmarshal (target_of v) (server_on (bs @ inp) sizes) = (RVal (Inr v), rs\<lparr>ws_rd := snd fs\<rparr>)"
    using n(1,2) r(1) t(3) by (simp add: Codec_Receive_def PayloadType_def conn_on_def newHybiConn_def)
  with send out r(2) show ?thesis by auto
qed

theorem codec_roundtrip_witness:
  "\<exists>ws ws'. Codec_Send marshal (GString [72, 105]) (client_new [[1, 2, 3, 4]]) = (None, ws) \<and>
    Codec_Receive unmarshal ToString (server_on (bw_out (ws_wr ws) @ [0x88]) [1]) = (RVal (Inr (GString [72, 105])), ws') \<and>
    rd_in (ws_rd ws') = [0x88]"
  using codec_roundtrip [of "GString [72, 105]" "[72, 105]" TextFrame "[1, 2, 3, 4]" "[0x88]" "[1]"] by simp

end
