(* ===== verification/Go_Text.thy ===== *)
theory Go_Text
  imports Prelude "HOL-Library.Char_ord" "HOL-Library.List_Lexorder"
begin

text \<open>
  Texts: what the sources use of the packages strings, strconv and encoding/base64. A Go
  string is a list of characters, one per byte; letters are those of ASCII.
\<close>

section \<open>Bytes and text\<close>

definition bytes_of :: "string \<Rightarrow> bytes" where
  "bytes_of s = map (\<lambda>c. of_nat (of_char c)) s"

definition text_of :: "bytes \<Rightarrow> string" where
  "text_of b = map (\<lambda>w. char_of (unat w)) b"

lemma unat_byte: "unat (w :: byte) < 256"
  using unat_lt_pow [of w] by simp

lemma text_of_bytes_of [simp]: "text_of (bytes_of s) = s"
proof -
  have "unat (of_nat (of_char c) :: byte) = of_char c" for c
    using nat_of_char_less_256 [of c] by (simp add: unsigned_of_nat take_bit_nat_eq_self)
  then show ?thesis by (simp add: bytes_of_def text_of_def comp_def map_idI)
qed

lemma bytes_of_text_of [simp]: "bytes_of (text_of b) = b"
proof -
  have "of_nat (of_char (char_of (unat w))) = w" for w :: byte
    using unat_byte [of w] by (simp add: of_char_of)
  then show ?thesis by (simp add: bytes_of_def text_of_def comp_def map_idI)
qed

lemma bytes_of_append [simp]: "bytes_of (a @ b) = bytes_of a @ bytes_of b"
  by (simp add: bytes_of_def)

lemma text_of_append [simp]: "text_of (a @ b) = text_of a @ text_of b"
  by (simp add: text_of_def)

lemma bytes_of_Nil [simp]: "bytes_of [] = []" "text_of [] = []"
  by (simp_all add: bytes_of_def text_of_def)

lemma bytes_of_eq_iff [simp]: "bytes_of a = bytes_of b \<longleftrightarrow> a = b"
  by (metis text_of_bytes_of)

section \<open>strings\<close>

definition lower_char :: "char \<Rightarrow> char" where
  "lower_char c = (if CHR ''A'' \<le> c \<and> c \<le> CHR ''Z'' then char_of (of_char c + 32 :: nat) else c)"

definition upper_char :: "char \<Rightarrow> char" where
  "upper_char c = (if CHR ''a'' \<le> c \<and> c \<le> CHR ''z'' then char_of (of_char c - 32 :: nat) else c)"

definition ToLower :: "string \<Rightarrow> string" where
  "ToLower s = map lower_char s"

definition is_space :: "char \<Rightarrow> bool" where
  "is_space c \<longleftrightarrow> c = CHR '' '' \<or> (CHR 0x09 \<le> c \<and> c \<le> CHR 0x0D)"

definition trim :: "(char \<Rightarrow> bool) \<Rightarrow> string \<Rightarrow> string" where
  "trim p s = rev (dropWhile p (rev (dropWhile p s)))"

definition TrimSpace :: "string \<Rightarrow> string" where
  "TrimSpace s = trim is_space s"

definition HasPrefix :: "string \<Rightarrow> string \<Rightarrow> bool" where
  "HasPrefix s p \<longleftrightarrow> take (length p) s = p"

definition HasSuffix :: "string \<Rightarrow> string \<Rightarrow> bool" where
  "HasSuffix s p \<longleftrightarrow> length p \<le> length s \<and> drop (length s - length p) s = p"

fun Contains :: "string \<Rightarrow> string \<Rightarrow> bool" where
  "Contains [] t \<longleftrightarrow> t = []"
| "Contains (c # s) t \<longleftrightarrow> HasPrefix (c # s) t \<or> Contains s t"

text \<open>\<open>cut c s\<close> splits at the first c: None when there is none.\<close>

definition cut :: "char \<Rightarrow> string \<Rightarrow> (string \<times> string) option" where
  "cut c s = (if c \<in> set s then Some (takeWhile (\<lambda>x. x \<noteq> c) s, tl (dropWhile (\<lambda>x. x \<noteq> c) s)) else None)"

fun Split :: "char \<Rightarrow> string \<Rightarrow> string list" where
  "Split c [] = [[]]"
| "Split c (x # s) = (if x = c then [] # Split c s
     else case Split c s of [] \<Rightarrow> [[x]] | w # ws \<Rightarrow> (x # w) # ws)"

fun Join :: "string \<Rightarrow> string list \<Rightarrow> string" where
  "Join sep [] = []"
| "Join sep [w] = w"
| "Join sep (w # ws) = w @ sep @ Join sep ws"

text \<open>The index of the last c, -1 when there is none.\<close>

definition LastIndex :: "char \<Rightarrow> string \<Rightarrow> int" where
  "LastIndex c s = int (length s) - 1 - int (length (takeWhile (\<lambda>x. x \<noteq> c) (rev s))) "

definition crlf :: string where "crlf = [CHR 0x0D, CHR 0x0A]"

lemma cut_append [simp]: "c \<notin> set a \<Longrightarrow> cut c (a @ c # b) = Some (a, b)"
  by (induction a) (auto simp: cut_def)

lemma cut_None_iff: "cut c s = None \<longleftrightarrow> c \<notin> set s"
  by (simp add: cut_def)

lemma cut_Some: "cut c s = Some (a, b) \<Longrightarrow> s = a @ c # b \<and> c \<notin> set a"
proof -
  assume *: "cut c s = Some (a, b)"
  then have "c \<in> set s" "a = takeWhile (\<lambda>x. x \<noteq> c) s" "b = tl (dropWhile (\<lambda>x. x \<noteq> c) s)"
    by (auto simp: cut_def split: if_splits)
  moreover from this(1) have "dropWhile (\<lambda>x. x \<noteq> c) s = c # tl (dropWhile (\<lambda>x. x \<noteq> c) s)"
    by (induction s) auto
  ultimately show ?thesis
    by (metis takeWhile_dropWhile_id set_takeWhileD)
qed

lemma LastIndex_none: "c \<notin> set s \<Longrightarrow> LastIndex c s = -1"
proof -
  assume "c \<notin> set s"
  then have "length (takeWhile (\<lambda>x. x \<noteq> c) (rev s)) = length s"
    by (subst takeWhile_eq_all_conv [THEN iffD2]) auto
  then show ?thesis by (simp add: LastIndex_def)
qed

lemma LastIndex_append: "c \<notin> set b \<Longrightarrow> LastIndex c (a @ c # b) = int (length a)"
proof -
  assume "c \<notin> set b"
  then have "takeWhile (\<lambda>x. x \<noteq> c) (rev b @ c # rev a) = rev b"
    by (subst takeWhile_append2) auto
  then show ?thesis by (simp add: LastIndex_def)
qed

lemma HasPrefix_append [simp]: "HasPrefix (p @ s) p"
  by (simp add: HasPrefix_def)

lemma HasPrefix_iff: "HasPrefix s p \<longleftrightarrow> (\<exists>t. s = p @ t)"
  by (metis HasPrefix_def HasPrefix_append append_take_drop_id)

lemma HasSuffix_iff: "HasSuffix s p \<longleftrightarrow> (\<exists>t. s = t @ p)"
  by (metis HasSuffix_def append_take_drop_id le_add2 length_append add_diff_cancel_right' append_eq_conv_conj)

lemma trim_id: "s = [] \<or> (\<not> p (hd s) \<and> \<not> p (last s)) \<Longrightarrow> trim p s = s"
proof -
  have d: "dropWhile p t = t" if "t = [] \<or> \<not> p (hd t)" for t
    using that by (cases t) auto
  assume "s = [] \<or> (\<not> p (hd s) \<and> \<not> p (last s))"
  then have "dropWhile p s = s" "dropWhile p (rev s) = rev s"
    by (auto intro!: d simp: hd_rev)
  then show ?thesis by (simp add: trim_def)
qed

section \<open>encoding/base64\<close>

definition StdEncoding :: string where
  "StdEncoding = ''ABCDEFGHIJKLMNOPQRSTUVWXYZabcdefghijklmnopqrstuvwxyz0123456789+/''"

definition URLEncoding :: string where
  "URLEncoding = ''ABCDEFGHIJKLMNOPQRSTUVWXYZabcdefghijklmnopqrstuvwxyz0123456789-_''"

fun base64 :: "string \<Rightarrow> bytes \<Rightarrow> string" where
  "base64 al [] = []"
| "base64 al [a] = [al ! (unat a div 4), al ! (unat a mod 4 * 16), CHR ''='', CHR ''='']"
| "base64 al [a, b] = [al ! (unat a div 4), al ! (unat a mod 4 * 16 + unat b div 16),
     al ! (unat b mod 16 * 4), CHR ''='']"
| "base64 al (a # b # c # s) = al ! (unat a div 4) # al ! (unat a mod 4 * 16 + unat b div 16)
     # al ! (unat b mod 16 * 4 + unat c div 64) # al ! (unat c mod 64) # base64 al s"

text \<open>The value of a character: None outside of the alphabet.\<close>

fun index_of :: "'a list \<Rightarrow> 'a \<Rightarrow> nat option" where
  "index_of [] c = None"
| "index_of (x # xs) c = (if x = c then Some 0 else map_option Suc (index_of xs c))"

text \<open>
  DecodeString on text without line breaks: groups of four, padding only in the last. Like
  the library it ignores the spare bits of a padded group.
\<close>

fun base64_decode :: "string \<Rightarrow> string \<Rightarrow> bytes option" where
  "base64_decode al [] = Some []"
| "base64_decode al (w # x # y # z # s) =
     (case (index_of al w, index_of al x) of
        (Some i, Some j) \<Rightarrow>
          if y = CHR ''='' \<and> z = CHR ''='' \<and> s = [] then Some [of_nat (i * 4 + j div 16)]
          else (case index_of al y of
                  None \<Rightarrow> None
                | Some k \<Rightarrow>
                    if z = CHR ''='' \<and> s = [] then Some [of_nat (i * 4 + j div 16), of_nat (j mod 16 * 16 + k div 4)]
                    else (case (index_of al z, base64_decode al s) of
                            (Some l, Some r) \<Rightarrow> Some (of_nat (i * 4 + j div 16) # of_nat (j mod 16 * 16 + k div 4)
                               # of_nat (k mod 4 * 64 + l) # r)
                          | _ \<Rightarrow> None))
      | _ \<Rightarrow> None)"
| "base64_decode al s = None"

lemma index_of_nth: "distinct al \<Longrightarrow> i < length al \<Longrightarrow> index_of al (al ! i) = Some i"
proof (induction al arbitrary: i)
  case (Cons a al)
  then show ?case by (cases i) auto
qed simp

lemma index_of_None: "c \<notin> set al \<Longrightarrow> index_of al c = None"
  by (induction al) auto

text \<open>An alphabet: 64 different characters, the padding not among them.\<close>

definition alphabet :: "string \<Rightarrow> bool" where
  "alphabet al \<longleftrightarrow> length al = 64 \<and> distinct al \<and> CHR ''='' \<notin> set al"

lemma alphabet_Std: "alphabet StdEncoding"
  by (simp add: alphabet_def StdEncoding_def)

lemma alphabet_URL: "alphabet URLEncoding"
  by (simp add: alphabet_def URLEncoding_def)

lemma base64_set: "alphabet al \<Longrightarrow> set (base64 al b) \<subseteq> insert (CHR ''='') (set al)"
proof (induction al b rule: base64.induct)
  case (2 al a)
  then show ?case using unat_byte [of a] by (auto simp: alphabet_def)
next
  case (3 al a b)
  then show ?case using unat_byte [of a] unat_byte [of b] by (auto simp: alphabet_def)
next
  case (4 al a b c s)
  then show ?case using unat_byte [of a] unat_byte [of b] unat_byte [of c]
    by (auto simp: alphabet_def)
qed simp

lemma alphabet_pad: "alphabet al \<Longrightarrow> i < 64 \<Longrightarrow> al ! i \<noteq> CHR ''=''"
  unfolding alphabet_def by (metis nth_mem)

lemma byte_of_parts: "of_nat (unat a div 4 * 4 + (unat a mod 4 * 16 + y) div 16) = a" if "y < 16"
  for a :: byte
proof -
  have "unat a div 4 * 4 + (unat a mod 4 * 16 + y) div 16 = unat a" using that by simp
  then show ?thesis by simp
qed

lemma byte_of_parts2: "of_nat ((x * 16 + unat b div 16) mod 16 * 16 + (unat b mod 16 * 4 + y) div 4) = b" if "y < 4"
  for b :: byte
proof -
  have "unat b div 16 < 16" using unat_byte [of b] by simp
  then have "(x * 16 + unat b div 16) mod 16 * 16 + (unat b mod 16 * 4 + y) div 4 = unat b" using that by simp
  then show ?thesis by simp
qed

lemma byte_of_parts3: "of_nat ((x * 4 + unat c div 64) mod 4 * 64 + unat c mod 64) = c"
  for c :: byte
proof -
  have "unat c div 64 < 4" using unat_byte [of c] by simp
  then have "(x * 4 + unat c div 64) mod 4 * 64 + unat c mod 64 = unat c" by simp
  then show ?thesis by simp
qed

lemma base64_roundtrip: "alphabet al \<Longrightarrow> base64_decode al (base64 al b) = Some b"
proof (induction al b rule: base64.induct)
  case (2 al a)
  have "unat a div 4 < 64" "unat a mod 4 * 16 < 64" using unat_byte [of a] by auto
  then show ?case using 2 byte_of_parts [of 0 a] by (simp add: alphabet_def index_of_nth)
next
  case (3 al a b)
  have l: "unat a div 4 < 64" "unat a mod 4 * 16 + unat b div 16 < 64" "unat b mod 16 * 4 < 64" "unat b div 16 < 16"
    using unat_byte [of a] unat_byte [of b] by auto
  moreover have "al ! (unat b mod 16 * 4) \<noteq> CHR ''=''"
    using 3 l(3) alphabet_pad by blast
  ultimately show ?case
    using 3 byte_of_parts [of "unat b div 16" a] byte_of_parts2 [of 0 "unat a mod 4" b]
    by (simp add: alphabet_def index_of_nth)
next
  case (4 al a b c s)
  have l: "unat a div 4 < 64" "unat a mod 4 * 16 + unat b div 16 < 64" "unat b mod 16 * 4 + unat c div 64 < 64"
    "unat c mod 64 < 64" "unat b div 16 < 16" "unat c div 64 < 4"
    using unat_byte [of a] unat_byte [of b] unat_byte [of c] by auto
  moreover have "al ! (unat b mod 16 * 4 + unat c div 64) \<noteq> CHR ''=''" "al ! (unat c mod 64) \<noteq> CHR ''=''"
    using 4(2) l(3,4) alphabet_pad by blast+
  ultimately show ?case
    using 4 byte_of_parts [of "unat b div 16" a] byte_of_parts2 [of "unat c div 64" "unat a mod 4" b]
      byte_of_parts3 [of "unat b mod 16" c]
    by (simp add: alphabet_def index_of_nth)
qed simp

declare index_of.simps [simp del]

end
