(* ===== verification/Go_Http.thy ===== *)
theory Go_Http
  imports Go_Text Ws_Io
begin

text \<open>
  What the sources use of net/http: headers with canonical keys, requests and responses, and
  the reading of a message's start line and header from a buffered reader. The contents of a
  URL are its fields and the results of its methods.
\<close>

section \<open>Errors as text\<close>

fun error_string :: "werror \<Rightarrow> string" where
  "error_string io_EOF = ''EOF''"
| "error_string io_ErrUnexpectedEOF = ''unexpected EOF''"
| "error_string (ProtocolError s) = s"
| "error_string (OtherError s) = s"

section \<open>Headers\<close>

definition is_token :: "char \<Rightarrow> bool" where
  "is_token c \<longleftrightarrow> (CHR ''a'' \<le> c \<and> c \<le> CHR ''z'') \<or> (CHR ''A'' \<le> c \<and> c \<le> CHR ''Z'') \<or>
     (CHR ''0'' \<le> c \<and> c \<le> CHR ''9'') \<or> c \<in> set ''!#$%&*+-.^_`|~'' \<or> c = CHR 0x27"

fun canon :: "bool \<Rightarrow> string \<Rightarrow> string" where
  "canon up [] = []"
| "canon up (c # s) = (if up then upper_char c else lower_char c) # canon (c = CHR ''-'') s"

definition canonicalKey :: "string \<Rightarrow> string" where
  "canonicalKey k = (if list_all is_token k then canon True k else k)"

type_synonym header = "(string \<times> string list) list"

definition hdr_values :: "header \<Rightarrow> string \<Rightarrow> string list" where
  "hdr_values h k = (case map_of h (canonicalKey k) of None \<Rightarrow> [] | Some vs \<Rightarrow> vs)"

definition hdr_Get :: "header \<Rightarrow> string \<Rightarrow> string" where
  "hdr_Get h k = (case hdr_values h k of [] \<Rightarrow> [] | v # vs \<Rightarrow> v)"

definition hdr_Set :: "string \<Rightarrow> string \<Rightarrow> header \<Rightarrow> header" where
  "hdr_Set k v h = AList.update (canonicalKey k) [v] h"

definition hdr_Add :: "string \<Rightarrow> string \<Rightarrow> header \<Rightarrow> header" where
  "hdr_Add k v h = AList.update (canonicalKey k) (hdr_values h k @ [v]) h"

definition hdr_Del :: "string \<Rightarrow> header \<Rightarrow> header" where
  "hdr_Del k h = AList.delete (canonicalKey k) h"

definition clean_value :: "string \<Rightarrow> string" where
  "clean_value v = trim (\<lambda>c. c = CHR '' '' \<or> c = CHR 0x09)
     (map (\<lambda>c. if c = CHR 0x0A \<or> c = CHR 0x0D then CHR '' '' else c) v)"

text \<open>The lines WriteSubset writes: keys in order, the excluded ones left out.\<close>

definition hdr_lines :: "string list \<Rightarrow> header \<Rightarrow> (string \<times> string) list" where
  "hdr_lines excl h = concat (map (\<lambda>(k, vs). map (\<lambda>v. (k, clean_value v)) vs)
     (sort_key fst (filter (\<lambda>(k, vs). k \<notin> set excl) h)))"

definition print_lines :: "(string \<times> string) list \<Rightarrow> string" where
  "print_lines ls = concat (map (\<lambda>(k, v). k @ '': '' @ v @ crlf) ls)"

definition WriteSubset :: "string list \<Rightarrow> header \<Rightarrow> string" where
  "WriteSubset excl h = print_lines (hdr_lines excl h)"

lemma hdr_values_Add: "hdr_values (hdr_Add k v h) k' =
    (if canonicalKey k' = canonicalKey k then hdr_values h k @ [v] else hdr_values h k')"
  by (simp add: hdr_Add_def hdr_values_def)

lemma hdr_values_cong: "canonicalKey k = canonicalKey k' \<Longrightarrow> hdr_values h k = hdr_values h k'"
  by (simp add: hdr_values_def)

lemma hdr_values_Set: "hdr_values (hdr_Set k v h) k' = (if canonicalKey k' = canonicalKey k then [v] else hdr_values h k')"
  by (simp add: hdr_Set_def hdr_values_def)

lemma hdr_values_Del: "hdr_values (hdr_Del k h) k' = (if canonicalKey k' = canonicalKey k then [] else hdr_values h k')"
  by (simp add: hdr_Del_def hdr_values_def)

lemma hdr_Get_Set: "hdr_Get (hdr_Set k v h) k' = (if canonicalKey k' = canonicalKey k then v else hdr_Get h k')"
  by (simp add: hdr_Get_def hdr_values_Set)

lemma hdr_Get_Del: "hdr_Get (hdr_Del k h) k' = (if canonicalKey k' = canonicalKey k then [] else hdr_Get h k')"
  by (simp add: hdr_Get_def hdr_values_Del)

section \<open>Requests and responses\<close>

record url =
  url_Scheme :: string
  url_Host :: string
  url_Path :: string
  url_RequestURI :: string
  url_String :: string

record body =
  body_id :: nat
  body_data :: bytes
  body_err :: "werror option"

record http_request =
  req_Method :: string
  req_URL :: url
  req_Host :: string
  req_RemoteAddr :: string
  req_RequestURI :: string
  req_Header :: header
  req_Body :: body
  req_TLS :: bool

record http_response =
  resp_StatusCode :: int
  resp_Status :: string
  resp_Header :: header
  resp_Body :: body
  resp_ContentLength :: int

definition no_body :: body where
  "no_body = \<lparr>body_id = 0, body_data = [], body_err = None\<rparr>"

section \<open>Reading a message\<close>

text \<open>A line up to the line feed, without it and one carriage return before it.\<close>

definition strip_cr :: "string \<Rightarrow> string" where
  "strip_cr l = (if l \<noteq> [] \<and> last l = CHR 0x0D then butlast l else l)"

definition read_line :: "rbuf \<Rightarrow> string rres \<times> rbuf" where
  "read_line r = (case cut (CHR 0x0A) (text_of (rd_in r)) of
      None \<Rightarrow> (rd_fail r, r)
    | Some (l, rest) \<Rightarrow> (RVal (strip_cr l), r\<lparr>rd_in := bytes_of rest\<rparr>))"

lemma read_line_less: "read_line r = (RVal l, r') \<Longrightarrow> length (rd_in r') < length (rd_in r)"
proof -
  assume "read_line r = (RVal l, r')"
  then obtain a b where c: "cut (CHR 0x0A) (text_of (rd_in r)) = Some (a, b)" and r': "rd_in r' = bytes_of b"
    by (auto simp: read_line_def rd_fail_def split: option.splits)
  have "length (text_of (rd_in r)) = length (a @ CHR 0x0A # b)" using cut_Some [OF c] by simp
  then show ?thesis by (simp add: r' text_of_def bytes_of_def)
qed

definition header_line :: "string \<Rightarrow> (string \<times> string) option" where
  "header_line l = (case cut (CHR '':'') l of
      None \<Rightarrow> None
    | Some (k, v) \<Rightarrow> if k = [] then None
        else Some (k, trim (\<lambda>c. c = CHR '' '' \<or> c = CHR 0x09) v))"

function read_headers :: "rbuf \<Rightarrow> header \<Rightarrow> header rres \<times> rbuf" where
  "read_headers r h =
     (case read_line r of
        (RVal l, r) \<Rightarrow>
          if l = [] then (RVal h, r)
          else (case header_line l of
                  None \<Rightarrow> (RErr (OtherError (''malformed MIME header line: '' @ l)), r)
                | Some (k, v) \<Rightarrow> read_headers r (hdr_Add k v h))
      | (RErr e, r) \<Rightarrow> (RErr (if e = io_EOF then io_ErrUnexpectedEOF else e), r)
      | (RBlock, r) \<Rightarrow> (RBlock, r))"
  by pat_completeness auto
termination
  by (relation "measure (\<lambda>(r, h). length (rd_in r))") (auto dest: read_line_less [OF sym])

declare read_headers.simps [simp del]

definition hdr_ok :: "string \<times> string \<Rightarrow> bool" where
  "hdr_ok kv \<longleftrightarrow> fst kv \<noteq> [] \<and> CHR '':'' \<notin> set (fst kv) \<and> CHR 0x0A \<notin> set (fst kv) \<and>
     CHR 0x0A \<notin> set (snd kv) \<and> CHR 0x0D \<notin> set (snd kv) \<and>
     trim (\<lambda>c. c = CHR '' '' \<or> c = CHR 0x09) (snd kv) = snd kv"

definition add_line :: "string \<times> string \<Rightarrow> header \<Rightarrow> header" where
  "add_line kv h = hdr_Add (fst kv) (snd kv) h"

lemma read_line_crlf:
  assumes "rd_in r = bytes_of (l @ crlf) @ rest" and "CHR 0x0A \<notin> set l" 
  shows "read_line r = (RVal l, r\<lparr>rd_in := rest\<rparr>)"
proof -
  have "text_of (rd_in r) = (l @ [CHR 0x0D]) @ CHR 0x0A # text_of rest"
    using assms(1) by (simp add: crlf_def del: bytes_of_append flip: bytes_of_append)
  moreover have "CHR 0x0A \<notin> set (l @ [CHR 0x0D])" using assms(2) by simp
  ultimately have "cut (CHR 0x0A) (text_of (rd_in r)) = Some (l @ [CHR 0x0D], text_of rest)"
    by (metis cut_append)
  then show ?thesis by (simp add: read_line_def strip_cr_def)
qed

lemma trim_blank: "trim (\<lambda>c. c = CHR '' '' \<or> c = CHR 0x09) (CHR '' '' # v) = trim (\<lambda>c. c = CHR '' '' \<or> c = CHR 0x09) v"
  by (simp add: trim_def)

lemma header_line_print: "hdr_ok (k, v) \<Longrightarrow> header_line (k @ '': '' @ v) = Some (k, v)"
  by (simp add: header_line_def hdr_ok_def trim_blank)

lemma read_headers_lines:
  "list_all hdr_ok kvs \<Longrightarrow> rd_in r = bytes_of (print_lines kvs @ crlf) @ rest \<Longrightarrow>
    read_headers r h = (RVal (fold add_line kvs h), r\<lparr>rd_in := rest\<rparr>)"
proof (induction kvs arbitrary: r h)
  case Nil
  then have "read_line r = (RVal [], r\<lparr>rd_in := rest\<rparr>)" by (intro read_line_crlf) (auto simp: print_lines_def)
  then show ?case by (subst read_headers.simps) simp
next
  case (Cons kv kvs)
  obtain k v where kv: "kv = (k, v)" by fastforce
  let ?r = "r\<lparr>rd_in := bytes_of (print_lines kvs @ crlf) @ rest\<rparr>"
  have "read_line r = (RVal (k @ '': '' @ v), ?r)"
    using Cons.prems kv by (intro read_line_crlf) (auto simp: print_lines_def hdr_ok_def bytes_of_def)
  moreover have "header_line (k @ '': '' @ v) = Some (k, v)" using Cons.prems kv by (intro header_line_print) simp
  moreover have "read_headers ?r (hdr_Add k v h) = (RVal (fold add_line kvs (hdr_Add k v h)), ?r\<lparr>rd_in := rest\<rparr>)"
    by (rule Cons.IH) (use Cons.prems in auto)
  moreover have "k @ '': '' @ v \<noteq> []" by simp
  ultimately show ?case by (subst read_headers.simps) (simp add: kv add_line_def)
qed

lemma hdr_values_add_lines:
  "hdr_values (fold add_line kvs h) k = hdr_values h k @ map snd (filter (\<lambda>kv. canonicalKey (fst kv) = canonicalKey k) kvs)"
proof (induction kvs arbitrary: h)
  case (Cons kv kvs)
  then show ?case by (simp add: add_line_def hdr_values_Add) (metis hdr_values_cong)
qed simp

text \<open>The status line: protocol, three digits, reason.\<close>

fun digits_value :: "nat \<Rightarrow> string \<Rightarrow> nat option" where
  "digits_value n [] = Some n"
| "digits_value n (c # s) = (if CHR ''0'' \<le> c \<and> c \<le> CHR ''9''
     then digits_value (n * 10 + (of_char c - 48)) s else None)"

definition status_line :: "string \<Rightarrow> (nat \<times> string) option" where
  "status_line l = (case cut (CHR '' '') l of
      None \<Rightarrow> None
    | Some (proto, status) \<Rightarrow>
        let code = takeWhile (\<lambda>c. c \<noteq> CHR '' '') status
        in if HasPrefix proto ''HTTP/'' \<and> length code = 3
           then map_option (\<lambda>n. (n, status)) (digits_value 0 code) else None)"

text \<open>http.ReadResponse, up to the body; a wait is retried from the start.\<close>

definition ReadResponse :: "rbuf \<Rightarrow> (nat \<times> string \<times> header) rres \<times> rbuf" where
  "ReadResponse r0 =
     (case read_line r0 of
        (RErr e, r) \<Rightarrow> (RErr (if e = io_EOF then io_ErrUnexpectedEOF else e), r)
      | (RBlock, r) \<Rightarrow> (RBlock, r0)
      | (RVal l, r) \<Rightarrow>
          (case status_line l of
             None \<Rightarrow> (RErr (OtherError ''malformed HTTP response''), r)
           | Some (code, status) \<Rightarrow>
               (case read_headers r [] of
                  (RVal h, r) \<Rightarrow> (RVal (code, status, h), r)
                | (RErr e, r) \<Rightarrow> (RErr e, r)
                | (RBlock, r) \<Rightarrow> (RBlock, r0))))"

text \<open>http.ReadRequest for a request without body; the Host header is moved to its field.\<close>

definition request_line :: "string \<Rightarrow> (string \<times> string \<times> string) option" where
  "request_line l = (case cut (CHR '' '') l of
      None \<Rightarrow> None
    | Some (m, rest) \<Rightarrow> (case cut (CHR '' '') rest of
          None \<Rightarrow> None
        | Some (uri, proto) \<Rightarrow> if HasPrefix proto ''HTTP/'' then Some (m, uri, proto) else None))"

definition ReadRequest :: "rbuf \<Rightarrow> (string \<times> string \<times> string \<times> header) rres \<times> rbuf" where
  "ReadRequest r0 =
     (case read_line r0 of
        (RErr e, r) \<Rightarrow> (RErr e, r)
      | (RBlock, r) \<Rightarrow> (RBlock, r0)
      | (RVal l, r) \<Rightarrow>
          (case request_line l of
             None \<Rightarrow> (RErr (OtherError ''malformed HTTP request''), r)
           | Some (m, uri, proto) \<Rightarrow>
               (case read_headers r [] of
                  (RVal h, r) \<Rightarrow> (RVal (m, uri, hdr_Get h ''Host'', hdr_Del ''Host'' h), r)
                | (RErr e, r) \<Rightarrow> (RErr e, r)
                | (RBlock, r) \<Rightarrow> (RBlock, r0))))"

end
