(* ===== verification/Gp_Dispatch.thy ===== *)
theory Gp_Dispatch
  imports Go_Http
begin

text \<open>
  goproxy: the context of a request (ctx.go), the handler types (actions.go), the conditions
  and the registration of handlers (dispatcher.go), canned responses (responses.go).

  Requests and responses are reached through pointers: handlers may change them in place and
  keep them in the context. A pointer is a number, the stores are \<open>reqs\<close> and \<open>resps\<close> of the
  context; nil is None where the code allows it. Regular expressions, which are values of the
  library regexp, are their match functions.
\<close>

section \<open>Context and handlers\<close>

record ('r, 'u) pctx =
  reqs :: "nat \<Rightarrow> http_request"
  resps :: "nat \<Rightarrow> http_response"
  ctx_Req :: nat
  ctx_Resp :: "nat option"
  ctx_RoundTripper :: "'r option"
  ctx_Error :: "werror option"
  ctx_UserData :: "'u option"
  ctx_Session :: i64

type_synonym ('r, 'u) req_handler = "nat \<Rightarrow> ('r, 'u) pctx \<Rightarrow> (nat option \<times> nat option) \<times> ('r, 'u) pctx"
type_synonym ('r, 'u) resp_handler = "nat option \<Rightarrow> ('r, 'u) pctx \<Rightarrow> nat option \<times> ('r, 'u) pctx"
type_synonym ('r, 'u) req_cond = "nat \<Rightarrow> ('r, 'u) pctx \<Rightarrow> bool"

datatype connect_literal = ConnectAccept | ConnectReject | ConnectMitm | ConnectHijack | ConnectHTTPMitm

text \<open>The TLS configuration, the certificate authority and the hijacking function are pointers.\<close>

record connect_action =
  ca_Action :: connect_literal
  ca_TlsConfig :: "nat option"
  ca_Ca :: "nat option"
  ca_Hijack :: "nat option"

definition action_only :: "connect_literal \<Rightarrow> connect_action" where
  "action_only a = \<lparr>ca_Action = a, ca_TlsConfig = None, ca_Ca = None, ca_Hijack = None\<rparr>"

definition OkConnect :: connect_action where "OkConnect = action_only ConnectAccept"
definition MitmConnect :: connect_action where "MitmConnect = action_only ConnectMitm"
definition HTTPMitmConnect :: connect_action where "HTTPMitmConnect = action_only ConnectHTTPMitm"
definition RejectConnect :: connect_action where "RejectConnect = action_only ConnectReject"

type_synonym ('r, 'u) https_handler =
  "string \<Rightarrow> ('r, 'u) pctx \<Rightarrow> (connect_action option \<times> string) \<times> ('r, 'u) pctx"

record ('r, 'u) proxy =
  px_sess :: i64
  reqHandlers :: "('r, 'u) req_handler list"
  respHandlers :: "('r, 'u) resp_handler list"
  httpsHandlers :: "('r, 'u) https_handler list"

definition NewProxyHttpServer :: "('r, 'u) proxy" where
  "NewProxyHttpServer = \<lparr>px_sess = 0, reqHandlers = [], respHandlers = [], httpsHandlers = []\<rparr>"

text \<open>ctx.RoundTrip: the RoundTripper a handler has set, else the proxy's transport.\<close>

definition ctx_RoundTrip :: "('r \<Rightarrow> nat \<Rightarrow> ('r, 'u) pctx \<Rightarrow> (werror + nat) \<times> ('r, 'u) pctx)
    \<Rightarrow> (nat \<Rightarrow> ('r, 'u) pctx \<Rightarrow> (werror + nat) \<times> ('r, 'u) pctx)
    \<Rightarrow> nat \<Rightarrow> ('r, 'u) pctx \<Rightarrow> (werror + nat) \<times> ('r, 'u) pctx" where
  "ctx_RoundTrip call tr req ctx = (case ctx_RoundTripper ctx of Some r \<Rightarrow> call r req ctx | None \<Rightarrow> tr req ctx)"

section \<open>ctx.Charset\<close>

text \<open>The expression \<open>charset=([^ ;]*)\<close>: the first place where it matches.\<close>

fun find_charset :: "string \<Rightarrow> string option" where
  "find_charset [] = None"
| "find_charset (c # s) =
     (if HasPrefix (c # s) ''charset='' then Some (takeWhile (\<lambda>c. c \<noteq> CHR '' '' \<and> c \<noteq> CHR '';'') (drop 8 (c # s)))
      else find_charset s)"

definition Charset :: "('r, 'u) pctx \<Rightarrow> string outcome" where
  "Charset ctx = (case ctx_Resp ctx of
      None \<Rightarrow> Panic ''nil pointer dereference''
    | Some p \<Rightarrow> Ret (case find_charset (hdr_Get (resp_Header (resps ctx p)) ''Content-Type'') of None \<Rightarrow> [] | Some s \<Rightarrow> s))"

section \<open>Conditions on requests\<close>

definition UrlHasPrefix :: "string \<Rightarrow> ('r, 'u) req_cond" where
  "UrlHasPrefix pre r ctx =
     (let u = req_URL (reqs ctx r) in
      HasPrefix (url_Path u) pre \<or> HasPrefix (url_Host u @ ''/'' @ url_Path u) pre
      \<or> HasPrefix (url_Scheme u @ url_Host u @ url_Path u) pre)"

definition UrlIs :: "string list \<Rightarrow> ('r, 'u) req_cond" where
  "UrlIs urls r ctx =
     (let u = req_URL (reqs ctx r); urlSet = fold (\<lambda>u m. m(u \<mapsto> True)) urls Map.empty in
      urlSet (url_Path u) \<noteq> None \<or> urlSet (url_Host u @ url_Path u) \<noteq> None)"

definition ReqHostMatches :: "(string \<Rightarrow> bool) list \<Rightarrow> ('r, 'u) req_cond" where
  "ReqHostMatches regexps r ctx = list_ex (\<lambda>re. re (req_Host (reqs ctx r))) regexps"

definition ReqHostIs :: "string list \<Rightarrow> ('r, 'u) req_cond" where
  "ReqHostIs hosts r ctx =
     (fold (\<lambda>h m. m(h \<mapsto> True)) hosts Map.empty (url_Host (req_URL (reqs ctx r))) \<noteq> None)"

definition is_digit :: "char \<Rightarrow> bool" where
  "is_digit c \<longleftrightarrow> CHR ''0'' \<le> c \<and> c \<le> CHR ''9''"

text \<open>The expression \<open>127\.0\.0\.\d+\<close>, which may match anywhere in the text.\<close>

fun localHostIpv4 :: "string \<Rightarrow> bool" where
  "localHostIpv4 [] \<longleftrightarrow> False"
| "localHostIpv4 (c # s) \<longleftrightarrow>
     (HasPrefix (c # s) ''127.0.0.'' \<and> (case drop 8 (c # s) of [] \<Rightarrow> False | d # _ \<Rightarrow> is_digit d)) \<or> localHostIpv4 s"

definition IsLocalHost :: "('r, 'u) req_cond" where
  "IsLocalHost r ctx =
     (let h = url_Host (req_URL (reqs ctx r)) in
      h = ''::1'' \<or> h = ''0:0:0:0:0:0:0:1'' \<or> localHostIpv4 h \<or> h = ''localhost'')"

definition UrlMatches :: "(string \<Rightarrow> bool) \<Rightarrow> ('r, 'u) req_cond" where
  "UrlMatches re r ctx =
     (let u = req_URL (reqs ctx r) in re (url_Path u) \<or> re (url_Host u @ url_Path u))"

definition DstHostIs :: "string \<Rightarrow> ('r, 'u) req_cond" where
  "DstHostIs host r ctx \<longleftrightarrow> url_Host (req_URL (reqs ctx r)) = host"

definition SrcIpIs :: "string \<Rightarrow> ('r, 'u) req_cond" where
  "SrcIpIs ip r ctx = HasPrefix (req_RemoteAddr (reqs ctx r)) (ip @ '':'')"

definition cond_Not :: "('r, 'u) req_cond \<Rightarrow> ('r, 'u) req_cond" where
  "cond_Not c r ctx \<longleftrightarrow> \<not> c r ctx"

section \<open>Conditions on responses\<close>

text \<open>A request condition used on a response looks at the request of the context.\<close>

datatype ('r, 'u) resp_cond = OnReq "('r, 'u) req_cond" | OnResp "nat option \<Rightarrow> ('r, 'u) pctx \<Rightarrow> bool"

fun HandleResp :: "('r, 'u) resp_cond \<Rightarrow> nat option \<Rightarrow> ('r, 'u) pctx \<Rightarrow> bool" where
  "HandleResp (OnReq c) resp ctx = c (ctx_Req ctx) ctx"
| "HandleResp (OnResp c) resp ctx = c resp ctx"

definition ContentTypeIs :: "string \<Rightarrow> string list \<Rightarrow> ('r, 'u) resp_cond" where
  "ContentTypeIs typ types = OnResp (\<lambda>resp ctx. case resp of
      None \<Rightarrow> False
    | Some p \<Rightarrow>
        let contentType = hdr_Get (resp_Header (resps ctx p)) ''Content-Type''
        in list_ex (\<lambda>t. contentType = t \<or> HasPrefix contentType (t @ '';'')) (types @ [typ]))"

section \<open>Registration\<close>

text \<open>OnRequest(conds).Do(h), HandleConnect(h), HijackConnect(f) and OnResponse(conds).Do(h).\<close>

definition cond_req_handler :: "('r, 'u) req_cond list \<Rightarrow> ('r, 'u) req_handler \<Rightarrow> ('r, 'u) req_handler" where
  "cond_req_handler conds h r ctx = (if list_all (\<lambda>c. c r ctx) conds then h r ctx else ((Some r, None), ctx))"

definition Do_request :: "('r, 'u) req_cond list \<Rightarrow> ('r, 'u) req_handler \<Rightarrow> ('r, 'u) proxy \<Rightarrow> ('r, 'u) proxy" where
  "Do_request conds h p = p\<lparr>reqHandlers := reqHandlers p @ [cond_req_handler conds h]\<rparr>"

definition cond_https_handler :: "('r, 'u) req_cond list \<Rightarrow> ('r, 'u) https_handler \<Rightarrow> ('r, 'u) https_handler" where
  "cond_https_handler conds h host ctx =
     (if list_all (\<lambda>c. c (ctx_Req ctx) ctx) conds then h host ctx else ((None, []), ctx))"

definition HandleConnect :: "('r, 'u) req_cond list \<Rightarrow> ('r, 'u) https_handler \<Rightarrow> ('r, 'u) proxy \<Rightarrow> ('r, 'u) proxy" where
  "HandleConnect conds h p = p\<lparr>httpsHandlers := httpsHandlers p @ [cond_https_handler conds h]\<rparr>"

definition HijackConnect :: "('r, 'u) req_cond list \<Rightarrow> nat \<Rightarrow> ('r, 'u) proxy \<Rightarrow> ('r, 'u) proxy" where
  "HijackConnect conds f p = p\<lparr>httpsHandlers := httpsHandlers p @
     [cond_https_handler conds (\<lambda>host ctx. ((Some ((action_only ConnectHijack)\<lparr>ca_Hijack := Some f\<rparr>), host), ctx))]\<rparr>"

definition cond_resp_handler :: "('r, 'u) req_cond list \<Rightarrow> ('r, 'u) resp_cond list \<Rightarrow> ('r, 'u) resp_handler
    \<Rightarrow> ('r, 'u) resp_handler" where
  "cond_resp_handler reqConds respConds h resp ctx =
     (if \<not> list_all (\<lambda>c. c (ctx_Req ctx) ctx) reqConds then (resp, ctx)
      else if \<not> list_all (\<lambda>c. HandleResp c resp ctx) respConds then (resp, ctx)
      else h resp ctx)"

definition Do_response :: "('r, 'u) resp_cond list \<Rightarrow> ('r, 'u) resp_handler \<Rightarrow> ('r, 'u) proxy \<Rightarrow> ('r, 'u) proxy" where
  "Do_response conds h p = p\<lparr>respHandlers := respHandlers p @ [cond_resp_handler [] conds h]\<rparr>"

definition AlwaysMitm :: "('r, 'u) https_handler" where
  "AlwaysMitm host ctx = ((Some MitmConnect, host), ctx)"

definition AlwaysReject :: "('r, 'u) https_handler" where
  "AlwaysReject host ctx = ((Some RejectConnect, host), ctx)"

section \<open>Bodies and canned responses\<close>

text \<open>A fresh body has an identity of its own, given by the caller.\<close>

definition buffer_body :: "nat \<Rightarrow> bytes \<Rightarrow> body" where
  "buffer_body i b = \<lparr>body_id = i, body_data = b, body_err = None\<rparr>"

definition NewResponse :: "nat \<Rightarrow> string \<Rightarrow> int \<Rightarrow> string \<Rightarrow> http_response" where
  "NewResponse i contentType status text =
     \<lparr>resp_StatusCode = status, resp_Status = [], resp_Header = hdr_Add ''Content-Type'' contentType [],
      resp_Body = buffer_body i (bytes_of text), resp_ContentLength = int (length (bytes_of text))\<rparr>"

definition TextResponse :: "nat \<Rightarrow> string \<Rightarrow> http_response" where
  "TextResponse i text = NewResponse i ''text/plain'' 202 text"

definition set_resp :: "nat \<Rightarrow> http_response \<Rightarrow> ('r, 'u) pctx \<Rightarrow> ('r, 'u) pctx" where
  "set_resp p x ctx = ctx\<lparr>resps := (resps ctx)(p := x)\<rparr>"

definition set_req :: "nat \<Rightarrow> http_request \<Rightarrow> ('r, 'u) pctx \<Rightarrow> ('r, 'u) pctx" where
  "set_req p x ctx = ctx\<lparr>reqs := (reqs ctx)(p := x)\<rparr>"

text \<open>
  HandleBytes reads the whole body and puts a new one in its place; a read error leaves the
  response (its body read up to there).
\<close>

definition HandleBytes :: "(bytes \<Rightarrow> ('r, 'u) pctx \<Rightarrow> bytes) \<Rightarrow> nat \<Rightarrow> nat option \<Rightarrow> ('r, 'u) pctx
    \<Rightarrow> (nat option \<times> ('r, 'u) pctx) outcome" where
  "HandleBytes f fresh resp ctx =
     (case resp of
        None \<Rightarrow> Panic ''nil pointer dereference''
      | Some p \<Rightarrow>
          let x = resps ctx p in
          (case body_err (resp_Body x) of
             Some e \<Rightarrow> Ret (Some p, set_resp p (x\<lparr>resp_Body := (resp_Body x)\<lparr>body_data := []\<rparr>\<rparr>) ctx)
           | None \<Rightarrow> Ret (Some p, set_resp p (x\<lparr>resp_Body := buffer_body fresh (f (body_data (resp_Body x)) ctx)\<rparr>) ctx)))"

section \<open>Properties of the conditions\<close>

lemma fold_set_dom: "(fold (\<lambda>u m. m(u \<mapsto> True)) us m x \<noteq> None) \<longleftrightarrow> x \<in> set us \<or> m x \<noteq> None"
proof (induction us arbitrary: m)
  case (Cons u us)
  from Cons.IH [of "m(u \<mapsto> True)"] show ?case by auto
qed simp

lemma HasPrefix_Cons: "HasPrefix (c # s) (d # t) \<longleftrightarrow> c = d \<and> HasPrefix s t"
  by (auto simp: HasPrefix_def)

lemma HasPrefix_same: "HasPrefix (a @ s) (a @ t) \<longleftrightarrow> HasPrefix s t"
  by (auto simp: HasPrefix_iff)

text \<open>
  The set of a request condition decides by membership: UrlIs holds exactly for a path in
  the list or a host and path in the list, and ReqHostIs exactly for a host in the list.
\<close>

theorem url_conditions_are_membership:
  "(UrlIs urls r ctx \<longleftrightarrow> url_Path (req_URL (reqs ctx r)) \<in> set urls \<or>
      url_Host (req_URL (reqs ctx r)) @ url_Path (req_URL (reqs ctx r)) \<in> set urls) \<and>
   (ReqHostIs hosts r ctx \<longleftrightarrow> url_Host (req_URL (reqs ctx r)) \<in> set hosts)"
  by (simp only: UrlIs_def ReqHostIs_def Let_def fold_set_dom) simp

text \<open>
  UrlHasPrefix does not do what its comment promises: for a request to http://host/x the
  prefix host/x does not match (for a host that does not start with a slash or with the
  scheme's first letter), because the path already has its slash and one more is put before it.
\<close>

theorem UrlHasPrefix_misses:
  assumes "req_URL (reqs ctx r) = \<lparr>url_Scheme = s # scheme, url_Host = h # host, url_Path = CHR ''/'' # x # path,
      url_RequestURI = uri, url_String = str\<rparr>"
    and "h \<noteq> CHR ''/''" and "h \<noteq> s" and "x \<noteq> CHR ''/''"
  shows "\<not> UrlHasPrefix ((h # host) @ ''/'' @ x # path) r ctx"
  using assms by (simp add: UrlHasPrefix_def Let_def HasPrefix_Cons HasPrefix_same)

text \<open>
  IsLocalHost takes hosts for local that are not: its expression is not anchored, so any
  host that contains 127.0.0. and a digit matches, whatever is around it.
\<close>

theorem IsLocalHost_unanchored:
  assumes "url_Host (req_URL (reqs ctx r)) = a @ ''127.0.0.'' @ d # b" and "is_digit d"
  shows "IsLocalHost r ctx"
proof -
  have "localHostIpv4 (a @ ''127.0.0.'' @ d # b)"
  proof (induction a)
    case Nil
    then show ?case using assms(2) by (simp add: HasPrefix_Cons HasPrefix_def)
  qed simp
  then show ?thesis using assms(1) by (simp add: IsLocalHost_def Let_def)
qed

definition demo_request :: "string \<Rightarrow> string \<Rightarrow> header \<Rightarrow> http_request" where
  "demo_request host path h = \<lparr>req_Method = ''GET'', req_URL = \<lparr>url_Scheme = ''http'', url_Host = host,
     url_Path = path, url_RequestURI = path, url_String = ''http://'' @ host @ path\<rparr>, req_Host = host,
     req_RemoteAddr = ''1.2.3.4:5'', req_RequestURI = path, req_Header = h, req_Body = no_body, req_TLS = False\<rparr>"

definition demo_ctx :: "http_request \<Rightarrow> (nat, nat) pctx" where
  "demo_ctx req = \<lparr>reqs = (\<lambda>p. req), resps = (\<lambda>p. TextResponse 0 []), ctx_Req = 0, ctx_Resp = None,
     ctx_RoundTripper = None, ctx_Error = None, ctx_UserData = None, ctx_Session = 1\<rparr>"

theorem UrlHasPrefix_misses_witness:
  "\<not> UrlHasPrefix ''google.com/x'' 0 (demo_ctx (demo_request ''google.com'' ''/x'' []))"
  using UrlHasPrefix_misses [of "demo_ctx (demo_request ''google.com'' ''/x'' [])" 0 "CHR ''h''" "''ttp''" "CHR ''g''" "''oogle.com''"
      "CHR ''x''" "[]" "''/x''" "''http://google.com/x''"]
  by (simp add: demo_ctx_def demo_request_def)

theorem IsLocalHost_unanchored_witness:
  "IsLocalHost 0 (demo_ctx (demo_request ''x.127.0.0.1.example.com'' ''/'' []))"
  by (rule IsLocalHost_unanchored [of _ _ "''x.''" "CHR ''1''" "''.example.com''"])
    (simp_all add: demo_ctx_def demo_request_def is_digit_def less_eq_char_def)

end
