(* ===== verification/Gp_Proxy.thy ===== *)
theory Gp_Proxy
  imports Gp_Dispatch
begin

text \<open>
  goproxy/proxy.go: the filters over requests and responses and ServeHTTP for requests other
  than CONNECT, and ext/auth/basic.go, the basic authentication that is registered as a
  request handler and as a CONNECT handler.
\<close>

section \<open>Filters\<close>

text \<open>
  Every handler is given the request the client sent, r, and the loop ends at the first
  response.
\<close>

fun filter_loop :: "('r, 'u) req_handler list \<Rightarrow> nat \<Rightarrow> nat option \<times> nat option \<Rightarrow> ('r, 'u) pctx
    \<Rightarrow> (nat option \<times> nat option) \<times> ('r, 'u) pctx" where
  "filter_loop [] r acc ctx = (acc, ctx)"
| "filter_loop (h # hs) r acc ctx =
     (case h r ctx of ((req, resp), ctx) \<Rightarrow>
        if resp \<noteq> None then ((req, resp), ctx) else filter_loop hs r (req, resp) ctx)"

definition filterRequest :: "('r, 'u) proxy \<Rightarrow> nat \<Rightarrow> ('r, 'u) pctx \<Rightarrow> (nat option \<times> nat option) \<times> ('r, 'u) pctx" where
  "filterRequest p r ctx = filter_loop (reqHandlers p) r (Some r, None) ctx"

fun resp_loop :: "('r, 'u) resp_handler list \<Rightarrow> nat option \<Rightarrow> ('r, 'u) pctx \<Rightarrow> nat option \<times> ('r, 'u) pctx" where
  "resp_loop [] resp ctx = (resp, ctx)"
| "resp_loop (h # hs) resp ctx = (case h resp (ctx\<lparr>ctx_Resp := resp\<rparr>) of (resp, ctx) \<Rightarrow> resp_loop hs resp ctx)"

definition filterResponse :: "('r, 'u) proxy \<Rightarrow> nat option \<Rightarrow> ('r, 'u) pctx \<Rightarrow> nat option \<times> ('r, 'u) pctx" where
  "filterResponse p resp ctx = resp_loop (respHandlers p) resp ctx"

section \<open>Headers\<close>

definition copyHeaders :: "header \<Rightarrow> header \<Rightarrow> header" where
  "copyHeaders dst src =
     fold (\<lambda>(k, vs) h. fold (\<lambda>v. hdr_Add k v) vs h) src (fold (\<lambda>(k, vs). hdr_Del k) dst dst)"

definition removeProxyHeaders :: "nat \<Rightarrow> ('r, 'u) pctx \<Rightarrow> ('r, 'u) pctx" where
  "removeProxyHeaders r ctx =
     (let req = reqs ctx r in
      set_req r (req\<lparr>req_RequestURI := [],
        req_Header := hdr_Del ''Connection'' (hdr_Del ''Proxy-Connection'' (hdr_Del ''Accept-Encoding'' (req_Header req)))\<rparr>) ctx)"

section \<open>ServeHTTP\<close>

record client_writer =
  cw_Header :: header
  cw_Status :: "int option"
  cw_Body :: bytes

definition http_Error :: "client_writer \<Rightarrow> string \<Rightarrow> int \<Rightarrow> client_writer" where
  "http_Error w msg code = w\<lparr>cw_Header := hdr_Set ''Content-Type'' ''text/plain; charset=utf-8'' (cw_Header w),
     cw_Status := Some code, cw_Body := cw_Body w @ bytes_of (msg @ [CHR 0x0A])\<rparr>"

definition send_response :: "('r, 'u) proxy \<Rightarrow> client_writer \<Rightarrow> nat \<Rightarrow> ('r, 'u) pctx
    \<Rightarrow> (client_writer \<times> ('r, 'u) pctx) outcome" where
  "send_response p w x ctx =
     (let origBody = resp_Body (resps ctx x) in
      case filterResponse p (Some x) ctx of
        (None, ctx) \<Rightarrow> Panic ''nil pointer dereference''
      | (Some y, ctx) \<Rightarrow>
          let resp = resps ctx y;
              resp = (if body_id origBody \<noteq> body_id (resp_Body resp)
                then resp\<lparr>resp_Header := hdr_Del ''Content-Length'' (resp_Header resp)\<rparr> else resp)
          in Ret (w\<lparr>cw_Header := copyHeaders (cw_Header w) (resp_Header resp),
                    cw_Status := Some (resp_StatusCode resp),
                    cw_Body := cw_Body w @ body_data (resp_Body resp)\<rparr>, set_resp y resp ctx))"

text \<open>The context of a new request.\<close>

definition new_ctx :: "i64 \<Rightarrow> nat \<Rightarrow> ('r, 'u) pctx \<Rightarrow> ('r, 'u) pctx" where
  "new_ctx sess r st = st\<lparr>ctx_Req := r, ctx_Resp := None, ctx_RoundTripper := None, ctx_Error := None,
     ctx_UserData := None, ctx_Session := sess\<rparr>"

definition ServeHTTP :: "('r \<Rightarrow> nat \<Rightarrow> ('r, 'u) pctx \<Rightarrow> (werror + nat) \<times> ('r, 'u) pctx)
    \<Rightarrow> (nat \<Rightarrow> ('r, 'u) pctx \<Rightarrow> (werror + nat) \<times> ('r, 'u) pctx)
    \<Rightarrow> ('r, 'u) proxy \<Rightarrow> client_writer \<Rightarrow> nat \<Rightarrow> ('r, 'u) pctx
    \<Rightarrow> (client_writer \<times> ('r, 'u) pctx) outcome \<times> ('r, 'u) proxy" where
  "ServeHTTP call tr p w r st =
     (let p = p\<lparr>px_sess := px_sess p + 1\<rparr>; ctx = new_ctx (px_sess p) r st in
      (if url_Scheme (req_URL (reqs ctx r)) = [] then
         Ret (http_Error w ''This is a proxy server, does not response to non-proxy requests'' 500, ctx)
       else
         (case filterRequest p r ctx of
            ((req, Some x), ctx) \<Rightarrow> send_response p w x ctx
          | ((None, None), ctx) \<Rightarrow> Panic ''nil pointer dereference''
          | ((Some q, None), ctx) \<Rightarrow>
              (case ctx_RoundTrip call tr q (removeProxyHeaders q ctx) of
                 (Inr x, ctx) \<Rightarrow> send_response p w x ctx
               | (Inl e, ctx) \<Rightarrow>
                   (case filterResponse p None (ctx\<lparr>ctx_Error := Some e\<rparr>) of
                      (None, ctx) \<Rightarrow> Ret (http_Error w (error_string e) 500, ctx)
                    | (Some x, ctx) \<Rightarrow> send_response p w x ctx))), p))"

section \<open>Basic authentication\<close>

definition BasicUnauthorized :: "nat \<Rightarrow> string \<Rightarrow> http_response" where
  "BasicUnauthorized i realm =
     (let b = bytes_of ''407 Proxy Authentication Required'' in
      \<lparr>resp_StatusCode = 407, resp_Status = [],
       resp_Header = [(''Proxy-Authenticate'', [''Basic realm='' @ realm])],
       resp_Body = buffer_body i b, resp_ContentLength = int (length b)\<rparr>)"

definition auth :: "(string \<Rightarrow> string \<Rightarrow> bool) \<Rightarrow> nat \<Rightarrow> ('r, 'u) pctx \<Rightarrow> bool \<times> ('r, 'u) pctx" where
  "auth f r ctx =
     (let req = reqs ctx r;
          authheader = hdr_Get (req_Header req) ''Proxy-Authorization'';
          ctx = set_req r (req\<lparr>req_Header := hdr_Del ''Proxy-Authorization'' (req_Header req)\<rparr>) ctx
      in case cut (CHR '' '') authheader of
           None \<Rightarrow> (False, ctx)
         | Some (scheme, cred) \<Rightarrow>
             if scheme \<noteq> ''Basic'' then (False, ctx)
             else (case base64_decode StdEncoding cred of
                     None \<Rightarrow> (False, ctx)
                   | Some userpassraw \<Rightarrow>
                       (case cut (CHR '':'') (text_of userpassraw) of
                          None \<Rightarrow> (False, ctx)
                        | Some (user, passwd) \<Rightarrow> (f user passwd, ctx))))"

text \<open>\<open>q\<close> is the address at which the refusal is allocated.\<close>

definition Basic :: "nat \<Rightarrow> string \<Rightarrow> (string \<Rightarrow> string \<Rightarrow> bool) \<Rightarrow> ('r, 'u) req_handler" where
  "Basic q realm f r ctx =
     (case auth f r ctx of
        (False, ctx) \<Rightarrow> ((None, Some q), set_resp q (BasicUnauthorized q realm) ctx)
      | (True, ctx) \<Rightarrow> ((Some r, None), ctx))"

definition BasicConnect :: "nat \<Rightarrow> string \<Rightarrow> (string \<Rightarrow> string \<Rightarrow> bool) \<Rightarrow> ('r, 'u) https_handler" where
  "BasicConnect q realm f host ctx =
     (case auth f (ctx_Req ctx) ctx of
        (False, ctx) \<Rightarrow> ((Some RejectConnect, host),
           (set_resp q (BasicUnauthorized q realm) ctx)\<lparr>ctx_Resp := Some q\<rparr>)
      | (True, ctx) \<Rightarrow> ((Some OkConnect, host), ctx))"

definition ProxyBasic :: "nat \<Rightarrow> string \<Rightarrow> (string \<Rightarrow> string \<Rightarrow> bool) \<Rightarrow> ('r, 'u) proxy \<Rightarrow> ('r, 'u) proxy" where
  "ProxyBasic q realm f p = HandleConnect [] (BasicConnect q realm f) (Do_request [] (Basic q realm f) p)"

section \<open>Properties of the filters\<close>

lemma filter_loop_append:
  "filter_loop (hs @ [h]) r acc ctx = (case filter_loop hs r acc ctx of ((req, resp), ctx') \<Rightarrow>
      if hs \<noteq> [] \<and> resp \<noteq> None then ((req, resp), ctx')
      else (case h r ctx' of (x, ctx) \<Rightarrow> (x, ctx)))"
proof (induction hs arbitrary: acc ctx)
  case Nil
  then show ?case by (cases acc) (simp split: prod.splits)
next
  case (Cons g gs)
  obtain req resp ctx1 where g: "g r ctx = ((req, resp), ctx1)" by (metis prod.collapse)
  show ?case
  proof (cases resp)
    case None
    have "snd (fst (filter_loop gs r (req, None) ctx1)) = None" if "gs = []" using that by simp
    with Cons.IH [of "(req, None)" ctx1] g None show ?thesis
      by (cases "gs = []") (auto split: prod.splits)
  qed (use g in simp)
qed

text \<open>
  filterRequest does not hand a request on from one handler to the next: if the handlers
  before the last give no response, the result is what the last handler makes of the client's
  original request, and every request the others returned is dropped.
\<close>

theorem filterRequest_drops_requests:
  assumes "reqHandlers p = hs @ [h]" and "filter_loop hs r (Some r, None) ctx = ((req, None), ctx')"
  shows "filterRequest p r ctx = h r ctx'"
  using filter_loop_append [of hs h r "(Some r, None)" ctx] assms
  by (simp add: filterRequest_def split: prod.splits)

text \<open>A handler that replaces the request by the one at address 7.\<close>

definition demo_replace :: "(nat, nat) req_handler" where
  "demo_replace r ctx = ((Some 7, None), ctx)"

theorem filterRequest_drops_requests_witness:
  "filterRequest (Do_request [DstHostIs ''other''] demo_replace (Do_request [] demo_replace NewProxyHttpServer)) 0
      (demo_ctx (demo_request ''a'' ''/'' [])) = ((Some 0, None), demo_ctx (demo_request ''a'' ''/'' []))"
  using filterRequest_drops_requests [of "Do_request [DstHostIs ''other''] demo_replace (Do_request [] demo_replace NewProxyHttpServer)"
      "[cond_req_handler [] demo_replace]" "cond_req_handler [DstHostIs ''other''] demo_replace" 0
      "demo_ctx (demo_request ''a'' ''/'' [])" "Some 7"]
  by (simp add: Do_request_def NewProxyHttpServer_def cond_req_handler_def demo_replace_def DstHostIs_def
      demo_ctx_def demo_request_def)

section \<open>Properties of the headers\<close>

lemma hdr_values_Adds: "hdr_values (fold (\<lambda>v. hdr_Add k v) vs h) k' =
    (if canonicalKey k' = canonicalKey k then hdr_values h k' @ vs else hdr_values h k')"
proof (induction vs arbitrary: h)
  case (Cons v vs)
  then show ?case using hdr_values_cong [of k k' h] by (simp add: hdr_values_Add)
qed simp

lemma hdr_values_copy: "hdr_values (fold (\<lambda>(k, vs) h. fold (\<lambda>v. hdr_Add k v) vs h) src h) k =
    hdr_values h k @ concat (map snd (filter (\<lambda>(k', vs). canonicalKey k' = canonicalKey k) src))"
  by (induction src arbitrary: h) (auto simp: hdr_values_Adds)

lemma hdr_values_Dels: "hdr_values (fold (\<lambda>(k, vs). hdr_Del k) dst h) k =
    (if canonicalKey k \<in> (canonicalKey \<circ> fst) ` set dst then [] else hdr_values h k)"
  by (induction dst arbitrary: h) (auto simp: hdr_values_Del)

definition canonical_header :: "header \<Rightarrow> bool" where
  "canonical_header h \<longleftrightarrow> list_all (\<lambda>(k, vs). canonicalKey k = k) h"

text \<open>
  copyHeaders makes the client's header a copy of the response's: for a destination with
  canonical keys the values under a key are exactly those of the source, in order, and nothing
  of the old header is left.
\<close>

theorem copyHeaders_values:
  assumes "canonical_header dst"
  shows "hdr_values (copyHeaders dst src) k =
    concat (map snd (filter (\<lambda>(k', vs). canonicalKey k' = canonicalKey k) src))"
proof -
  have "hdr_values (fold (\<lambda>(k, vs). hdr_Del k) dst dst) k = []"
  proof (cases "canonicalKey k \<in> (canonicalKey \<circ> fst) ` set dst")
    case False
    have "map_of dst (canonicalKey k) \<noteq> Some vs" for vs
    proof
      assume "map_of dst (canonicalKey k) = Some vs"
      then have m: "(canonicalKey k, vs) \<in> set dst" by (rule map_of_SomeD)
      then have "canonicalKey (canonicalKey k) = canonicalKey k"
        using assms by (auto simp: canonical_header_def list_all_iff)
      with m have "canonicalKey k \<in> (canonicalKey \<circ> fst) ` set dst" by (metis comp_apply fst_conv image_eqI)
      with False show False by contradiction
    qed
    then have "hdr_values dst k = []" by (simp add: hdr_values_def split: option.split)
    then show ?thesis by (simp add: hdr_values_Dels)
  qed (simp add: hdr_values_Dels)
  then show ?thesis by (simp add: copyHeaders_def hdr_values_copy)
qed

theorem copyHeaders_values_witness:
  "hdr_values (copyHeaders [(''X'', [''0''])] [(''Y'', [''1'']), (''y'', [''2''])]) ''Y'' = [''1'', ''2'']"
proof -
  have c: "canonicalKey ''X'' = ''X''" "canonicalKey ''Y'' = ''Y''" "canonicalKey ''y'' = ''Y''" by code_simp+
  then have "canonical_header [(''X'', [''0''])]" by (simp add: canonical_header_def)
  from copyHeaders_values [OF this, of "[(''Y'', [''1'']), (''y'', [''2''])]" "''Y''"] c show ?thesis by simp
qed

section \<open>Properties of ServeHTTP\<close>

lemma canonical_hop_keys [simp]:
  "canonicalKey ''Connection'' = ''Connection''" "canonicalKey ''Proxy-Connection'' = ''Proxy-Connection''"
  "canonicalKey ''Accept-Encoding'' = ''Accept-Encoding''" "canonicalKey ''Proxy-Authorization'' = ''Proxy-Authorization''"
  "canonicalKey ''Content-Type'' = ''Content-Type''" "canonicalKey ''Content-Length'' = ''Content-Length''"
  by code_simp+


definition demo_tr :: "nat \<Rightarrow> (nat, nat) pctx \<Rightarrow> (werror + nat) \<times> (nat, nat) pctx" where
  "demo_tr r ctx = (Inr 3, ctx\<lparr>resps := (\<lambda>p. NewResponse 1 ''text/html'' 200 ''hi'')\<rparr>)"

definition demo_proxy :: "(nat, nat) proxy" where
  "demo_proxy = NewProxyHttpServer"

definition demo_writer :: client_writer where
  "demo_writer = \<lparr>cw_Header = [], cw_Status = None, cw_Body = []\<rparr>"




text \<open>
  C36: The credentials a client sends in the header are what the check is asked about: for any
  user name without a colon and any password, the check's answer decides, and the header does
  not go further.
\<close>

theorem auth_decodes_credentials:
  assumes "hdr_Get (req_Header (reqs ctx r)) ''Proxy-Authorization'' =
      ''Basic '' @ base64 StdEncoding (bytes_of (user @ '':'' @ passwd))"
    and "CHR '':'' \<notin> set user"
  shows "fst (auth f r ctx) = f user passwd \<and>
    hdr_Get (req_Header (reqs (snd (auth f r ctx)) r)) ''Proxy-Authorization'' = []"
proof -
  let ?cred = "base64 StdEncoding (bytes_of (user @ '':'' @ passwd))"
  have "CHR '' '' \<notin> set ''Basic''" by simp
  from cut_append [OF this, of ?cred] have "Go_Text.cut (CHR '' '') (''Basic '' @ ?cred) = Some (''Basic'', ?cred)" by simp
  moreover have "base64_decode StdEncoding ?cred = Some (bytes_of (user @ '':'' @ passwd))"
    by (rule base64_roundtrip [OF alphabet_Std])
  moreover have "Go_Text.cut (CHR '':'') (user @ '':'' @ passwd) = Some (user, passwd)"
    using cut_append [OF assms(2), of passwd] by simp
  ultimately show ?thesis using assms(1)
    by (simp add: auth_def Let_def set_req_def hdr_Get_Del del: bytes_of_append split: option.split)
qed

theorem auth_decodes_credentials_witness:
  "fst (auth (\<lambda>u p. u = ''joe'' \<and> p = ''a:b'') 0 (demo_ctx (demo_request ''a'' ''/''
    [(''Proxy-Authorization'', [''Basic '' @ base64 StdEncoding (bytes_of ''joe:a:b'')])])))"
  using auth_decodes_credentials [of "demo_ctx (demo_request ''a'' ''/''
      [(''Proxy-Authorization'', [''Basic '' @ base64 StdEncoding (bytes_of ''joe:a:b'')])])" 0 "''joe''" "''a:b''"
      "\<lambda>u p. u = ''joe'' \<and> p = ''a:b''"]
  by (simp add: demo_ctx_def demo_request_def hdr_Get_def hdr_values_def)

text \<open>
  When the transport fails and a response handler makes up a response, the handlers run a
  second time, on that response: what the client gets is the second result.
\<close>

theorem error_response_filtered_twice:
  assumes "reqHandlers p = []" and "url_Scheme (req_URL (reqs st r)) \<noteq> []"
    and "tr r (removeProxyHeaders r (new_ctx (px_sess p + 1) r st)) = (Inl e, ctx)"
    and "filterResponse p None (ctx\<lparr>ctx_Error := Some e\<rparr>) = (Some x, ctx1)"
    and "filterResponse p (Some x) ctx1 = (Some y, ctx2)"
    and "ctx_RoundTripper (removeProxyHeaders r (new_ctx (px_sess p + 1) r st)) = None"
  shows "\<exists>w' ctx3. fst (ServeHTTP call tr p w r st) = Ret (w', ctx3) \<and>
    cw_Status w' = Some (resp_StatusCode (resps ctx2 y)) \<and> cw_Body w' = cw_Body w @ body_data (resp_Body (resps ctx2 y))"
proof -
  let ?p = "p\<lparr>px_sess := px_sess p + 1\<rparr>"
  have f: "filterResponse ?p = filterResponse p" by (intro ext) (simp add: filterResponse_def)
  have "filterRequest ?p r (new_ctx (px_sess p + 1) r st) = ((Some r, None), new_ctx (px_sess p + 1) r st)"
    using assms(1) by (simp add: filterRequest_def)
  with assms show ?thesis
    by (simp add: ServeHTTP_def Let_def ctx_RoundTrip_def send_response_def f) (simp add: new_ctx_def)
qed

definition demo_fix :: "(nat, nat) resp_handler" where
  "demo_fix resp ctx = (case resp of
      None \<Rightarrow> (Some 1, set_resp 1 (NewResponse 1 ''text/plain'' 200 ''sorry'') ctx)
    | Some x \<Rightarrow> (Some 2, set_resp 2 (NewResponse 2 ''text/plain'' 202 ''again'') ctx))"

theorem error_response_filtered_twice_witness:
  "\<exists>w' ctx. fst (ServeHTTP (\<lambda>u. demo_tr) (\<lambda>r ctx. (Inl io_EOF, ctx)) (Do_response [] demo_fix demo_proxy) demo_writer 0
      (demo_ctx (demo_request ''a'' ''/'' []))) = Ret (w', ctx) \<and> cw_Status w' = Some 202 \<and> cw_Body w' = bytes_of ''again''"
proof -
  let ?p = "Do_response [] demo_fix demo_proxy" and ?st = "demo_ctx (demo_request ''a'' ''/'' [])"
  let ?cd = "removeProxyHeaders 0 (new_ctx (px_sess ?p + 1) 0 ?st)"
  let ?ce = "?cd\<lparr>ctx_Error := Some io_EOF\<rparr>\<lparr>ctx_Resp := None\<rparr>"
  let ?cf = "set_resp 1 (NewResponse 1 ''text/plain'' 200 ''sorry'') ?ce"
  let ?cg = "set_resp 2 (NewResponse 2 ''text/plain'' 202 ''again'') (?cf\<lparr>ctx_Resp := Some 1\<rparr>)"
  have "filterResponse ?p None (?cd\<lparr>ctx_Error := Some io_EOF\<rparr>) = (Some 1, ?cf)"
    and "filterResponse ?p (Some 1) ?cf = (Some 2, ?cg)"
    by (simp_all add: filterResponse_def Do_response_def demo_proxy_def NewProxyHttpServer_def cond_resp_handler_def demo_fix_def)
  moreover have "reqHandlers ?p = []" by (simp add: Do_response_def demo_proxy_def NewProxyHttpServer_def)
  moreover have "url_Scheme (req_URL (reqs ?st 0)) \<noteq> []" by (simp add: demo_ctx_def demo_request_def)
  moreover have "ctx_RoundTripper ?cd = None" by (simp add: removeProxyHeaders_def new_ctx_def set_req_def Let_def)
  ultimately show ?thesis
    using error_response_filtered_twice [where p = ?p and st = ?st and r = 0 and tr = "\<lambda>r ctx. (Inl io_EOF, ctx)"
        and ctx = ?cd and e = io_EOF and w = demo_writer and call = "\<lambda>u. demo_tr"]
    by (fastforce simp: set_resp_def NewResponse_def buffer_body_def demo_writer_def)
qed

end
