(* ===== verification/Go_Conn.thy ===== *)
theory Go_Conn
  imports Ws_Io Go_Text
begin

text \<open>
  The writing half of a connection, the contract of an io.Writer as the locale \<open>byte_sink\<close>,
  and io.Copy from any reader to any writer. The contract of the two gives that a copy moves
  all bytes.
\<close>

section \<open>Connections\<close>

text \<open>\<open>cn_room\<close> is the environment: None takes everything, Some (n, e) fails with e after n bytes.\<close>

record conn =
  cn_out :: bytes
  cn_room :: "(nat \<times> werror) option"
  cn_closed :: bool

definition new_conn :: conn where
  "new_conn = \<lparr>cn_out = [], cn_room = None, cn_closed = False\<rparr>"

definition conn_Write :: "bytes \<Rightarrow> conn \<Rightarrow> (nat \<times> werror option) \<times> conn" where
  "conn_Write b c = (case cn_room c of
      None \<Rightarrow> ((length b, None), c\<lparr>cn_out := cn_out c @ b\<rparr>)
    | Some (n, e) \<Rightarrow>
        if length b \<le> n then ((length b, None), c\<lparr>cn_out := cn_out c @ b, cn_room := Some (n - length b, e)\<rparr>)
        else ((n, Some e), c\<lparr>cn_out := cn_out c @ take n b, cn_room := Some (0, e)\<rparr>))"

definition conn_Close :: "conn \<Rightarrow> conn" where
  "conn_Close c = c\<lparr>cn_closed := True\<rparr>"

section \<open>io.Writer\<close>

locale byte_sink =
  fixes "write" :: "bytes \<Rightarrow> 'w \<Rightarrow> (nat \<times> werror option) \<times> 'w"
    and sent :: "'w \<Rightarrow> bytes"
    and sound :: "'w \<Rightarrow> bool"
  assumes write_val: "write b w = ((n, e), w') \<Longrightarrow>
      n \<le> length b \<and> sent w' = sent w @ take n b \<and> (e = None \<longrightarrow> n = length b)"
    and write_sound: "sound w \<Longrightarrow> \<exists>w'. write b w = ((length b, None), w') \<and> sound w'"
begin

lemma write_all: "write b w = ((n, None), w') \<Longrightarrow> n = length b \<and> sent w' = sent w @ b"
  using write_val by fastforce

lemma write_steps:
  assumes "sound w"
  obtains w' where "write b w = ((length b, None), w')" "sound w'" "sent w' = sent w @ b"
proof -
  obtain w' where w: "write b w = ((length b, None), w')" "sound w'" using write_sound [OF assms] by blast
  with write_all [OF w(1)] show thesis using that by blast
qed

end

definition conn_sound :: "conn \<Rightarrow> bool" where
  "conn_sound c \<longleftrightarrow> cn_room c = None"

interpretation conn_sink: byte_sink conn_Write cn_out conn_sound
  by unfold_locales (auto simp: conn_Write_def conn_sound_def split: option.splits if_splits)

section \<open>io.Copy\<close>

text \<open>The number of bytes copied and the error; every turn of the loop reads at least one byte.\<close>

fun io_Copy :: "(bytes \<Rightarrow> 'w \<Rightarrow> (nat \<times> werror option) \<times> 'w) \<Rightarrow> (nat \<Rightarrow> 's \<Rightarrow> bytes rres \<times> 's)
    \<Rightarrow> nat \<Rightarrow> nat \<Rightarrow> 'w \<Rightarrow> 's \<Rightarrow> (nat \<times> werror option) rres \<times> 'w \<times> 's" where
  "io_Copy wr rd k cnt w s =
     (case k of 0 \<Rightarrow> (RBlock, w, s) | Suc k \<Rightarrow>
        (case rd 32768 s of
           (RVal b, s) \<Rightarrow>
             (case wr b w of
                ((n, Some e), w) \<Rightarrow> (RVal (cnt + n, Some e), w, s)
              | ((n, None), w) \<Rightarrow>
                  if n \<noteq> length b then (RVal (cnt + n, Some (OtherError ''short write'')), w, s)
                  else io_Copy wr rd k (cnt + n) w s)
         | (RErr e, s) \<Rightarrow> (RVal (cnt, if e = io_EOF then None else Some e), w, s)
         | (RBlock, s) \<Rightarrow> (RBlock, w, s)))"

declare io_Copy.simps [simp del]

context byte_source
begin

lemma io_Copy_all:
  assumes "byte_sink write sent sound"
  shows "good s \<Longrightarrow> sound w \<Longrightarrow> length (rest s) < k \<Longrightarrow>
    \<exists>w' s'. io_Copy write read k cnt w s = (RVal (cnt + length (rest s), None), w', s') \<and>
      sent w' = sent w @ rest s \<and> sound w'"
proof (induction k arbitrary: cnt w s)
  case (Suc k)
  show ?case
  proof (cases "rest s = []")
    case True
    with Suc.prems obtain s' where "read 32768 s = (RErr io_EOF, s')"
      using read_end [of s 32768] by auto
    with True Suc.prems show ?thesis by (subst io_Copy.simps) simp
  next
    case False
    have "(0 :: nat) < 32768" by simp
    from read_step [OF Suc.prems(1) this False] obtain b s1
      where b: "read 32768 s = (RVal b, s1)" "b \<noteq> []" "good s1" "rest s = b @ rest s1" by blast
    obtain w1 where w: "write b w = ((length b, None), w1)" "sound w1" "sent w1 = sent w @ b"
      by (rule byte_sink.write_steps [OF assms Suc.prems(2)])
    have "length (rest s1) < k" using b(2,4) Suc.prems(3) by (cases b) auto
    from Suc.IH [OF b(3) w(2) this, of "cnt + length b"] b w show ?thesis
      by (subst io_Copy.simps) (auto simp: add.assoc)
  qed
qed simp

end

definition copyAndClose :: "nat \<Rightarrow> (nat \<Rightarrow> 's \<Rightarrow> bytes rres \<times> 's) \<Rightarrow> conn \<Rightarrow> 's \<Rightarrow> (conn \<times> 's) option" where
  "copyAndClose k rd w s = (case io_Copy conn_Write rd k 0 w s of
      (RVal _, w, s) \<Rightarrow> Some (conn_Close w, s)
    | _ \<Rightarrow> None)"

end
