(* ===== verification/Gp_Chunked.thy ===== *)
theory Gp_Chunked
  imports Go_Conn
begin

text \<open>
  goproxy/chunked.go: the writer that puts every block of data into a chunk, over any
  io.Writer, and the round trip with a reader of the chunked transfer encoding.
\<close>

section \<open>strconv.FormatInt in base 16\<close>

definition hex_digit :: "nat \<Rightarrow> char" where
  "hex_digit d = ''0123456789abcdef'' ! (d mod 16)"

fun FormatHex :: "nat \<Rightarrow> string" where
  "FormatHex n = (if n < 16 then [hex_digit n] else FormatHex (n div 16) @ [hex_digit n])"

declare FormatHex.simps [simp del]

section \<open>The writer\<close>

definition chunked_Write :: "(bytes \<Rightarrow> 'w \<Rightarrow> (nat \<times> werror option) \<times> 'w) \<Rightarrow> bytes \<Rightarrow> 'w
    \<Rightarrow> (nat \<times> werror option) \<times> 'w" where
  "chunked_Write wr data w =
     (if data = [] then ((0, None), w)
      else
        (case wr (bytes_of (FormatHex (length data) @ crlf)) w of
           ((_, Some e), w) \<Rightarrow> ((0, Some e), w)
         | ((_, None), w) \<Rightarrow>
             (case wr data w of
                ((n, Some e), w) \<Rightarrow> ((n, Some e), w)
              | ((n, None), w) \<Rightarrow>
                  if n \<noteq> length data then ((n, Some (OtherError ''short write'')), w)
                  else (case wr (bytes_of crlf) w of ((_, e), w) \<Rightarrow> ((n, e), w)))))"

definition chunked_Close :: "(bytes \<Rightarrow> 'w \<Rightarrow> (nat \<times> werror option) \<times> 'w) \<Rightarrow> 'w \<Rightarrow> werror option \<times> 'w" where
  "chunked_Close wr w = (case wr (bytes_of (''0'' @ crlf)) w of ((_, e), w) \<Rightarrow> (e, w))"

definition chunk :: "bytes \<Rightarrow> bytes" where
  "chunk data = (if data = [] then [] else bytes_of (FormatHex (length data) @ crlf) @ data @ bytes_of crlf)"

text \<open>The blocks of a body one after another; the first error ends it.\<close>

fun chunked_Writes :: "(bytes \<Rightarrow> 'w \<Rightarrow> (nat \<times> werror option) \<times> 'w) \<Rightarrow> bytes list \<Rightarrow> 'w \<Rightarrow> werror option \<times> 'w" where
  "chunked_Writes wr [] w = chunked_Close wr w"
| "chunked_Writes wr (b # bs) w = (case chunked_Write wr b w of
      ((_, Some e), w) \<Rightarrow> (Some e, w)
    | ((_, None), w) \<Rightarrow> chunked_Writes wr bs w)"

context byte_sink
begin

lemma chunked_Write_ok:
  assumes "chunked_Write write data w = ((n, None), w')"
  shows "n = length data \<and> sent w' = sent w @ chunk data"
  using assms
  by (auto simp: chunked_Write_def chunk_def split: if_splits prod.splits option.splits dest!: write_all)

lemma chunked_Writes_ok:
  "chunked_Writes write bs w = (None, w') \<Longrightarrow> sent w' = sent w @ concat (map chunk bs) @ bytes_of (''0'' @ crlf)"
proof (induction bs arbitrary: w)
  case Nil
  then show ?case by (auto simp: chunked_Close_def split: prod.splits dest!: write_all)
next
  case (Cons b bs)
  then show ?case by (auto split: prod.splits option.splits dest!: chunked_Write_ok)
qed

lemma chunked_Write_sound:
  assumes "sound w"
  shows "\<exists>w'. chunked_Write write data w = ((length data, None), w') \<and> sound w'"
proof (cases "data = []")
  case False
  obtain w1 where 1: "write (bytes_of (FormatHex (length data) @ crlf)) w = ((length (bytes_of (FormatHex (length data) @ crlf)), None), w1)" "sound w1"
    using write_sound [OF assms] by blast
  obtain w2 where 2: "write data w1 = ((length data, None), w2)" "sound w2" using write_sound [OF 1(2)] by blast
  obtain w3 where 3: "write (bytes_of crlf) w2 = ((length (bytes_of crlf), None), w3)" "sound w3"
    using write_sound [OF 2(2)] by blast
  from 1 2 3 False show ?thesis unfolding chunked_Write_def by (simp del: bytes_of_append)
qed (use assms in \<open>simp add: chunked_Write_def\<close>)

lemma chunked_Writes_sound: "sound w \<Longrightarrow> \<exists>w'. chunked_Writes write bs w = (None, w') \<and> sound w'"
proof (induction bs arbitrary: w)
  case Nil
  then show ?case using write_sound [of w "bytes_of (''0'' @ crlf)"] by (auto simp: chunked_Close_def)
next
  case (Cons b bs)
  then show ?case using chunked_Write_sound [OF Cons.prems, of b] by fastforce
qed

end

section \<open>A reader of the encoding\<close>

fun hex_value :: "nat \<Rightarrow> string \<Rightarrow> nat option" where
  "hex_value n [] = Some n"
| "hex_value n (c # s) = (case index_of ''0123456789abcdef'' c of
      None \<Rightarrow> None | Some d \<Rightarrow> hex_value (n * 16 + d) s)"

text \<open>
  The payload and what follows the final chunk: the size line, the data and its line end, up
  to the chunk of size 0 (no trailer lines).
\<close>

fun dechunk :: "nat \<Rightarrow> bytes \<Rightarrow> (bytes \<times> bytes) option" where
  "dechunk 0 inp = None"
| "dechunk (Suc k) inp =
     (case cut (CHR 0x0A) (text_of inp) of
        None \<Rightarrow> None
      | Some (l, rest) \<Rightarrow>
          (case hex_value 0 (butlast l) of
             None \<Rightarrow> None
           | Some n \<Rightarrow>
               let rest = bytes_of rest in
               if n = 0 then Some ([], rest)
               else if length rest < n + 2 then None
               else map_option (\<lambda>(p, r). (take n rest @ p, r)) (dechunk k (drop (n + 2) rest))))"

lemma hex_digit_index: "index_of ''0123456789abcdef'' (hex_digit d) = Some (d mod 16)"
  unfolding hex_digit_def by (rule index_of_nth) simp_all

lemma hex_value_append: "hex_value m (a @ b) = (case hex_value m a of None \<Rightarrow> None | Some v \<Rightarrow> hex_value v b)"
  by (induction a arbitrary: m) (auto split: option.split)

lemma hex_value_Format: "hex_value 0 (FormatHex n) = Some n"
proof (induction n rule: FormatHex.induct)
  case (1 n)
  show ?case
  proof (cases "n < 16")
    case True
    then show ?thesis by (subst FormatHex.simps) (simp add: hex_digit_index)
  next
    case False
    with 1 show ?thesis by (subst FormatHex.simps) (simp add: hex_value_append hex_digit_index)
  qed
qed

lemma hex_digit_no_lf: "hex_digit d \<noteq> CHR 0x0A"
proof -
  have "hex_digit d \<in> set ''0123456789abcdef''" unfolding hex_digit_def by (rule nth_mem) simp
  then show ?thesis by auto
qed

lemma FormatHex_no_lf: "CHR 0x0A \<notin> set (FormatHex n)"
proof (induction n rule: FormatHex.induct)
  case (1 n)
  then show ?case by (subst FormatHex.simps) (use hex_digit_no_lf [symmetric] in \<open>auto split: if_splits\<close>)
qed

lemma size_line:
  "cut (CHR 0x0A) (text_of (bytes_of (s @ crlf) @ r)) = Some (s @ [CHR 0x0D], text_of r)" if "CHR 0x0A \<notin> set s"
proof -
  have "text_of (bytes_of (s @ crlf) @ r) = (s @ [CHR 0x0D]) @ CHR 0x0A # text_of r"
    by (simp add: crlf_def del: bytes_of_append flip: bytes_of_append)
  moreover have "CHR 0x0A \<notin> set (s @ [CHR 0x0D])" using that by simp
  ultimately show ?thesis by (metis cut_append)
qed

lemma dechunk_end: "dechunk (Suc k) (bytes_of (''0'' @ crlf) @ rest) = Some ([], rest)"
proof -
  have "CHR 0x0A \<notin> set ''0''" by simp
  from size_line [OF this, of rest] show ?thesis by (simp add: index_of.simps del: bytes_of_append)
qed

lemma dechunk_chunk:
  assumes "data \<noteq> []"
  shows "dechunk (Suc k) (chunk data @ rest) = map_option (\<lambda>(p, r). (data @ p, r)) (dechunk k rest)"
proof -
  have c: "chunk data @ rest = bytes_of (FormatHex (length data) @ crlf) @ (data @ bytes_of crlf @ rest)"
    using assms by (simp add: chunk_def)
  have l: "length (bytes_of crlf) = 2" by (simp add: crlf_def bytes_of_def)
  note cut = size_line [OF FormatHex_no_lf, of "length data" "data @ bytes_of crlf @ rest"]
  have "drop (length data + 2) (data @ bytes_of crlf @ rest) = rest" using l by simp
  then show ?thesis
    unfolding c dechunk.simps(2) cut option.case prod.case
    using assms l by (simp add: hex_value_Format Let_def)
qed

lemma dechunk_chunks:
  "length bs < k \<Longrightarrow> dechunk k (concat (map chunk bs) @ bytes_of (''0'' @ crlf) @ rest) = Some (concat bs, rest)"
proof (induction bs arbitrary: k)
  case Nil
  then obtain k' where "k = Suc k'" by (cases k) auto
  then show ?case using dechunk_end [of k' rest] by simp
next
  case (Cons b bs)
  then obtain k' where k: "k = Suc k'" "length bs < k'" by (cases k) auto
  show ?case
  proof (cases "b = []")
    case True
    with Cons.IH [of k] Cons.prems show ?thesis by (simp add: chunk_def)
  next
    case False
    with Cons.IH [OF k(2)] k(1) show ?thesis
      using dechunk_chunk [OF False, of k' "concat (map chunk bs) @ bytes_of (''0'' @ crlf) @ rest"] by simp
  qed
qed

text \<open>
  C33: A body written block by block through the chunked writer and closed is read back by the
  peer: on a connection that takes everything the writes succeed, and decoding what was sent
  gives exactly the concatenated blocks and leaves what follows. Empty blocks are skipped, so
  none of them ends the body early.
\<close>

theorem chunked_roundtrip:
  "\<exists>w. chunked_Writes conn_Write blocks new_conn = (None, w) \<and>
    dechunk (Suc (length blocks)) (cn_out w @ rest) = Some (concat blocks, rest)"
proof -
  have "conn_sound new_conn" by (simp add: conn_sound_def new_conn_def)
  then obtain w where w: "chunked_Writes conn_Write blocks new_conn = (None, w)"
    using conn_sink.chunked_Writes_sound by blast
  have "cn_out w = concat (map chunk blocks) @ bytes_of (''0'' @ crlf)"
    using conn_sink.chunked_Writes_ok [OF w] by (simp add: new_conn_def)
  then have "dechunk (Suc (length blocks)) (cn_out w @ rest) = Some (concat blocks, rest)"
    using dechunk_chunks [of blocks "Suc (length blocks)" rest] by simp
  with w show ?thesis by blast
qed

text \<open>
  A write that reports success has put out exactly one chunk; after an error the
  connection has got a prefix of that chunk, and the count reported never exceeds the block.
\<close>

theorem chunked_Write_prefix:
  assumes w: "chunked_Write conn_Write data c = ((n, e), c')"
  shows "n \<le> length data \<and> (\<exists>k. cn_out c' = cn_out c @ take k (chunk data)) \<and>
    (e = None \<longrightarrow> n = length data \<and> cn_out c' = cn_out c @ chunk data)"
proof (cases "data = []")
  case False
  let ?head = "bytes_of (FormatHex (length data) @ crlf)"
  have ch: "chunk data = ?head @ data @ bytes_of crlf" using False by (simp add: chunk_def)
  obtain n1 e1 c1 where 1: "conn_Write ?head c = ((n1, e1), c1)" by (metis prod.collapse)
  obtain n2 e2 c2 where 2: "conn_Write data c1 = ((n2, e2), c2)" by (metis prod.collapse)
  obtain n3 e3 c3 where 3: "conn_Write (bytes_of crlf) c2 = ((n3, e3), c3)" by (metis prod.collapse)
  note v1 = conn_sink.write_val [OF 1] and v2 = conn_sink.write_val [OF 2] and v3 = conn_sink.write_val [OF 3]
  show ?thesis
  proof (cases e1)
    case (Some x)
    then have "n = 0" "e = Some x" "c' = c1" using w False 1 by (simp_all add: chunked_Write_def del: bytes_of_append)
    then show ?thesis using v1 unfolding ch by (auto intro!: exI [of _ n1] simp del: bytes_of_append)
  next
    case e1: None
    show ?thesis
    proof (cases e2)
      case (Some x)
      then have "n = n2" "e = Some x" "c' = c2"
        using w False 1 2 e1 by (simp_all add: chunked_Write_def del: bytes_of_append)
      then show ?thesis using v1 v2 e1 unfolding ch
        by (auto intro!: exI [of _ "length ?head + n2"] simp del: bytes_of_append)
    next
      case e2: None
      then have "n = n2" "e = e3" "c' = c3"
        using w False 1 2 3 v2 e1 by (simp_all add: chunked_Write_def del: bytes_of_append)
      then show ?thesis using v1 v2 v3 e1 e2 unfolding ch
        by (auto intro!: exI [of _ "length ?head + length data + n3"] simp del: bytes_of_append)
    qed
  qed
qed (use w in \<open>auto simp: chunked_Write_def chunk_def\<close>)

theorem chunked_Write_prefix_witness:
  "\<exists>c'. chunked_Write conn_Write [1, 2, 3] \<lparr>cn_out = [], cn_room = Some (4, io_EOF), cn_closed = False\<rparr> =
      ((1, Some io_EOF), c') \<and> (\<exists>k. cn_out c' = take k (chunk [1, 2, 3]))"
proof -
  have "chunked_Write conn_Write [1, 2, 3] \<lparr>cn_out = [], cn_room = Some (4, io_EOF), cn_closed = False\<rparr> =
      ((1, Some io_EOF), \<lparr>cn_out = [51, 13, 10, 1], cn_room = Some (0, io_EOF), cn_closed = False\<rparr>)"
    by (simp add: chunked_Write_def conn_Write_def FormatHex.simps hex_digit_def crlf_def bytes_of_def)
  from chunked_Write_prefix [OF this] show ?thesis
    using \<open>chunked_Write _ _ _ = _\<close> by auto
qed

end
