(* ===== verification/Gp_Https.thy ===== *)
theory Gp_Https
  imports Gp_Proxy Gp_Chunked
begin

text \<open>
  goproxy/https.go: what becomes of a CONNECT request (tunnel, rejection, hijacking or
  interception), the exchange on an intercepted TLS connection, and the dialling of CONNECT
  targets through another proxy. TLS, the dialling functions and the writing of requests and
  responses by net/http are parameters.
\<close>

section \<open>Hosts and ports\<close>

definition stripPort :: "string \<Rightarrow> string" where
  "stripPort s = (case cut (CHR '':'') s of None \<Rightarrow> s | Some (h, _) \<Rightarrow> h)"

text \<open>The expression \<open>:\d+$\<close>.\<close>

definition hasPort_re :: "string \<Rightarrow> bool" where
  "hasPort_re s = (let d = takeWhile is_digit (rev s); m = dropWhile is_digit (rev s)
     in d \<noteq> [] \<and> m \<noteq> [] \<and> hd m = CHR '':'')"

definition proxy_dial :: "('a \<Rightarrow> 'b) option \<Rightarrow> ('a \<Rightarrow> 'b) \<Rightarrow> 'a \<Rightarrow> 'b" where
  "proxy_dial trDial net_dial addr = (case trDial of Some f \<Rightarrow> f addr | None \<Rightarrow> net_dial addr)"

definition connectDial :: "('a \<Rightarrow> 'b) option \<Rightarrow> ('a \<Rightarrow> 'b) option \<Rightarrow> ('a \<Rightarrow> 'b) \<Rightarrow> 'a \<Rightarrow> 'b" where
  "connectDial conDial trDial net_dial addr =
     (case conDial of None \<Rightarrow> proxy_dial trDial net_dial addr | Some f \<Rightarrow> f addr)"

section \<open>CONNECT\<close>

definition httpError :: "conn \<Rightarrow> conn" where
  "httpError c = conn_Close (snd (conn_Write (bytes_of (''HTTP/1.1 502 Bad Gateway'' @ crlf @ crlf)) c))"

fun connect_loop :: "('r, 'u) https_handler list \<Rightarrow> connect_action \<Rightarrow> string \<Rightarrow> ('r, 'u) pctx
    \<Rightarrow> (connect_action \<times> string) \<times> ('r, 'u) pctx" where
  "connect_loop [] todo host ctx = ((todo, host), ctx)"
| "connect_loop (h # hs) todo host ctx =
     (case h host ctx of
        ((Some t, newhost), ctx) \<Rightarrow> connect_loop hs t newhost ctx
      | ((None, _), ctx) \<Rightarrow> connect_loop hs todo host ctx)"

text \<open>
  What handleHttps leaves running: two copies between the client and the target, a closed
  client, the hijacking function, or one of the two interceptions.
\<close>

datatype connect_result =
    Tunnel string conn conn
  | Closed conn
  | Hijacked "nat option" conn
  | PlainMitm string conn conn
  | PlainMitmFailed conn
  | TlsMitm string connect_action conn

definition ok_line :: bytes where
  "ok_line = bytes_of (''HTTP/1.0 200 OK'' @ crlf @ crlf)"

definition handleHttps :: "(werror + conn) option \<Rightarrow> (string \<Rightarrow> werror + conn) \<Rightarrow> (http_response \<Rightarrow> bytes)
    \<Rightarrow> ('r, 'u) proxy \<Rightarrow> nat \<Rightarrow> ('r, 'u) pctx
    \<Rightarrow> (connect_result \<times> ('r, 'u) pctx) outcome \<times> ('r, 'u) proxy" where
  "handleHttps hij dial resp_bytes p r st =
     (let p = p\<lparr>px_sess := px_sess p + 1\<rparr>; ctx = new_ctx (px_sess p) r st in
      (case hij of
         None \<Rightarrow> Panic ''httpserver does not support hijacking''
       | Some (Inl e) \<Rightarrow> Panic (''Cannot hijack connection '' @ error_string e)
       | Some (Inr client) \<Rightarrow>
           (case connect_loop (httpsHandlers p) OkConnect (url_Host (req_URL (reqs ctx r))) ctx of
              ((todo, host), ctx) \<Rightarrow>
                let ok_client = snd (conn_Write ok_line client) in
                Ret (case ca_Action todo of
                    ConnectAccept \<Rightarrow>
                      let host = (if hasPort_re host then host else host @ '':80'') in
                      (case dial host of
                         Inl e \<Rightarrow> Closed (httpError client)
                       | Inr target \<Rightarrow> Tunnel host ok_client target)
                  | ConnectHijack \<Rightarrow> Hijacked (ca_Hijack todo) ok_client
                  | ConnectHTTPMitm \<Rightarrow>
                      (case dial host of
                         Inl e \<Rightarrow> PlainMitmFailed ok_client
                       | Inr target \<Rightarrow> PlainMitm host ok_client target)
                  | ConnectMitm \<Rightarrow> TlsMitm (stripPort host) todo ok_client
                  | ConnectReject \<Rightarrow>
                      Closed (conn_Close (case ctx_Resp ctx of
                          None \<Rightarrow> client
                        | Some q \<Rightarrow> snd (conn_Write (resp_bytes (resps ctx q)) client))), ctx)), p))"

section \<open>Interception\<close>

text \<open>strconv.Itoa\<close>

fun Itoa_nat :: "nat \<Rightarrow> string" where
  "Itoa_nat n = (if n < 10 then [char_of (48 + n)] else Itoa_nat (n div 10) @ [char_of (48 + n mod 10)])"

declare Itoa_nat.simps [simp del]

definition Itoa :: "int \<Rightarrow> string" where
  "Itoa i = (if i < 0 then ''-'' @ Itoa_nat (nat (- i)) else Itoa_nat (nat i))"

text \<open>The pieces in which io.Copy reads a body; a body gives as much as it is asked for.\<close>

function blocks :: "nat \<Rightarrow> bytes \<Rightarrow> bytes list" where
  "blocks n b = (if n = 0 \<or> b = [] then [] else take n b # blocks n (drop n b))"
  by pat_completeness auto
termination by (relation "measure (\<lambda>(n, b). length b)") auto

declare blocks.simps [simp del]

text \<open>The answer on an intercepted connection: every failing write ends the exchange.\<close>

definition write_then :: "bytes \<Rightarrow> (conn \<Rightarrow> werror option \<times> conn) \<Rightarrow> conn \<Rightarrow> werror option \<times> conn" where
  "write_then b f c = (case conn_Write b c of ((_, Some e), c) \<Rightarrow> (Some e, c) | ((_, None), c) \<Rightarrow> f c)"

definition mitm_status :: "http_response \<Rightarrow> string" where
  "mitm_status resp =
     (let statusCode = Itoa (resp_StatusCode resp) @ '' '';
          text = (if HasPrefix (resp_Status resp) statusCode then drop (length statusCode) (resp_Status resp)
                  else resp_Status resp)
      in ''HTTP/1.1 '' @ statusCode @ text @ crlf)"

definition mitm_header :: "http_response \<Rightarrow> header" where
  "mitm_header resp = hdr_Set ''Transfer-Encoding'' ''chunked'' (hdr_Del ''Content-Length'' (resp_Header resp))"

text \<open>
  io.Copy into the chunked writer and its Close; a body that ends in an error ends the exchange
  before the last chunk.
\<close>

fun write_blocks :: "(bytes \<Rightarrow> 'w \<Rightarrow> (nat \<times> werror option) \<times> 'w) \<Rightarrow> werror \<Rightarrow> bytes list \<Rightarrow> 'w \<Rightarrow> werror option \<times> 'w" where
  "write_blocks wr err [] w = (Some err, w)"
| "write_blocks wr err (b # bs) w = (case chunked_Write wr b w of
      ((_, Some e), w) \<Rightarrow> (Some e, w)
    | ((_, None), w) \<Rightarrow> write_blocks wr err bs w)"

definition mitm_body :: "body \<Rightarrow> conn \<Rightarrow> werror option \<times> conn" where
  "mitm_body b = (case body_err b of
      None \<Rightarrow> chunked_Writes conn_Write (blocks 32768 (body_data b))
    | Some e \<Rightarrow> write_blocks conn_Write e (blocks 32768 (body_data b)))"

definition mitm_respond :: "http_response \<Rightarrow> conn \<Rightarrow> werror option \<times> conn" where
  "mitm_respond resp =
     write_then (bytes_of (mitm_status resp))
       (write_then (bytes_of (WriteSubset [] (mitm_header resp)))
         (write_then (bytes_of crlf)
           (\<lambda>c. case mitm_body (resp_Body resp) c of
              (Some e, c) \<Rightarrow> (Some e, c)
            | (None, c) \<Rightarrow> write_then (bytes_of crlf) (\<lambda>c. (None, c)) c)))"

text \<open>
  One turn of the loop for a request read from the client, kept at address q; the next turn
  follows when the value is Ret (None, ...). \<open>nil_url\<close> stands for the nil URL after a parse
  error; looking into it is the panic of the code's warning.
\<close>

definition nil_url :: url where
  "nil_url = \<lparr>url_Scheme = [], url_Host = [], url_Path = [], url_RequestURI = [], url_String = []\<rparr>"

definition mitm_answer :: "('r, 'u) proxy \<Rightarrow> nat \<Rightarrow> conn \<Rightarrow> ('r, 'u) pctx
    \<Rightarrow> (werror option \<times> conn \<times> ('r, 'u) pctx) outcome" where
  "mitm_answer p x c ctx =
     (case filterResponse p (Some x) ctx of
        (None, ctx) \<Rightarrow> Panic ''nil pointer dereference''
      | (Some y, ctx) \<Rightarrow>
          (case mitm_respond (resps ctx y) c of
             (e, c) \<Rightarrow> Ret (e, c, set_resp y ((resps ctx y)\<lparr>resp_Header := mitm_header (resps ctx y)\<rparr>) ctx)))"

definition mitm_exchange :: "(string \<Rightarrow> werror + url)
    \<Rightarrow> ('r \<Rightarrow> nat \<Rightarrow> ('r, 'u) pctx \<Rightarrow> (werror + nat) \<times> ('r, 'u) pctx)
    \<Rightarrow> (nat \<Rightarrow> ('r, 'u) pctx \<Rightarrow> (werror + nat) \<times> ('r, 'u) pctx)
    \<Rightarrow> ('r, 'u) proxy \<Rightarrow> string \<Rightarrow> nat \<Rightarrow> conn \<Rightarrow> ('r, 'u) pctx
    \<Rightarrow> (werror option \<times> conn \<times> ('r, 'u) pctx) outcome" where
  "mitm_exchange parse call tr p host q c ctx0 =
     (let req = reqs ctx0 q;
          parsed = parse (''https://'' @ host @ url_String (req_URL req));
          ctx = set_req q (req\<lparr>req_URL := (case parsed of Inl e \<Rightarrow> nil_url | Inr u \<Rightarrow> u)\<rparr>) ctx0
      in case filterRequest p q ctx of
           ((_, Some x), ctx) \<Rightarrow> mitm_answer p x c ctx
         | ((None, None), ctx) \<Rightarrow> Panic ''nil pointer dereference''
         | ((Some q', None), ctx) \<Rightarrow>
             (case parsed of
                Inl e \<Rightarrow> if req_URL (reqs ctx q') = nil_url then Panic ''nil pointer dereference'' else Ret (Some e, c, ctx)
              | Inr u \<Rightarrow>
                  (case ctx_RoundTrip call tr q' (removeProxyHeaders q' ctx) of
                     (Inl e, ctx) \<Rightarrow> Ret (Some e, c, ctx)
                   | (Inr x, ctx) \<Rightarrow> mitm_answer p x c ctx)))"

text \<open>
  The exchange of a plain HTTP interception: a request from the client is written to the
  target (its bytes are \<open>req_bytes\<close>) and the response read from there is written to the
  client. The value is the error that ends the loop.
\<close>

definition plain_exchange :: "(http_request \<Rightarrow> bytes) \<Rightarrow> (http_response \<Rightarrow> bytes) \<Rightarrow> (nat \<Rightarrow> ('r, 'u) pctx \<Rightarrow> (werror + nat) \<times> ('r, 'u) pctx)
    \<Rightarrow> ('r, 'u) proxy \<Rightarrow> nat \<Rightarrow> conn \<Rightarrow> conn \<Rightarrow> ('r, 'u) pctx
    \<Rightarrow> (werror option \<times> conn \<times> conn \<times> ('r, 'u) pctx) outcome" where
  "plain_exchange req_bytes resp_bytes read_response p q client target ctx0 =
     (let answer = (\<lambda>x target ctx. case filterResponse p (Some x) ctx of
            (None, ctx) \<Rightarrow> Panic ''nil pointer dereference''
          | (Some y, ctx) \<Rightarrow>
              (case conn_Write (resp_bytes (resps ctx y)) client of
                 ((_, Some e), client) \<Rightarrow> Ret (Some e, httpError client, target, ctx)
               | ((_, None), client) \<Rightarrow> Ret (None, client, target, ctx)))
      in case filterRequest p q ctx0 of
           ((_, Some x), ctx) \<Rightarrow> answer x target ctx
         | ((None, None), ctx) \<Rightarrow> Panic ''nil pointer dereference''
         | ((Some q', None), ctx) \<Rightarrow>
             (case conn_Write (req_bytes (reqs ctx q')) target of
                ((_, Some e), target) \<Rightarrow> Ret (Some e, httpError client, target, ctx)
              | ((_, None), target) \<Rightarrow>
                  (case read_response q' ctx of
                     (Inl e, ctx) \<Rightarrow> Ret (Some e, httpError client, target, ctx)
                   | (Inr x, ctx) \<Rightarrow> answer x target ctx)))"

text \<open>
  The loops: the requests that arrive until the client's end of input or a parse error, each
  kept at a new address.
\<close>

fun mitm_loop :: "(string \<Rightarrow> werror + url)
    \<Rightarrow> ('r \<Rightarrow> nat \<Rightarrow> ('r, 'u) pctx \<Rightarrow> (werror + nat) \<times> ('r, 'u) pctx)
    \<Rightarrow> (nat \<Rightarrow> ('r, 'u) pctx \<Rightarrow> (werror + nat) \<times> ('r, 'u) pctx)
    \<Rightarrow> ('r, 'u) proxy \<Rightarrow> string \<Rightarrow> (werror + http_request) list \<Rightarrow> nat \<Rightarrow> conn \<Rightarrow> ('r, 'u) pctx
    \<Rightarrow> (conn \<times> ('r, 'u) pctx) outcome" where
  "mitm_loop parse call tr p host [] q c ctx = Ret (conn_Close c, ctx)"
| "mitm_loop parse call tr p host (Inl e # rs) q c ctx = Ret (conn_Close c, ctx)"
| "mitm_loop parse call tr p host (Inr req # rs) q c ctx =
     (case mitm_exchange parse call tr p host q c (set_req q req ctx) of
        Ret (None, c, ctx) \<Rightarrow> mitm_loop parse call tr p host rs (Suc q) c ctx
      | Ret (Some e, c, ctx) \<Rightarrow> Ret (conn_Close c, ctx)
      | Block \<Rightarrow> Block
      | Panic m \<Rightarrow> Panic m)"

fun plain_loop :: "(http_request \<Rightarrow> bytes) \<Rightarrow> (http_response \<Rightarrow> bytes)
    \<Rightarrow> (nat \<Rightarrow> ('r, 'u) pctx \<Rightarrow> (werror + nat) \<times> ('r, 'u) pctx)
    \<Rightarrow> ('r, 'u) proxy \<Rightarrow> (werror + http_request) list \<Rightarrow> nat \<Rightarrow> conn \<Rightarrow> conn \<Rightarrow> ('r, 'u) pctx
    \<Rightarrow> (conn \<times> conn \<times> ('r, 'u) pctx) outcome" where
  "plain_loop req_bytes resp_bytes rd p [] q client target ctx = Ret (client, target, ctx)"
| "plain_loop req_bytes resp_bytes rd p (Inl e # rs) q client target ctx = Ret (client, target, ctx)"
| "plain_loop req_bytes resp_bytes rd p (Inr req # rs) q client target ctx =
     (case plain_exchange req_bytes resp_bytes rd p q client target (set_req q req ctx) of
        Ret (None, client, target, ctx) \<Rightarrow> plain_loop req_bytes resp_bytes rd p rs (Suc q) client target ctx
      | Ret (Some e, client, target, ctx) \<Rightarrow> Ret (client, target, ctx)
      | Block \<Rightarrow> Block
      | Panic m \<Rightarrow> Panic m)"

section \<open>Dialling through another proxy\<close>

text \<open>
  The CONNECT exchange of the dialling functions that NewConnectDialToProxy returns: success or
  the error, with the state in which an opened connection is left. The reader of the answer is
  thrown away with what it holds. \<open>read_body\<close> reads a refusal's body and \<open>limit\<close> bounds how
  much of it (None reads all).
\<close>

definition connect_through :: "nat option \<Rightarrow> (header \<Rightarrow> rbuf \<Rightarrow> bytes) \<Rightarrow> (string \<Rightarrow> werror + (rbuf \<times> conn))
    \<Rightarrow> (string \<Rightarrow> bytes) \<Rightarrow> string \<Rightarrow> string \<Rightarrow> ((werror + unit) \<times> conn option) outcome" where
  "connect_through limit read_body dial connect_bytes proxy_host addr =
     (case dial proxy_host of
        Inl e \<Rightarrow> Ret (Inl e, None)
      | Inr (r, c) \<Rightarrow>
          let c = snd (conn_Write (connect_bytes addr) c) in
          (case ReadResponse r of
             (RVal (code, status, h), r) \<Rightarrow>
               if code \<noteq> 200 then
                 (let body = (case limit of None \<Rightarrow> read_body h r | Some n \<Rightarrow> take n (read_body h r))
                  in Ret (Inl (OtherError (''proxy refused connection'' @ text_of body)), Some (conn_Close c)))
               else Ret (Inr (), Some c)
           | (RErr e, r) \<Rightarrow> Ret (Inl e, Some (conn_Close c))
           | (RBlock, r) \<Rightarrow> Block))"

definition with_port :: "string \<Rightarrow> string \<Rightarrow> string" where
  "with_port host port = (if CHR '':'' \<notin> set host then host @ port else host)"

definition NewConnectDialToProxy :: "(string \<Rightarrow> werror + url) \<Rightarrow> (header \<Rightarrow> rbuf \<Rightarrow> bytes)
    \<Rightarrow> (string \<Rightarrow> werror + (rbuf \<times> conn)) \<Rightarrow> (string \<Rightarrow> werror + (rbuf \<times> conn)) \<Rightarrow> (string \<Rightarrow> bytes) \<Rightarrow> string
    \<Rightarrow> (string \<Rightarrow> ((werror + unit) \<times> conn option) outcome) option" where
  "NewConnectDialToProxy parse read_body dial tls_dial connect_bytes https_proxy =
     (case parse https_proxy of
        Inl e \<Rightarrow> None
      | Inr u \<Rightarrow>
          if url_Scheme u = [] \<or> url_Scheme u = ''http'' then
            Some (connect_through None read_body dial connect_bytes (with_port (url_Host u) '':80''))
          else if url_Scheme u = ''https'' then
            Some (connect_through (Some 500) read_body tls_dial connect_bytes (with_port (url_Host u) '':443''))
          else None)"

definition dialerFromEnv :: "(string \<Rightarrow> string) \<Rightarrow> (string \<Rightarrow> 'd option) \<Rightarrow> 'd option" where
  "dialerFromEnv env new =
     (let https_proxy = (if env ''HTTPS_PROXY'' = [] then env ''https_proxy'' else env ''HTTPS_PROXY'')
      in if https_proxy = [] then None else new https_proxy)"

section \<open>The handler of the server\<close>

text \<open>
  ServeHTTP in full: a CONNECT request goes to handleHttps, every other one is answered on the
  writer.
\<close>

definition proxy_ServeHTTP :: "((werror + conn) option) \<Rightarrow> (string \<Rightarrow> werror + conn) \<Rightarrow> (http_response \<Rightarrow> bytes)
    \<Rightarrow> ('r \<Rightarrow> nat \<Rightarrow> ('r, 'u) pctx \<Rightarrow> (werror + nat) \<times> ('r, 'u) pctx)
    \<Rightarrow> (nat \<Rightarrow> ('r, 'u) pctx \<Rightarrow> (werror + nat) \<times> ('r, 'u) pctx)
    \<Rightarrow> ('r, 'u) proxy \<Rightarrow> client_writer \<Rightarrow> nat \<Rightarrow> ('r, 'u) pctx
    \<Rightarrow> ((connect_result + client_writer) \<times> ('r, 'u) pctx) outcome \<times> ('r, 'u) proxy" where
  "proxy_ServeHTTP hij dial resp_bytes call tr p w r st =
     (if req_Method (reqs st r) = ''CONNECT'' then
        (case handleHttps hij dial resp_bytes p r st of
           (x, p) \<Rightarrow> (map_outcome (map_prod Inl id) x, p))
      else
        (case ServeHTTP call tr p w r st of
           (x, p) \<Rightarrow> (map_outcome (map_prod Inr id) x, p)))"

section \<open>Which action is taken\<close>

lemma connect_loop_append: "connect_loop (hs @ hs') todo host ctx =
    (case connect_loop hs todo host ctx of ((t, h), ctx) \<Rightarrow> connect_loop hs' t h ctx)"
  by (induction hs arbitrary: todo host ctx) (auto split: prod.splits option.splits)

lemma hasPort_re_80: "hasPort_re (host @ '':80'')"
proof -
  have "is_digit (CHR ''0'')" "is_digit (CHR ''8'')" "\<not> is_digit (CHR '':'')"
    by (simp_all add: is_digit_def less_eq_char_def)
  then show ?thesis by (simp add: hasPort_re_def Let_def)
qed

text \<open>
  A tunnel is only opened to a target that was dialled: the address has a port (80 is
  added to one without), the target's connection is the one the dial gave, and the client has
  been sent the acceptance only after that. If the dial fails the client gets 502 and is
  closed.
\<close>

theorem tunnel_after_dial:
  assumes "fst (handleHttps (Some (Inr client)) dial rb p r st) = Ret (res, ctx)"
  shows "case res of
      Tunnel host client' target \<Rightarrow> hasPort_re host \<and> dial host = Inr target \<and> client' = snd (conn_Write ok_line client)
    | Closed client' \<Rightarrow> cn_closed client'
    | _ \<Rightarrow> True"
  using assms
  by (auto simp: handleHttps_def Let_def httpError_def conn_Close_def hasPort_re_80
      split: prod.splits connect_literal.splits sum.splits if_splits option.splits)

theorem tunnel_after_dial_witness:
  "case Tunnel ''a:80'' (new_conn\<lparr>cn_out := ok_line\<rparr>) new_conn of
      Tunnel host client' target \<Rightarrow> hasPort_re host \<and> (Inr new_conn :: werror + conn) = Inr target \<and> client' = snd (conn_Write ok_line new_conn)
    | Closed client' \<Rightarrow> cn_closed client'
    | _ \<Rightarrow> True"
proof -
  have "\<not> hasPort_re ''a''" "''a'' @ '':80'' = ''a:80''" by code_simp+
  then have "fst (handleHttps (Some (Inr new_conn)) (\<lambda>h. Inr new_conn) (\<lambda>x. []) demo_proxy 0 (demo_ctx (demo_request ''a'' [] []))) =
      Ret (Tunnel ''a:80'' (new_conn\<lparr>cn_out := ok_line\<rparr>) new_conn,
        new_ctx 1 0 (demo_ctx (demo_request ''a'' [] [])))"
    by (simp add: handleHttps_def Let_def demo_proxy_def NewProxyHttpServer_def OkConnect_def action_only_def
        new_ctx_def demo_ctx_def demo_request_def conn_Write_def new_conn_def)
  from tunnel_after_dial [OF this] show ?thesis by simp
qed

text \<open>
  The last CONNECT handler that gives an action decides, whatever the handlers before it
  said: an action once given is not final.
\<close>

theorem last_connect_handler_decides:
  assumes "h newhost ctx' = ((Some t, host'), ctx'')" and "connect_loop hs todo host ctx = ((t0, newhost), ctx')"
  shows "connect_loop (hs @ [h]) todo host ctx = ((t, host'), ctx'')"
  using assms by (simp add: connect_loop_append)

theorem last_connect_handler_decides_witness:
  "connect_loop ([AlwaysReject] @ [AlwaysMitm]) OkConnect ''a'' (demo_ctx (demo_request ''a'' [] [])) =
    ((MitmConnect, ''a''), demo_ctx (demo_request ''a'' [] []))"
  by (rule last_connect_handler_decides) (simp_all add: AlwaysMitm_def AlwaysReject_def)

text \<open>
  C37: So the basic authentication, which its comment says is forced on every CONNECT, does
  not hold against a handler registered after it: with AlwaysMitm behind it an
  unauthenticated client is intercepted and served, not rejected.
\<close>

theorem connect_auth_bypassed:
  assumes "httpsHandlers p = [cond_https_handler [] (BasicConnect q realm f), cond_https_handler [] AlwaysMitm]"
    and "fst (auth f r (new_ctx (px_sess p + 1) r st)) = False"
  shows "\<exists>ctx. fst (handleHttps (Some (Inr client)) dial rb p r st) =
    Ret (TlsMitm (stripPort (url_Host (req_URL (reqs st r)))) MitmConnect (snd (conn_Write ok_line client)), ctx)"
proof -
  obtain ctx1 where a: "auth f r (new_ctx (px_sess p + 1) r st) = (False, ctx1)"
    using assms(2) by (metis (full_types) prod.collapse)
  have "ctx_Req (new_ctx (px_sess p + 1) r st) = r" "reqs (new_ctx (px_sess p + 1) r st) = reqs st"
    by (simp_all add: new_ctx_def)
  with a assms(1) show ?thesis
    by (simp add: handleHttps_def Let_def cond_https_handler_def BasicConnect_def AlwaysMitm_def MitmConnect_def action_only_def)
qed

theorem connect_auth_bypassed_witness:
  "\<exists>ctx. fst (handleHttps (Some (Inr new_conn)) (\<lambda>h. Inl io_EOF) (\<lambda>x. [])
      (HandleConnect [] AlwaysMitm (ProxyBasic 5 ''r'' (\<lambda>u p. False) demo_proxy)) 0 (demo_ctx (demo_request ''a:443'' [] []))) =
    Ret (TlsMitm ''a'' MitmConnect (snd (conn_Write ok_line new_conn)), ctx)"
proof -
  have s: "stripPort ''a:443'' = ''a''" by code_simp
  show ?thesis
    using connect_auth_bypassed [of "HandleConnect [] AlwaysMitm (ProxyBasic 5 ''r'' (\<lambda>u p. False) demo_proxy)" 5 "''r''"
        "\<lambda>u p. False" 0 "demo_ctx (demo_request ''a:443'' [] [])" new_conn "\<lambda>h. Inl io_EOF" "\<lambda>x. []"] s
    by (simp add: ProxyBasic_def HandleConnect_def Do_request_def demo_proxy_def NewProxyHttpServer_def demo_ctx_def
        demo_request_def auth_def new_ctx_def hdr_Get_def hdr_values_def cut_def Let_def)
qed

text \<open>
  C28: Where it is the only handler, or the last to give an action, an unauthenticated CONNECT
  is answered with the refusal and closed, and nothing is dialled: the result does not depend
  on the dialling function.
\<close>

theorem connect_unauthorized_rejected:
  assumes "httpsHandlers p = hs @ [cond_https_handler [] (BasicConnect q realm f)]"
    and "connect_loop hs OkConnect (url_Host (req_URL (reqs st r))) (new_ctx (px_sess p + 1) r st) = ((t, host), ctx0)"
    and "fst (auth f (ctx_Req ctx0) ctx0) = False"
  shows "\<exists>ctx. \<forall>dial. fst (handleHttps (Some (Inr client)) dial rb p r st) =
    Ret (Closed (conn_Close (snd (conn_Write (rb (BasicUnauthorized q realm)) client))), ctx)"
proof -
  obtain ctx1 where a: "auth f (ctx_Req ctx0) ctx0 = (False, ctx1)"
    using assms(3) by (metis (full_types) prod.collapse)
  have "reqs (new_ctx (px_sess p + 1) r st) = reqs st" by (simp add: new_ctx_def)
  with a assms(1,2) show ?thesis
    by (simp add: handleHttps_def Let_def connect_loop_append cond_https_handler_def BasicConnect_def RejectConnect_def
        action_only_def set_resp_def)
qed

theorem connect_unauthorized_rejected_witness:
  "\<exists>ctx. \<forall>dial. fst (handleHttps (Some (Inr new_conn)) dial (\<lambda>x. [1]) (ProxyBasic 5 ''r'' (\<lambda>u p. False) demo_proxy) 0
      (demo_ctx (demo_request ''a:443'' [] []))) =
    Ret (Closed (conn_Close (snd (conn_Write [1] new_conn))), ctx)"
  by (rule connect_unauthorized_rejected [of "ProxyBasic 5 ''r'' (\<lambda>u p. False) demo_proxy" "[]" 5 "''r''" "\<lambda>u p. False"
        "demo_ctx (demo_request ''a:443'' [] [])" 0 OkConnect "''a:443''"
        "new_ctx 1 0 (demo_ctx (demo_request ''a:443'' [] []))" new_conn "\<lambda>x. [1]", simplified])
    (simp_all add: ProxyBasic_def HandleConnect_def Do_request_def demo_proxy_def NewProxyHttpServer_def demo_ctx_def
        demo_request_def auth_def new_ctx_def hdr_Get_def hdr_values_def cut_def Let_def)

section \<open>What goes through\<close>

text \<open>
  C27: Each direction of a tunnel hands over every byte: when the source ends, everything it
  had to give has been written to the other side, in order, and that side is closed.
\<close>

theorem tunnel_copies:
  assumes "rd_end r = Some io_EOF" and "cn_room w = None" and "length (rd_in r) < k"
  shows "\<exists>w' r'. copyAndClose k rd_Read w r = Some (w', r') \<and> cn_out w' = cn_out w @ rd_in r \<and> cn_closed w'"
proof -
  have "rd_complete r" "conn_sound w" using assms by (simp_all add: rd_complete_def conn_sound_def)
  then obtain w' r' where "io_Copy conn_Write rd_Read k 0 w r = (RVal (length (rd_in r), None), w', r')"
    "cn_out w' = cn_out w @ rd_in r"
    using bufio.io_Copy_all [OF conn_sink.byte_sink_axioms _ _ assms(3), of w 0] by auto
  then show ?thesis by (simp add: copyAndClose_def conn_Close_def)
qed

theorem tunnel_copies_witness:
  "\<exists>w' r'. copyAndClose 3 rd_Read new_conn \<lparr>rd_in = [1, 2], rd_end = Some io_EOF, rd_sizes = [1]\<rparr> = Some (w', r') \<and>
    cn_out w' = [1, 2] \<and> cn_closed w'"
  using tunnel_copies [of "\<lparr>rd_in = [1, 2], rd_end = Some io_EOF, rd_sizes = [1]\<rparr>" new_conn 3] by (simp add: new_conn_def)

lemma concat_blocks: "0 < n \<Longrightarrow> concat (blocks n b) = b"
proof (induction n b rule: blocks.induct)
  case (1 n b)
  then show ?case by (subst blocks.simps) simp
qed

lemma write_then_sound:
  "conn_sound c \<Longrightarrow> \<exists>c'. write_then b f c = f c' \<and> conn_sound c' \<and> cn_out c' = cn_out c @ b"
  by (intro exI [of _ "c\<lparr>cn_out := cn_out c @ b\<rparr>"]) (simp add: write_then_def conn_Write_def conn_sound_def)

text \<open>
  C11: The answer on an intercepted connection is self-delimiting whatever the response's own
  length was: after the status line and a header with chunked encoding and no content length
  comes the body in chunks, which the client decodes to exactly the response's body, with just
  the final line end after it.
\<close>

theorem mitm_response_decodes:
  assumes "conn_sound c" and no_err: "body_err (resp_Body resp) = None"
  shows "\<exists>c' enc k. mitm_respond resp c = (None, c') \<and>
    cn_out c' = cn_out c @ bytes_of (mitm_status resp @ WriteSubset [] (mitm_header resp) @ crlf) @ enc \<and>
    dechunk k enc = Some (body_data (resp_Body resp), bytes_of crlf)"
proof -
  let ?bs = "blocks 32768 (body_data (resp_Body resp))"
  let ?e = "\<lambda>c. (None :: werror option, c)"
  define g where "g = (\<lambda>c. case chunked_Writes conn_Write ?bs c of
      (Some e, c) \<Rightarrow> (Some e, c) | (None, c) \<Rightarrow> write_then (bytes_of crlf) ?e c)"
  obtain c1 where 1: "write_then (bytes_of (mitm_status resp)) (write_then (bytes_of (WriteSubset [] (mitm_header resp)))
      (write_then (bytes_of crlf) g)) c = write_then (bytes_of (WriteSubset [] (mitm_header resp))) (write_then (bytes_of crlf) g) c1"
    "conn_sound c1" "cn_out c1 = cn_out c @ bytes_of (mitm_status resp)"
    using write_then_sound [OF assms(1)] by blast
  obtain c2 where 2: "write_then (bytes_of (WriteSubset [] (mitm_header resp))) (write_then (bytes_of crlf) g) c1 =
      write_then (bytes_of crlf) g c2" "conn_sound c2" "cn_out c2 = cn_out c1 @ bytes_of (WriteSubset [] (mitm_header resp))"
    using write_then_sound [OF 1(2)] by blast
  obtain c3 where 3: "write_then (bytes_of crlf) g c2 = g c3" "conn_sound c3" "cn_out c3 = cn_out c2 @ bytes_of crlf"
    using write_then_sound [OF 2(2)] by blast
  obtain c4 where 4: "chunked_Writes conn_Write ?bs c3 = (None, c4)" "conn_sound c4"
    using conn_sink.chunked_Writes_sound [OF 3(2)] by blast
  obtain c5 where 5: "write_then (bytes_of crlf) ?e c4 = ?e c5" "cn_out c5 = cn_out c4 @ bytes_of crlf"
    using write_then_sound [OF 4(2)] by blast
  have r: "mitm_respond resp c = (None, c5)"
    unfolding mitm_respond_def mitm_body_def no_err option.case g_def [symmetric] using 1(1) 2(1) 3(1) 4(1) 5(1) by (simp add: g_def)
  let ?enc = "(concat (map chunk ?bs) @ bytes_of (''0'' @ crlf)) @ bytes_of crlf"
  have "cn_out c5 = cn_out c @ bytes_of (mitm_status resp @ WriteSubset [] (mitm_header resp) @ crlf) @ ?enc"
    using 1(3) 2(3) 3(3) 5(2) conn_sink.chunked_Writes_ok [OF 4(1)] by simp
  moreover have "dechunk (Suc (length ?bs)) ?enc = Some (body_data (resp_Body resp), bytes_of crlf)"
    using dechunk_chunks [of ?bs "Suc (length ?bs)" "bytes_of crlf"] concat_blocks [of 32768] by simp
  ultimately show ?thesis using r by blast
qed

theorem mitm_response_decodes_witness:
  "\<exists>c' enc k. mitm_respond (TextResponse 1 ''hello'') new_conn = (None, c') \<and>
    cn_out c' = bytes_of (mitm_status (TextResponse 1 ''hello'') @
      WriteSubset [] (mitm_header (TextResponse 1 ''hello'')) @ crlf) @ enc \<and>
    dechunk k enc = Some (bytes_of ''hello'', bytes_of crlf)"
proof -
  have s: "conn_sound new_conn" by (simp add: conn_sound_def new_conn_def)
  have b: "body_data (resp_Body (TextResponse 1 ''hello'')) = bytes_of ''hello''"
    by (simp add: TextResponse_def NewResponse_def buffer_body_def)
  have "cn_out new_conn = []" by (simp add: new_conn_def)
  moreover have "body_err (resp_Body (TextResponse 1 ''hello'')) = None"
    by (simp add: TextResponse_def NewResponse_def buffer_body_def)
  ultimately show ?thesis using mitm_response_decodes [OF s, of "TextResponse 1 ''hello''"] unfolding b by simp
qed

text \<open>
  A request on an intercepted connection whose URL does not parse stops the program when
  no handler answers it: the warning about the illegal URL looks into the nil URL.
\<close>

theorem illegal_url_panics:
  assumes "reqHandlers p = []" and "parse (''https://'' @ host @ url_String (req_URL (reqs ctx q))) = Inl e"
  shows "mitm_exchange parse call tr p host q c ctx = Panic ''nil pointer dereference''"
  using assms by (simp add: mitm_exchange_def Let_def filterRequest_def set_req_def)

theorem illegal_url_panics_witness:
  "mitm_exchange (\<lambda>s. Inl io_EOF) call tr demo_proxy ''h%'' 0 new_conn (demo_ctx (demo_request ''a'' ''/'' [])) =
    Panic ''nil pointer dereference''"
  by (rule illegal_url_panics) (simp_all add: demo_proxy_def NewProxyHttpServer_def)

end
