(* ===== verification/Agent.thy ===== *)
theory Agent
  imports Yamux_Transfer Ws_Delivery Gp_Https "HOL-Library.Sublist"
begin

text \<open>
  server.go, the program itself, and the way its layers rest on each other: a websocket carries
  the frames of a yamux session, whose streams the proxy serves. http.Serve and the request
  multiplexer of net/http are parameters or modelled as documented.
\<close>

section \<open>The program\<close>

text \<open>
  The handlers of the multiplexer that main listens with: its own two, and those that the
  imported package net/http/pprof registers, under the patterns \<open>pats\<close>.
\<close>

datatype route = indexCallback | websocketHandler | imported string

definition routes :: "string list \<Rightarrow> (string \<times> route) list" where
  "routes pats = map (\<lambda>pat. (pat, imported pat)) pats @ [(''/'', indexCallback), (''/websocket'', websocketHandler)]"

text \<open>
  net/http's choice: a pattern that ends in a slash stands for every path below it, and the
  longest pattern that matches is taken.
\<close>

definition matches :: "string \<Rightarrow> string \<Rightarrow> bool" where
  "matches pat path = (if pat \<noteq> [] \<and> last pat = CHR ''/'' then HasPrefix path pat else path = pat)"

fun longest :: "(string \<times> route) list \<Rightarrow> (string \<times> route) option" where
  "longest [] = None"
| "longest (x # xs) = (case longest xs of
      None \<Rightarrow> Some x
    | Some y \<Rightarrow> Some (if length (fst x) < length (fst y) then y else x))"

definition handler_for :: "string list \<Rightarrow> string \<Rightarrow> route option" where
  "handler_for pats path = map_option snd (longest (filter (\<lambda>(pat, h). matches pat path) (routes pats)))"

definition listen_port :: "(string \<Rightarrow> string) \<Rightarrow> string" where
  "listen_port env = (let port = env ''PORT'' in '':'' @ (if port = [] then ''8080'' else port))"

text \<open>The index page, whatever is asked for; the writer sets the status with the first write.\<close>

definition html :: string where
  \<open>html = concat (map (\<lambda>l. l @ [CHR 0x0A])
    [[],
     ''<!DOCTYPE html PUBLIC "-//W3C//DTD XHTML 1.0 Strict//EN"'',
     CHR 0x09 # ''"http://www.w3.org/TR/xhtml1/DTD/xhtml1-strict.dtd">'',
     [],
     ''<html xmlns="http://www.w3.org/1999/xhtml" xml:lang="en" lang="en">'',
     ''<head>'',
     CHR 0x09 # ''<meta http-equiv="Content-Type" content="text/html; charset=utf-8"/>'',
     CHR 0x09 # ''<title>n6bagent</title>'',
     ''</head>'',
     [],
     ''<body>'',
     ''    <h1><a href="http://github.com/tiancaiamao/n6bagent">n6bagent</a></h1>'',
     [],
     ''      Welcome to use n6bagent!'',
     ''</body>'',
     ''</html>''])\<close>

definition index_page :: "client_writer \<Rightarrow> client_writer" where
  "index_page w = w\<lparr>cw_Status := (case cw_Status w of None \<Rightarrow> Some 200 | Some code \<Rightarrow> Some code),
     cw_Body := cw_Body w @ bytes_of html\<rparr>"

text \<open>
  websocketCallback: \<open>serve\<close> is http.Serve on the session with a new proxy; it gives the error
  with which it ended, and the websocket as the session left it. c is the websocket as the
  session sees it, a connection of bytes.
\<close>

definition websocketCallback :: "(session \<Rightarrow> ('r, 'u) proxy \<Rightarrow> ws_conn \<Rightarrow> werror option \<times> ws_conn)
    \<Rightarrow> Yamux_State.conn \<Rightarrow> ws_conn \<Rightarrow> ws_conn" where
  "websocketCallback serve c ws =
     (case yamux_Server c None of
        Inl err \<Rightarrow> snd (Conn_Close ws)
      | Inr session \<Rightarrow>
          (case serve session NewProxyHttpServer ws of
             (Some err, ws) \<Rightarrow> snd (Conn_Close ws)
           | (None, ws) \<Rightarrow> ws))"

section \<open>A session over a websocket\<close>

text \<open>
  The session r after the session of the other side has made the writes ms on its end of the
  websocket and r's side has read its own end, 4096 bytes at a time; \<open>srv\<close> tells whether r is
  the server's, \<open>keys\<close> are the masking keys that a client draws and \<open>sizes\<close> the sizes in which
  the network delivers.
\<close>

definition over_websocket :: "bool \<Rightarrow> bytes list \<Rightarrow> bytes list \<Rightarrow> nat list \<Rightarrow> session \<Rightarrow> session option" where
  "over_websocket srv keys ms sizes r =
     (case ReadAll Conn_Read (Suc (length (concat ms))) 4096 []
         (conn_on srv (bw_out (ws_wr (Conn_Writes ms (conn_new (\<not> srv) keys)))) sizes) of
        (RVal (b, None), _) \<Rightarrow> Some (peer_sends b r)
      | _ \<Rightarrow> None)"

lemma over_websocket_transparent:
  assumes "\<forall>key \<in> set keys. length key = 4" and "length ms \<le> length keys" and "\<forall>m \<in> set ms. length m < 2 ^ 63"
  shows "over_websocket True keys ms sizes r = Some (peer_sends (concat ms) r)"
  using Conn_Writes_arrive [OF assms, of "Suc (length (concat ms))" 4096 sizes] by (auto simp: over_websocket_def)

lemma over_websocket_back:
  assumes "\<forall>m \<in> set ms. length m < 2 ^ 63"
  shows "over_websocket False [] ms sizes r = Some (peer_sends (concat ms) r)"
  using server_Conn_Writes_arrive [OF assms, of "Suc (length (concat ms))" 4096 sizes] by (auto simp: over_websocket_def)

section \<open>Properties\<close>

text \<open>
  C4: The layers compose: a write on a yamux stream that fits its window goes out as a header
  and the data, the client's websocket masks and frames the two, and the server's session,
  reading its websocket in whatever pieces the network delivers, finds exactly this frame and
  appends exactly the written bytes to its stream.
\<close>

theorem write_through_websocket:
  assumes "quiet w" and "p < length (objs w)" and "chbuf (sendErr (strm w p)) = []"
    and "writable (state (strm w p))" and "state (strm w p) \<noteq> streamInit"
    and "b \<noteq> []" and "length b \<le> unat (sendWindow (strm w p))"
    and "conn_in (yconn r) = []" and "map_of (streams r) (stream_id (strm w p)) = Some k"
    and "k < length (objs r)" and "sendWindow (strm w p) \<le> recvWindow (strm r k)"
    and "length key1 = 4" and "length key2 = 4"
  shows "\<exists>w' h s r'. Write p b w = Some (Ret (length b, None), w') \<and>
     conn_out (yconn w') = conn_out (yconn w) @ h @ b \<and> length h = headerSize \<and>
     over_websocket True [key1, key2] [h, b] sizes r = Some s \<and> recv_step s = (Ret True, r') \<and>
     recvBuf (strm r' k) = recvBuf (strm r k) @ b \<and> conn_in (yconn r') = []"
proof -
  obtain w' h r' where t: "Write p b w = Some (Ret (length b, None), w')"
    "conn_out (yconn w') = conn_out (yconn w) @ h @ b" "length h = headerSize"
    "recv_step (peer_sends (h @ b) r) = (Ret True, r')"
    "recvBuf (strm r' k) = recvBuf (strm r k) @ b" "conn_in (yconn r') = []"
    using write_transfer [OF assms(1-11)] by blast
  have "unat (sendWindow (strm w p)) < 2 ^ 32" using unat_lt_pow [of "sendWindow (strm w p)"] by simp
  then have "length b < 2 ^ 63" using assms(7) by simp
  then have "over_websocket True [key1, key2] [h, b] sizes r = Some (peer_sends (concat [h, b]) r)"
    using assms(12,13) t(3) by (intro over_websocket_transparent) (simp_all add: headerSize_def)
  with t show ?thesis by simp
qed

theorem write_through_websocket_witness:
  "\<exists>w' h s r'. Write 0 [7, 8, 9] (demo_session True) = Some (Ret (3, None), w') \<and>
     conn_out (yconn w') = h @ [7, 8, 9] \<and>
     over_websocket True [[1, 2, 3, 4], [5, 6, 7, 8]] [h, [7, 8, 9]] [1, 1, 5] (demo_session False) = Some s \<and>
     recv_step s = (Ret True, r') \<and> recvBuf (strm r' 0) = [7, 8, 9]"
proof -
  have c: "chbuf (sendErr (new_stream 1 streamEstablished)) = []" "state (new_stream 1 streamEstablished) = streamEstablished"
    "sendWindow (new_stream 1 streamEstablished) = 262144" "recvWindow (new_stream 1 streamEstablished) = 262144"
    "stream_id (new_stream 1 streamEstablished) = 1" "recvBuf (new_stream 1 streamEstablished) = []"
    by (simp_all add: new_stream_def make_chan_def initialStreamWindow_def)
  from write_through_websocket [OF demo_session_quiet [of True], of 0 "[7, 8, 9]" "demo_session False" 0
      "[1, 2, 3, 4]" "[5, 6, 7, 8]" "[1, 1, 5]"] c
  show ?thesis by (auto simp: writable_def demo_conn_def numeral_3_eq_3)
qed

text \<open>
  The callback always serves: with the default configuration the session is a well-formed
  server's session, it is handed to http.Serve with a fresh proxy, and the websocket is closed
  when serving ends with an error.
\<close>

theorem websocketCallback_serves:
  "\<exists>s. session_start s \<and> session_ok s \<and> nextStreamID s = 2 \<and> yconn s = c \<and>
     websocketCallback serve c ws =
       (case serve s NewProxyHttpServer ws of (Some e, ws) \<Rightarrow> snd (Conn_Close ws) | (None, ws) \<Rightarrow> ws)"
proof -
  have v: "VerifyConfig DefaultConfig = None" by (simp add: VerifyConfig_None)
  then have s: "yamux_Server c None = Inr (newSession DefaultConfig c False)" by (simp add: yamux_Server_def)
  then have "session_start (newSession DefaultConfig c False)" unfolding session_start_def by blast
  moreover have "session_ok (newSession DefaultConfig c False)" by (rule newSession_ok) simp
  ultimately show ?thesis using s
    by (intro exI [of _ "newSession DefaultConfig c False"]) (simp add: websocketCallback_def newSession_def)
qed

text \<open>
  Every path but the websocket's shows the index page, where the imported package does not
  claim it; what that package claims is served on the same port.
\<close>

lemma handler_for_path:
  assumes "\<forall>pat \<in> set pats. HasPrefix pat ''/debug/''" and "\<not> HasPrefix path ''debug/''"
  shows "handler_for pats (CHR ''/'' # path) = Some (if path = ''websocket'' then websocketHandler else indexCallback)"
proof -
  have "\<not> matches pat (CHR ''/'' # path)" if "pat \<in> set pats" for pat
  proof -
    have "prefix ''/debug/'' pat" using assms(1) that by (metis HasPrefix_def take_is_prefix)
    moreover have "prefix pat (CHR ''/'' # path)" if "matches pat (CHR ''/'' # path)"
      using that by (metis HasPrefix_def matches_def prefix_order.refl take_is_prefix)
    ultimately have "prefix ''debug/'' path" if "matches pat (CHR ''/'' # path)"
      using that by (meson Cons_prefix_Cons prefix_order.trans)
    with assms(2) show ?thesis by (auto simp: HasPrefix_def prefix_def)
  qed
  then have "filter (\<lambda>(pat, h). matches pat (CHR ''/'' # path)) (map (\<lambda>pat. (pat, imported pat)) pats) = []"
    by (auto simp: filter_empty_conv)
  then show ?thesis by (simp add: handler_for_def routes_def matches_def HasPrefix_def)
qed

lemma pprof_served: "handler_for [''/debug/pprof/''] ''/debug/pprof/'' = Some (imported ''/debug/pprof/'')"
  by (simp add: handler_for_def routes_def matches_def HasPrefix_def)

end
