(* ===== verification/Agent_Exchange.thy ===== *)
theory Agent_Exchange
  imports Agent
begin

text \<open>
  The program in use: two sessions at the two ends of a websocket, a stream that both have
  open, and a conversation on it. Whatever one side writes the other side reads, whole and in
  order, and the window updates that reading sends back keep the conversation going; so a
  request written by the client is answered by what the proxy of the server makes of it.
\<close>

section \<open>A stream with both ends\<close>

definition stream_ready :: "session \<Rightarrow> nat \<Rightarrow> bool" where
  "stream_ready s p \<longleftrightarrow> quiet s \<and> p < length (objs s) \<and> chbuf (sendErr (strm s p)) = [] \<and> chbuf (controlErr (strm s p)) = [] \<and>
     recvWindow (strm s p) \<le> MaxStreamWindowSize (cfg s) \<and>
     writable (state (strm s p)) \<and> state (strm s p) \<noteq> streamInit \<and> conn_in (yconn s) = []"

definition linked :: "session \<Rightarrow> nat \<Rightarrow> session \<Rightarrow> nat \<Rightarrow> bool" where
  "linked w p r k \<longleftrightarrow> stream_ready w p \<and> stream_ready r k \<and>
     map_of (streams r) (stream_id (strm w p)) = Some k \<and> map_of (streams w) (stream_id (strm r k)) = Some p \<and>
     sendWindow (strm w p) = recvWindow (strm r k) \<and> sendWindow (strm r k) = recvWindow (strm w p)"

lemma linked_sym: "linked w p r k \<Longrightarrow> linked r k w p"
  by (simp add: linked_def)

lemma writable_acked [simp]: "writable st \<Longrightarrow> writable (acked f st)"
  by (simp add: acked_def writable_def)

lemma acked_not_init [simp]: "st \<noteq> streamInit \<Longrightarrow> acked f st \<noteq> streamInit"
  by (simp add: acked_def)

text \<open>A write that fits keeps the two ends linked.\<close>

lemma linked_write:
  assumes l: "linked w p r k" and b: "b \<noteq> []" "length b \<le> unat (sendWindow (strm w p))"
  obtains w' h r' where "Write p b w = Some (Ret (length b, None), w')"
    "conn_out (yconn w') = conn_out (yconn w) @ h @ b" "length h = headerSize"
    "recv_step (peer_sends (h @ b) r) = (Ret True, r')" "linked w' p r' k"
    "recvBuf (strm r' k) = recvBuf (strm r k) @ b" "recvBuf (strm w' p) = recvBuf (strm w p)"
    "cfg w' = cfg w" "cfg r' = cfg r" "recvWindow (strm w' p) = recvWindow (strm w p)"
proof -
  let ?n = "of_nat (length b) :: u32"
  let ?h = "wire_header typeData (flags_of (state (strm w p))) (stream_id (strm w p)) ?n"
  let ?f = "\<lambda>x. x\<lparr>state := acked (flags_of (state (strm w p))) (state x), recvBuf := recvBuf x @ b,
    recvWindow := recvWindow x - ?n, recvNotifyCh := asyncNotify (recvNotifyCh x)\<rparr>"
  have w: "stream_ready w p" and r: "stream_ready r k" and win: "sendWindow (strm w p) = recvWindow (strm r k)"
    and reg: "map_of (streams r) (stream_id (strm w p)) = Some k"
    using l by (simp_all add: linked_def)
  have lt: "length b < 2 ^ 32" using b(2) unat_lt_pow [of "sendWindow (strm w p)"] by simp
  then have n: "unat ?n = length b" by (simp add: unat_of_nat)
  have le: "?n \<le> sendWindow (strm w p)" using b(2) n by (simp add: word_le_nat_alt)
  have W: "Write p b w = Some (Ret (length b, None), after_frame p ?n b w)"
    using w b by (intro Write_fits) (simp_all add: stream_ready_def)
  have R: "recv_step (peer_sends (?h @ b) r) = (Ret True, upd k ?f r)"
  proof -
    have "recv_step (peer_sends (?h @ b) r) = (Ret True,
       upd k ?f ((peer_sends (?h @ b) r)\<lparr>yconn := (yconn (peer_sends (?h @ b) r))\<lparr>conn_in := []\<rparr>\<rparr>))"
    proof (rule data_frame_accepted)
      show "?n \<le> recvWindow (strm (peer_sends (?h @ b) r) k)"
        using win le by (simp add: peer_sends_def)
      show "0 < ?n" using b n by (metis length_greater_0_conv unat_0 word_gt_0 neq0_conv)
    qed (use r n w reg in \<open>simp_all add: peer_sends_def plain_flags_of stream_ready_def\<close>)
    moreover have "(peer_sends (?h @ b) r)\<lparr>yconn := (yconn (peer_sends (?h @ b) r))\<lparr>conn_in := []\<rparr>\<rparr> = r"
      using r by (simp add: peer_sends_def stream_ready_def)
    ultimately show ?thesis by simp
  qed
  have sel: "strm (upd k ?f r) k = ?f (strm r k)" "quiet (upd k ?f r)"
    using r by (auto simp: stream_ready_def stream_ok_def intro!: quiet_upd)
  let ?w = "after_frame p ?n b w"
  have W': "cfg ?w = cfg w" "length (objs ?w) = length (objs w)" "streams ?w = streams w" "conn_in (yconn ?w) = conn_in (yconn w)"
    "strm ?w p = (strm w p)\<lparr>state := after_flags (state (strm w p)), sendHdr := ?h, sendWindow := sendWindow (strm w p) - ?n\<rparr>"
    using w by (simp_all add: after_frame_def Let_def stream_ready_def emit_def)
  have st: "after_flags st \<noteq> streamInit" if "st \<noteq> streamInit" for st using that by (cases st) (simp_all add: after_flags_def)
  have "recvWindow (strm r k) - ?n \<le> recvWindow (strm r k)" using win le by (simp add: word_sub_le)
  then have less: "recvWindow (strm r k) - ?n \<le> MaxStreamWindowSize (cfg r)"
    by (rule order_trans) (use r in \<open>simp add: stream_ready_def\<close>)
  have link: "linked ?w p (upd k ?f r) k"
    using l less sel W' st by (simp add: linked_def stream_ready_def)
  show thesis
  proof (rule that [OF W _ _ R link])
    show "conn_out (yconn ?w) = conn_out (yconn w) @ ?h @ b"
      using w n by (simp add: stream_ready_def after_frame_sel)
  qed (use sel(1) W' in simp_all)
qed

text \<open>A window update of an open stream, and a read, which may send one.\<close>

lemma window_frame_accepted:
  assumes inp: "conn_in (yconn s) = wire_header typeWindowUpdate f i d"
    and reg: "map_of (streams s) i = Some p" and p: "p < length (objs s)" and f: "plain_flags f"
  shows "recv_step s = (Ret True,
     upd p (\<lambda>x. x\<lparr>state := acked f (state x), sendWindow := sendWindow x + d, sendNotifyCh := asyncNotify (sendNotifyCh x)\<rparr>)
       (s\<lparr>yconn := (yconn s)\<lparr>conn_in := []\<rparr>\<rparr>))"
proof -
  let ?t = "s\<lparr>yconn := (yconn s)\<lparr>conn_in := []\<rparr>\<rparr>"
  have "incrSendWindow p (wire_header typeWindowUpdate f i d) f ?t = (None,
     upd p (\<lambda>x. x\<lparr>state := acked f (state x), sendWindow := sendWindow x + d, sendNotifyCh := asyncNotify (sendNotifyCh x)\<rparr>) ?t)"
    using p processFlags_plain [OF f, of p ?t]
    by (simp add: incrSendWindow_def decode_wire set_state_def upd_def strm_def)
  moreover have "\<not> has_flag f flagSYN" using f by (simp add: plain_flags_def)
  ultimately show ?thesis
    using recv_step_frame [of s typeWindowUpdate f i d "[]"] inp reg
    by (simp add: dispatch_def decode_wire handleStreamMessage_def)
qed

lemma Read_quiet:
  fixes n :: nat
  assumes w: "stream_ready w p" and b: "recvBuf (strm w p) \<noteq> []"
  defines "u \<equiv> upd p (\<lambda>x. x\<lparr>recvBuf := drop n (recvBuf x)\<rparr>) w"
  shows "Read p n w = (Ret (take n (recvBuf (strm w p)), None),
    upd p (\<lambda>x. x\<lparr>recvNotifyCh := asyncNotify (recvNotifyCh x)\<rparr>) (snd (sendWindowUpdate p u)))"
proof -
  have "quiet u" using w by (auto simp: u_def stream_ready_def intro: quiet_upd)
  then have "fst (sendWindowUpdate p u) = Ret None"
    using sendWindowUpdate_quiet [of u p] w by (simp add: u_def stream_ready_def)
  moreover have "state (strm w p) \<noteq> streamReset" using w by (auto simp: stream_ready_def writable_def)
  ultimately have "Read_loop k p n w = (Ret (take n (recvBuf (strm w p)), None), snd (sendWindowUpdate p u))" for k
    using b by (subst Read_loop.simps) (auto simp: u_def Let_def split: prod.split)
  then show ?thesis by (simp add: Read_def)
qed

text \<open>
  What a read of the stream p of session w sends to the other side is nothing or one frame,
  and the two ends stay linked when that has taken it; afterwards the window is at least half
  of its maximum.
\<close>

lemma linked_read:
  assumes l: "linked w p r k" and b: "recvBuf (strm w p) \<noteq> []"
  obtains w' h r' where "Read p n w = (Ret (take n (recvBuf (strm w p)), None), w')"
    "conn_out (yconn w') = conn_out (yconn w) @ h" "length h \<le> headerSize"
    "if h = [] then r' = r else recv_step (peer_sends h r) = (Ret True, r')"
    "linked w' p r' k" "recvBuf (strm w' p) = drop n (recvBuf (strm w p))" "recvBuf (strm r' k) = recvBuf (strm r k)"
    "cfg w' = cfg w" "cfg r' = cfg r" "recvWindow (strm r' k) = recvWindow (strm r k)"
    "unat (MaxStreamWindowSize (cfg w)) \<le> 2 * unat (recvWindow (strm w' p)) + 1"
proof -
  let ?st = "state (strm w p)" and ?mx = "MaxStreamWindowSize (cfg w)"
  let ?d = "?mx - recvWindow (strm w p)"
  let ?h = "wire_header typeWindowUpdate (flags_of ?st) (stream_id (strm w p)) ?d"
  let ?u = "upd p (\<lambda>x. x\<lparr>recvBuf := drop n (recvBuf x)\<rparr>) w"
  let ?note = "upd p (\<lambda>x. x\<lparr>recvNotifyCh := asyncNotify (recvNotifyCh x)\<rparr>)"
  have w: "stream_ready w p" and r: "stream_ready r k" and win: "sendWindow (strm r k) = recvWindow (strm w p)"
    and reg: "map_of (streams r) (stream_id (strm w p)) = Some k"
    using l by (simp_all add: linked_def)
  have le: "recvWindow (strm w p) \<le> ?mx" using w by (simp add: stream_ready_def)
  note R = Read_quiet [OF w b, of n]
  have q: "quiet ?u" "p < length (objs w)" "chbuf (controlErr (strm w p)) = []"
    using w by (auto simp: stream_ready_def intro: quiet_upd)
  have su: "sendWindowUpdate p ?u = (if ?d < ?mx div 2 \<and> flags_of ?st = 0 then (Ret None, ?u)
      else (Ret None, upd p (\<lambda>x. x\<lparr>state := after_flags ?st, controlHdr := ?h, recvWindow := ?mx\<rparr>) (emit ?h ?u)))"
    using sendWindowUpdate_quiet [OF q(1), of p] q by simp
  have note_ok: "quiet s \<Longrightarrow> quiet (?note s)" for s by (rule quiet_upd) (auto simp: stream_ok_def)
  show thesis
  proof (cases "?d < ?mx div 2 \<and> flags_of ?st = 0")
    case True
    then have "unat ?d < unat ?mx div 2" by (simp add: word_less_nat_alt unat_div)
    then have "unat ?mx \<le> 2 * unat (recvWindow (strm w p)) + 1" using le by (simp add: unat_sub word_le_nat_alt)
    moreover have "linked (?note ?u) p r k"
      using l w note_ok [OF q(1)] by (simp add: linked_def stream_ready_def)
    ultimately show thesis
      by (intro that [of "?note ?u" "[]" r]) (use R su True w in \<open>simp_all add: stream_ready_def\<close>)
  next
    case False
    let ?v = "upd p (\<lambda>x. x\<lparr>state := after_flags ?st, controlHdr := ?h, recvWindow := ?mx\<rparr>) (emit ?h ?u)"
    let ?r = "upd k (\<lambda>x. x\<lparr>state := acked (flags_of ?st) (state x), sendWindow := sendWindow x + ?d,
      sendNotifyCh := asyncNotify (sendNotifyCh x)\<rparr>) r"
    have v: "snd (sendWindowUpdate p ?u) = ?v" using su False by auto
    have qv: "quiet ?v" using q(1) by (auto intro!: quiet_upd simp: stream_ok_def)
    have qr: "quiet ?r" using r by (auto intro!: quiet_upd simp: stream_ready_def stream_ok_def)
    have "recv_step (peer_sends ?h r) = (Ret True, ?r)"
    proof -
      have "(peer_sends ?h r)\<lparr>yconn := (yconn (peer_sends ?h r))\<lparr>conn_in := []\<rparr>\<rparr> = r"
        using r by (simp add: peer_sends_def stream_ready_def)
      then show ?thesis
        using window_frame_accepted [of "peer_sends ?h r" "flags_of ?st" "stream_id (strm w p)" ?d k] r w reg
        by (simp add: peer_sends_def stream_ready_def plain_flags_of)
    qed
    moreover have "after_flags st \<noteq> streamInit" if "st \<noteq> streamInit" for st
      using that by (cases st) (simp_all add: after_flags_def)
    then have "linked (?note ?v) p ?r k"
      using l w r qr note_ok [OF qv] win by (simp add: linked_def stream_ready_def emit_def)
    ultimately show thesis
      by (intro that [of "?note ?v" ?h ?r]) (use R v w r in \<open>simp_all add: stream_ready_def emit_def wire_header_def\<close>)
  qed
qed

section \<open>Saying and hearing\<close>

text \<open>
  What session w has put on its connection since it was w0 crosses the websocket to session r,
  where \<open>srv\<close> tells whether r is the server's; the receive loop of r then takes one frame.
  The send goroutine hands header and data to the websocket in two writes, and a header alone
  in one.
\<close>

definition cross :: "bool \<Rightarrow> bytes list \<Rightarrow> nat list \<Rightarrow> session \<Rightarrow> session \<Rightarrow> session \<Rightarrow> session option" where
  "cross srv keys sizes w0 w r =
     (let out = drop (length (conn_out (yconn w0))) (conn_out (yconn w)) in
      if out = [] then Some r
      else (case over_websocket srv keys
                  (take headerSize out # (if length out \<le> headerSize then [] else [drop headerSize out])) sizes r of
              None \<Rightarrow> None
            | Some s \<Rightarrow> (case recv_step s of (Ret True, r') \<Rightarrow> Some r' | _ \<Rightarrow> None)))"

text \<open>A write of session w on its stream p, and reads of session r on its stream k until nothing is left.\<close>

definition say :: "bool \<Rightarrow> bytes list \<Rightarrow> nat list \<Rightarrow> nat \<Rightarrow> bytes \<Rightarrow> session \<Rightarrow> session \<Rightarrow> (session \<times> session) option" where
  "say srv keys sizes p b w r =
     (case Write p b w of
        Some (Ret (n, None), w') \<Rightarrow> map_option (Pair w') (cross srv keys sizes w w' r)
      | _ \<Rightarrow> None)"

fun hear :: "bool \<Rightarrow> nat \<Rightarrow> nat \<Rightarrow> (bytes \<times> nat list) list \<Rightarrow> session \<Rightarrow> session \<Rightarrow> (bytes \<times> session \<times> session) option" where
  "hear srv n k [] r w = Some ([], r, w)"
| "hear srv n k ((key, sizes) # reads) r w =
     (if recvBuf (strm r k) = [] then Some ([], r, w)
      else (case Read k n r of
          (Ret (b, None), r') \<Rightarrow>
            (case cross srv (if srv then [key] else []) sizes r r' w of
               None \<Rightarrow> None
             | Some w' \<Rightarrow> map_option (\<lambda>(b', s). (b @ b', s)) (hear srv n k reads r' w'))
        | _ \<Rightarrow> None))"

lemma cross_passes:
  assumes "conn_out (yconn w) = conn_out (yconn w0) @ h @ b" and "if h @ b = [] then r' = r else recv_step (peer_sends (h @ b) r) = (Ret True, r')"
    and "b \<noteq> [] \<Longrightarrow> length h = headerSize" and "length h \<le> headerSize" and "length b < 2 ^ 63"
    and "srv \<Longrightarrow> (if b = [] then 1 else 2) \<le> length keys \<and> (\<forall>key \<in> set keys. length key = 4)" and "\<not> srv \<Longrightarrow> keys = []"
  shows "cross srv keys sizes w0 w r = Some r'"
proof -
  let ?ms = "if b = [] then [h] else [h, b]"
  have "\<forall>m \<in> set ?ms. length m < 2 ^ 63" using assms(4,5) by (auto simp: headerSize_def)
  then have "over_websocket srv keys ?ms sizes r = Some (peer_sends (h @ b) r)"
    using over_websocket_transparent [of keys ?ms sizes r] over_websocket_back [of ?ms sizes r] assms(6,7)
    by (cases srv) (auto split: if_splits)
  then show ?thesis using assms(1-4) by (auto simp: cross_def Let_def split: if_splits)
qed

lemma say_linked:
  assumes l: "linked w p r k" and b: "b \<noteq> []" "length b \<le> unat (sendWindow (strm w p))"
    and keys: "srv \<Longrightarrow> 2 \<le> length keys \<and> (\<forall>key \<in> set keys. length key = 4)" "\<not> srv \<Longrightarrow> keys = []"
  obtains w' r' where "say srv keys sizes p b w r = Some (w', r')" "linked w' p r' k"
    "recvBuf (strm r' k) = recvBuf (strm r k) @ b" "recvBuf (strm w' p) = recvBuf (strm w p)"
    "cfg w' = cfg w" "cfg r' = cfg r" "recvWindow (strm w' p) = recvWindow (strm w p)"
proof -
  obtain w' h r' where t: "Write p b w = Some (Ret (length b, None), w')"
    "conn_out (yconn w') = conn_out (yconn w) @ h @ b" "length h = headerSize"
    "recv_step (peer_sends (h @ b) r) = (Ret True, r')" "linked w' p r' k"
    "recvBuf (strm r' k) = recvBuf (strm r k) @ b" "recvBuf (strm w' p) = recvBuf (strm w p)"
    "cfg w' = cfg w" "cfg r' = cfg r" "recvWindow (strm w' p) = recvWindow (strm w p)"
    by (rule linked_write [OF l b])
  have "length b < 2 ^ 63" using b(2) unat_lt_pow [of "sendWindow (strm w p)"] by simp
  then have "cross srv keys sizes w w' r = Some r'"
    using t(2-4) b(1) keys by (intro cross_passes [of w' w h b]) simp_all
  with t that show thesis by (simp add: say_def)
qed

lemma hear_linked:
  "linked r k w p \<Longrightarrow> 0 < n \<Longrightarrow> length (recvBuf (strm r k)) \<le> n * length reads \<Longrightarrow> \<forall>(key, sizes) \<in> set reads. length key = 4 \<Longrightarrow>
    \<exists>r' w'. hear srv n k reads r w = Some (recvBuf (strm r k), r', w') \<and> linked r' k w' p \<and>
      recvBuf (strm r' k) = [] \<and> recvBuf (strm w' p) = recvBuf (strm w p) \<and> cfg r' = cfg r \<and> cfg w' = cfg w \<and>
      recvWindow (strm w' p) = recvWindow (strm w p) \<and>
      (recvBuf (strm r k) \<noteq> [] \<longrightarrow> unat (MaxStreamWindowSize (cfg r)) \<le> 2 * unat (recvWindow (strm r' k)) + 1)"
proof (induction reads arbitrary: r w)
  case (Cons rd reads)
  obtain key sizes where rd: "rd = (key, sizes)" by fastforce
  show ?case
  proof (cases "recvBuf (strm r k) = []")
    case True
    with Cons.prems rd show ?thesis by simp
  next
    case False
    obtain r1 h w1 where t: "Read k n r = (Ret (take n (recvBuf (strm r k)), None), r1)"
      "conn_out (yconn r1) = conn_out (yconn r) @ h" "length h \<le> headerSize"
      "if h = [] then w1 = w else recv_step (peer_sends h w) = (Ret True, w1)"
      "linked r1 k w1 p" "recvBuf (strm r1 k) = drop n (recvBuf (strm r k))" "recvBuf (strm w1 p) = recvBuf (strm w p)"
      "cfg r1 = cfg r" "cfg w1 = cfg w" "recvWindow (strm w1 p) = recvWindow (strm w p)"
      "unat (MaxStreamWindowSize (cfg r)) \<le> 2 * unat (recvWindow (strm r1 k)) + 1"
      by (rule linked_read [OF Cons.prems(1) False])
    have c: "cross srv (if srv then [key] else []) sizes r r1 w = Some w1"
      using t(2-4) Cons.prems(4) rd by (intro cross_passes [of r1 r h "[]"]) auto
    have len: "length (recvBuf (strm r1 k)) \<le> n * length reads" using t(6) Cons.prems(3) by simp
    obtain r' w' where IH: "hear srv n k reads r1 w1 = Some (recvBuf (strm r1 k), r', w')" "linked r' k w' p"
      "recvBuf (strm r' k) = []" "recvBuf (strm w' p) = recvBuf (strm w1 p)" "cfg r' = cfg r1" "cfg w' = cfg w1"
      "recvWindow (strm w' p) = recvWindow (strm w1 p)"
      "recvBuf (strm r1 k) \<noteq> [] \<longrightarrow> unat (MaxStreamWindowSize (cfg r1)) \<le> 2 * unat (recvWindow (strm r' k)) + 1"
      using Cons.IH [OF t(5) Cons.prems(2) len] Cons.prems(4) by auto
    have "hear srv n k (rd # reads) r w = Some (recvBuf (strm r k), r', w')"
      using rd False t(1) c IH(1) t(6) by simp
    moreover have "unat (MaxStreamWindowSize (cfg r)) \<le> 2 * unat (recvWindow (strm r' k)) + 1"
    proof (cases "recvBuf (strm r1 k) = []")
      case True
      with IH(1) have "r' = r1" by (cases reads) (auto split: if_splits prod.splits)
      with t(11) show ?thesis by simp
    qed (use IH(8) t(8) in simp)
    ultimately show ?thesis using IH t by simp
  qed
qed simp

section \<open>A conversation\<close>

text \<open>
  What is said, by the client or by the server, with the masking keys drawn for the write, the
  sizes in which the network delivers it, and the reads of the other side: the key drawn and
  the sizes of delivery of the window update that each may send.
\<close>

record message =
  by_client :: bool
  said :: bytes
  msg_keys :: "bytes list"
  msg_sizes :: "nat list"
  msg_reads :: "(bytes \<times> nat list) list"

text \<open>
  The conversation between the client's session w on its stream p and the server's session r
  on its stream k, each side reading n bytes at a time: what was heard of each message.
\<close>

fun converse :: "nat \<Rightarrow> nat \<Rightarrow> nat \<Rightarrow> message list \<Rightarrow> session \<Rightarrow> session \<Rightarrow> (bytes list \<times> session \<times> session) option" where
  "converse n p k [] w r = Some ([], w, r)"
| "converse n p k (m # ms) w r =
     (if by_client m then
        (case say True (msg_keys m) (msg_sizes m) p (said m) w r of
           None \<Rightarrow> None
         | Some (w, r) \<Rightarrow>
             (case hear False n k (msg_reads m) r w of
                None \<Rightarrow> None
              | Some (b, r, w) \<Rightarrow> map_option (\<lambda>(bs, s). (b # bs, s)) (converse n p k ms w r)))
      else
        (case say False [] (msg_sizes m) k (said m) r w of
           None \<Rightarrow> None
         | Some (r, w) \<Rightarrow>
             (case hear True n p (msg_reads m) w r of
                None \<Rightarrow> None
              | Some (b, w, r) \<Rightarrow> map_option (\<lambda>(bs, s). (b # bs, s)) (converse n p k ms w r))))"

text \<open>
  A message that can be said: not empty, at most half of the other side's window, with the keys
  a client needs and enough reads.
\<close>

definition message_ok :: "nat \<Rightarrow> nat \<Rightarrow> message \<Rightarrow> bool" where
  "message_ok n half m \<longleftrightarrow> said m \<noteq> [] \<and> length (said m) \<le> half \<and> length (said m) \<le> n * length (msg_reads m) \<and>
     (by_client m \<longrightarrow> 2 \<le> length (msg_keys m)) \<and> (\<forall>key \<in> set (msg_keys m). length key = 4) \<and>
     (\<forall>(key, sizes) \<in> set (msg_reads m). length key = 4)"

text \<open>Both sides have read everything and have at least half of their window open.\<close>

definition half_open :: "nat \<Rightarrow> session \<Rightarrow> nat \<Rightarrow> bool" where
  "half_open half s p \<longleftrightarrow> recvBuf (strm s p) = [] \<and> half \<le> unat (recvWindow (strm s p)) \<and>
     2 * half \<le> unat (MaxStreamWindowSize (cfg s))"

text \<open>One message of session w is heard by session r, and both are ready for the next.\<close>

lemma message_heard:
  assumes l: "linked w p r k" and h: "half_open half w p" "half_open half r k" and n: "0 < n"
    and b: "b \<noteq> []" "length b \<le> half" "length b \<le> n * length reads"
    and keys: "srv \<Longrightarrow> 2 \<le> length keys \<and> (\<forall>key \<in> set keys. length key = 4)" "\<not> srv \<Longrightarrow> keys = []"
    and reads: "\<forall>(key, sizes) \<in> set reads. length key = 4"
  obtains w1 r1 w' r' where "say srv keys sizes p b w r = Some (w1, r1)" "recvBuf (strm r1 k) = b"
    "hear (\<not> srv) n k reads r1 w1 = Some (b, r', w')" "linked w' p r' k" "half_open half w' p" "half_open half r' k"
proof -
  have win: "length b \<le> unat (sendWindow (strm w p))"
    using b(2) h(2) l by (simp add: half_open_def linked_def)
  obtain w1 r1 where s: "say srv keys sizes p b w r = Some (w1, r1)" "linked w1 p r1 k"
    "recvBuf (strm r1 k) = recvBuf (strm r k) @ b" "recvBuf (strm w1 p) = recvBuf (strm w p)"
    "cfg w1 = cfg w" "cfg r1 = cfg r" "recvWindow (strm w1 p) = recvWindow (strm w p)"
    by (rule say_linked [OF l b(1) win keys])
  have buf: "recvBuf (strm r1 k) = b" using s(3) h(2) by (simp add: half_open_def)
  obtain r' w' where d: "hear (\<not> srv) n k reads r1 w1 = Some (b, r', w')" "linked r' k w' p"
    "recvBuf (strm r' k) = []" "recvBuf (strm w' p) = recvBuf (strm w1 p)" "cfg r' = cfg r1" "cfg w' = cfg w1"
    "recvWindow (strm w' p) = recvWindow (strm w1 p)"
    "unat (MaxStreamWindowSize (cfg r1)) \<le> 2 * unat (recvWindow (strm r' k)) + 1"
    using hear_linked [OF linked_sym [OF s(2)] n _ reads, of "\<not> srv"] buf b(1,3) by auto
  have "half_open half w' p" using h(1) s d by (simp add: half_open_def)
  moreover have "half_open half r' k" using h(2) s d by (simp add: half_open_def)
  ultimately show thesis using that [OF s(1) buf d(1) linked_sym [OF d(2)]] by blast
qed

lemma converse_heard:
  "linked w p r k \<Longrightarrow> half_open half w p \<Longrightarrow> half_open half r k \<Longrightarrow> 0 < n \<Longrightarrow> \<forall>m \<in> set ms. message_ok n half m \<Longrightarrow>
    \<exists>w' r'. converse n p k ms w r = Some (map said ms, w', r') \<and> linked w' p r' k"
proof (induction ms arbitrary: w r)
  case (Cons m ms)
  have m: "said m \<noteq> []" "length (said m) \<le> half" "length (said m) \<le> n * length (msg_reads m)"
    "by_client m \<Longrightarrow> 2 \<le> length (msg_keys m) \<and> (\<forall>key \<in> set (msg_keys m). length key = 4)"
    "\<forall>(key, sizes) \<in> set (msg_reads m). length key = 4"
    using Cons.prems(5) by (auto simp: message_ok_def)
  show ?case
  proof (cases "by_client m")
    case True
    obtain w1 r1 w' r' where t: "say True (msg_keys m) (msg_sizes m) p (said m) w r = Some (w1, r1)"
      "hear (\<not> True) n k (msg_reads m) r1 w1 = Some (said m, r', w')" "linked w' p r' k" "half_open half w' p" "half_open half r' k"
      by (rule message_heard [OF Cons.prems(1-4) m(1-3) _ _ m(5), of True "msg_keys m"]) (use m(4) True in auto)
    with Cons.IH [OF t(3-5)] Cons.prems(4,5) True show ?thesis by auto
  next
    case False
    obtain r1 w1 r' w' where t: "say False [] (msg_sizes m) k (said m) r w = Some (r1, w1)"
      "hear (\<not> False) n p (msg_reads m) w1 r1 = Some (said m, w', r')" "linked r' k w' p" "half_open half r' k" "half_open half w' p"
      by (rule message_heard [OF linked_sym [OF Cons.prems(1)] Cons.prems(3,2,4) m(1-3) _ _ m(5), of False "[]"]) auto
    with Cons.IH [OF linked_sym [OF t(3)] t(5,4)] Cons.prems(4,5) False show ?thesis by auto
  qed
qed simp

section \<open>Properties\<close>

text \<open>
  C2: A conversation of any length on a stream: over the two websockets, with the client's frames
  masked and the network delivering in any pieces, each side hears exactly the messages of the
  other, one by one. Reading gives the window back, so that the conversation never stops as
  long as no message is longer than half of the window.
\<close>

theorem conversation_heard:
  assumes "linked w p r k" and "half_open half w p" and "half_open half r k" and "0 < n"
    and "\<forall>m \<in> set ms. message_ok n half m"
  shows "\<exists>w' r'. converse n p k ms w r = Some (map said ms, w', r') \<and> linked w' p r' k"
  using assms by (rule converse_heard)

text \<open>
  C3: How a stream comes to be so linked: one session opens it, the frame that announces it crosses
  the websocket, and the other session has room in its backlog. From there on messages of up
  to 128 KiB can be said.
\<close>

theorem opened_stream_linked:
  assumes "quiet w" and "quiet r" and "conn_in (yconn w) = []" and "conn_in (yconn r) = []"
    and "remoteGoAway w \<noteq> 1" and "nextStreamID w < 4294967294"
    and "localGoAway r \<noteq> 1" and "map_of (streams r) (nextStreamID w) = None" and "trySend (length (objs r)) (acceptCh r) = Some c"
    and "if srv then \<exists>key. keys = [key] \<and> length key = 4 else keys = []"
  shows "\<exists>w' r'. OpenStream w = (Ret (Some (length (objs w)), None), w') \<and> cross srv keys sizes w w' r = Some r' \<and>
    acceptCh r' = c \<and> linked w' (length (objs w)) r' (length (objs r)) \<and>
    half_open 131072 w' (length (objs w)) \<and> half_open 131072 r' (length (objs r))"
proof -
  let ?p = "length (objs w)" and ?k = "length (objs r)" and ?i = "nextStreamID w"
  let ?d = "MaxStreamWindowSize (cfg w) - initialStreamWindow"
  let ?h = "wire_header typeWindowUpdate flagSYN ?i ?d"
  obtain r' where r': "recv_step (peer_sends ?h r) = (Ret True, r')" "quiet r'" "length (objs r') = Suc ?k"
    "streams r' = AList.update ?i ?k (streams r)"
    "strm r' ?k = (new_stream ?i streamSYNReceived)\<lparr>sendWindow := initialStreamWindow + ?d,
       sendNotifyCh := asyncNotify (make_chan 1)\<rparr>"
    "conn_in (yconn r') = []" "cfg r' = cfg r" "acceptCh r' = c"
    by (rule syn_frame_accepted [OF assms(2,4,7-9)])
  have crossed: "cross srv keys sizes w (opened w) r = Some r'"
    by (rule cross_passes [where h = ?h and b = "[]"])
      (use r'(1) assms(10) in \<open>auto simp: opened_sel wire_header_def headerSize_def split: if_splits\<close>)
  have cfg: "initialStreamWindow \<le> MaxStreamWindowSize (cfg w)" "initialStreamWindow \<le> MaxStreamWindowSize (cfg r)"
    using assms(1,2) by (simp_all add: quiet_def session_ok_def config_ok_def)
  then have big: "262144 \<le> unat (MaxStreamWindowSize (cfg w))" "262144 \<le> unat (MaxStreamWindowSize (cfg r))"
    by (simp_all add: initialStreamWindow_def word_le_nat_alt)
  have "linked (opened w) ?p r' ?k"
    using r' cfg quiet_opened [OF assms(1)] assms(3)
    by (simp add: linked_def stream_ready_def opened_sel new_stream_def make_chan_def writable_def update_conv)
  moreover have "half_open 131072 (opened w) ?p" "half_open 131072 r' ?k"
    using big r' by (simp_all add: half_open_def opened_sel new_stream_def initialStreamWindow_def)
  ultimately show ?thesis using OpenStream_opened [OF assms(1,5,6)] crossed r'(8) by blast
qed

text \<open>
  http.Serve on a stream of the session, as far as one request other than CONNECT goes:
  net/http reads a request from the bytes (\<open>parse\<close>), the proxy serves it with the objects of
  st, in which r is a new address, and net/http writes the response (\<open>format\<close>).
\<close>

definition serve_request :: "(bytes \<Rightarrow> http_request option) \<Rightarrow> (client_writer \<Rightarrow> bytes)
    \<Rightarrow> ('r \<Rightarrow> nat \<Rightarrow> ('r, 'u) pctx \<Rightarrow> (werror + nat) \<times> ('r, 'u) pctx)
    \<Rightarrow> (nat \<Rightarrow> ('r, 'u) pctx \<Rightarrow> (werror + nat) \<times> ('r, 'u) pctx)
    \<Rightarrow> ('r, 'u) proxy \<Rightarrow> nat \<Rightarrow> ('r, 'u) pctx \<Rightarrow> bytes \<Rightarrow> bytes option" where
  "serve_request parse format call tr p r st b =
     (case parse b of
        None \<Rightarrow> None
      | Some req \<Rightarrow>
          if req_Method req = ''CONNECT'' then None
          else (case ServeHTTP call tr p \<lparr>cw_Header = [], cw_Status = None, cw_Body = []\<rparr> r (set_req r req st) of
             (Ret (w, ctx), p) \<Rightarrow> Some (format w)
           | _ \<Rightarrow> None))"


section \<open>Witnesses\<close>

definition demo_key :: bytes where "demo_key = [1, 2, 3, 4]"

lemma demo_linked: "linked (demo_session True) 0 (demo_session False) 0"
  "half_open 131072 (demo_session True) 0" "half_open 131072 (demo_session False) 0"
proof -
  have c: "cfg (demo_session b) = DefaultConfig" for b by (simp add: demo_session_def newSession_def)
  show "linked (demo_session True) 0 (demo_session False) 0"
    using demo_session_quiet c
    by (simp add: linked_def stream_ready_def) (simp add: new_stream_def make_chan_def writable_def demo_conn_def DefaultConfig_def initialStreamWindow_def)
  show "half_open 131072 (demo_session True) 0" "half_open 131072 (demo_session False) 0"
    using c by (simp_all add: half_open_def new_stream_def initialStreamWindow_def DefaultConfig_def)
qed

theorem conversation_heard_witness:
  "\<exists>w' r'. converse 2 0 0
      [\<lparr>by_client = True, said = [1, 2, 3], msg_keys = [demo_key, demo_key], msg_sizes = [5], msg_reads = [(demo_key, []), (demo_key, [])]\<rparr>,
       \<lparr>by_client = False, said = [9], msg_keys = [], msg_sizes = [], msg_reads = [(demo_key, [])]\<rparr>]
      (demo_session True) (demo_session False) = Some ([[1, 2, 3], [9]], w', r')"
  using conversation_heard [OF demo_linked, of 2
      "[\<lparr>by_client = True, said = [1, 2, 3], msg_keys = [demo_key, demo_key], msg_sizes = [5], msg_reads = [(demo_key, []), (demo_key, [])]\<rparr>,
        \<lparr>by_client = False, said = [9], msg_keys = [], msg_sizes = [], msg_reads = [(demo_key, [])]\<rparr>]"]
  by (auto simp: message_ok_def demo_key_def)

theorem opened_stream_linked_witness:
  "\<exists>w' r'. OpenStream (newSession DefaultConfig demo_conn True) = (Ret (Some 0, None), w') \<and>
    cross True [demo_key] [3] (newSession DefaultConfig demo_conn True) w' (newSession DefaultConfig demo_conn False) = Some r' \<and>
    linked w' 0 r' 0"
proof -
  have q: "quiet (newSession DefaultConfig demo_conn b)" for b
  proof -
    have "session_ok (newSession DefaultConfig demo_conn b)" by (rule newSession_ok) (simp add: config_ok_def DefaultConfig_def)
    then show ?thesis by (simp add: quiet_def) (simp add: newSession_def make_chan_def demo_conn_def)
  qed
  have "trySend (length (objs (newSession DefaultConfig demo_conn False))) (acceptCh (newSession DefaultConfig demo_conn False)) =
      Some \<lparr>chbuf = [0], chcap = 256, chclosed = False\<rparr>"
    by (simp add: newSession_def make_chan_def trySend_def DefaultConfig_def)
  from opened_stream_linked [OF q q _ _ _ _ _ _ this, of True True "[demo_key]" "[3]"] show ?thesis
    by (auto simp: newSession_def demo_conn_def demo_key_def word_less_nat_alt)
qed


end
