(* ===== verification/Yamux_Credit.thy ===== *)
theory Yamux_Credit
  imports Yamux_Frame Yamux_Flow
begin

text \<open>
  Two endpoints of one stream, one direction of data: the writer's and the reader's parts of
  stream.go interleaved in any order, with the frames in flight between them. The credit the
  writer holds and everything in flight always add up to the reader's window and the
  increment it has announced but not booked yet; bytes arrive in order; and the reader can
  refuse a frame of an honest writer only in the gap between sending a window update and
  booking it.
\<close>

section \<open>The link\<close>

text \<open>
  \<open>wpend\<close> is the size of a frame that was handed to the send goroutine while \<open>sendWindow\<close>
  is not reduced yet, \<open>rpend\<close> a window increment sent but not added to \<open>recvWindow\<close> yet:
  in both gaps the code waits in \<open>waitForSendErr\<close>. The locks \<open>sendLock\<close> and
  \<open>controlHdrLock\<close> allow one of each. \<open>sent\<close> and \<open>got\<close> record the bytes written and read.
\<close>

record link =
  lw :: session
  lr :: session
  wp :: nat
  rp :: nat
  dataq :: "(header \<times> bytes) list"
  updq :: "header list"
  wpend :: "u32 option"
  rpend :: "u32 option"
  sent :: bytes
  got :: bytes
  refused :: "yerror option"

definition deliver :: "bytes \<Rightarrow> session \<Rightarrow> session" where
  "deliver b s = s\<lparr>yconn := (yconn s)\<lparr>conn_in := b\<rparr>\<rparr>"

inductive link_step :: "link \<Rightarrow> link \<Rightarrow> bool" where
  link_write: "wpend l = None \<Longrightarrow> write_begin (wp l) b (lw l) = (WSend h body mx, s') \<Longrightarrow>
    link_step l (l\<lparr>lw := s', dataq := dataq l @ [(h, body)], wpend := Some mx, sent := sent l @ body\<rparr>)"
| link_written: "wpend l = Some mx \<Longrightarrow>
    link_step l (l\<lparr>lw := write_finish (wp l) mx (lw l), wpend := None\<rparr>)"
| link_data: "refused l = None \<Longrightarrow> dataq l = (h, body) # q \<Longrightarrow>
    readData (rp l) h (Flags h) (deliver body (lr l)) = (Ret e, s') \<Longrightarrow>
    link_step l (l\<lparr>lr := s', dataq := q, refused := e\<rparr>)"
| link_read: "refused l = None \<Longrightarrow>
    link_step l (l\<lparr>lr := upd (rp l) (\<lambda>x. x\<lparr>recvBuf := drop n (recvBuf x)\<rparr>) (lr l),
      got := got l @ take n (recvBuf (strm (lr l) (rp l)))\<rparr>)"
| link_no_update: "rpend l = None \<Longrightarrow> sendWindowUpdate_begin (rp l) (lr l) = (None, s') \<Longrightarrow>
    link_step l (l\<lparr>lr := s'\<rparr>)"
| link_update: "rpend l = None \<Longrightarrow> sendWindowUpdate_begin (rp l) (lr l) = (Some (h, d), s') \<Longrightarrow>
    link_step l (l\<lparr>lr := s', updq := updq l @ [h], rpend := Some d\<rparr>)"
| link_updated: "rpend l = Some d \<Longrightarrow>
    link_step l (l\<lparr>lr := sendWindowUpdate_finish (rp l) d (lr l), rpend := None\<rparr>)"
| link_credit: "updq l = h # q \<Longrightarrow> incrSendWindow (wp l) h (Flags h) (lw l) = (e, s') \<Longrightarrow>
    link_step l (l\<lparr>lw := s', updq := q\<rparr>)"

inductive_cases link_stepE: "link_step l l'"

definition live_state :: "streamState \<Rightarrow> bool" where
  "live_state st \<longleftrightarrow> writable st \<and> \<not> remote_done st"

definition link_start :: "link \<Rightarrow> bool" where
  "link_start l \<longleftrightarrow> session_ok (lw l) \<and> session_ok (lr l) \<and>
     wp l < length (objs (lw l)) \<and> rp l < length (objs (lr l)) \<and>
     live_state (state (strm (lw l) (wp l))) \<and> live_state (state (strm (lr l) (rp l))) \<and>
     sendWindow (strm (lw l) (wp l)) = initialStreamWindow \<and>
     recvWindow (strm (lr l) (rp l)) = initialStreamWindow \<and>
     recvBuf (strm (lr l) (rp l)) = [] \<and>
     dataq l = [] \<and> updq l = [] \<and> wpend l = None \<and> rpend l = None \<and> sent l = [] \<and> got l = [] \<and>
     refused l = None"

section \<open>The credit account\<close>

definition pending :: "u32 option \<Rightarrow> u32" where
  "pending x = (case x of None \<Rightarrow> 0 | Some n \<Rightarrow> n)"

definition in_flight :: "link \<Rightarrow> nat" where
  "in_flight l = sum_list (map (length \<circ> snd) (dataq l))"

definition credit_in_flight :: "link \<Rightarrow> nat" where
  "credit_in_flight l = sum_list (map (unat \<circ> Length) (updq l))"

definition credit_ok :: "link \<Rightarrow> bool" where
  "credit_ok l \<longleftrightarrow>
     unat (sendWindow (strm (lw l) (wp l)) - pending (wpend l)) + in_flight l + credit_in_flight l
       = unat (recvWindow (strm (lr l) (rp l))) + unat (pending (rpend l)) \<and>
     unat (recvWindow (strm (lr l) (rp l))) + unat (pending (rpend l))
       \<le> unat (MaxStreamWindowSize (cfg (lr l)))"

definition fifo_ok :: "link \<Rightarrow> bool" where
  "fifo_ok l \<longleftrightarrow> sent l = got l @ recvBuf (strm (lr l) (rp l)) @ concat (map snd (dataq l))"

definition tame_flags :: "u16 \<Rightarrow> bool" where
  "tame_flags f \<longleftrightarrow> f = 0 \<or> f = flagSYN \<or> f = flagACK"

definition frames_ok :: "link \<Rightarrow> bool" where
  "frames_ok l \<longleftrightarrow>
     (\<forall>(h, body) \<in> set (dataq l). unat (Length h) = length body \<and> tame_flags (Flags h)) \<and>
     (\<forall>h \<in> set (updq l). tame_flags (Flags h))"

text \<open>Until a frame is refused the account holds.\<close>

definition link_inv :: "link \<Rightarrow> bool" where
  "link_inv l \<longleftrightarrow> session_ok (lw l) \<and> session_ok (lr l) \<and>
     wp l < length (objs (lw l)) \<and> rp l < length (objs (lr l)) \<and> frames_ok l \<and>
     (refused l = None \<longrightarrow> credit_ok l \<and> fifo_ok l) \<and>
     (refused l \<noteq> None \<longrightarrow> refused l = Some ErrRecvWindowExceeded)"

section \<open>The parts of the code, on tame frames\<close>

lemma processFlags_tame:
  assumes "tame_flags f"
  shows "\<exists>st. processFlags p f s = (None, set_state p st s)"
proof (cases "has_flag f flagACK \<and> state (strm s p) = streamSYNSent")
  case True
  then show ?thesis by (auto simp: processFlags_def)
next
  case False
  with assms have "processFlags p f s = (None, set_state p (state (strm s p)) s)"
    by (auto simp: tame_flags_def processFlags_def has_flag_def flag_defs)
  then show ?thesis by blast
qed

lemma flags_of_tame: "tame_flags (flags_of st)"
  by (cases st) (simp_all add: tame_flags_def flags_of_def)

lemma write_begin_frame:
  assumes ok: "session_ok s" and p: "p < length (objs s)" and b: "write_begin p b s = (WSend h body mx, s')"
  shows "unat (Length h) = length body" "tame_flags (Flags h)" "length body = unat mx"
    "mx \<le> sendWindow (strm s p)" "length (objs s') = length (objs s)"
    "sendWindow (strm s' p) = sendWindow (strm s p)" "session_ok s'"
proof -
  note sel = write_begin_sel [OF b p]
  have hok: "header_ok (sendHdr (strm s p))"
    using stream_ok_strm [OF ok p] by (simp add: stream_ok_def)
  have st: "writable (state (strm s p))" "sendWindow (strm s p) \<noteq> 0"
    using b by (auto simp: write_begin_def writable_def Let_def split: if_splits)
  have h: "h = wire_header typeData (flags_of (state (strm s p))) (stream_id (strm s p)) mx"
    using write_begin_send [OF st p hok, of b] b by simp
  show len: "length body = unat mx" using sel(3) unat_min_len_le(2) by simp
  show "unat (Length h) = length body" "tame_flags (Flags h)"
    using h len by (simp_all add: decode_wire flags_of_tame)
  show "mx \<le> sendWindow (strm s p)" using sel(3) unat_min_len_le(1) by (simp add: word_le_nat_alt)
  show "length (objs s') = length (objs s)" "sendWindow (strm s' p) = sendWindow (strm s p)"
    using sel by simp_all
  show "session_ok s'" using evolves_write_begin [OF ok p b] evolves_ok by blast
qed

lemma swu_begin_frame:
  assumes ok: "session_ok s" and p: "p < length (objs s)"
    and b: "sendWindowUpdate_begin p s = (Some (h, d), s')"
  shows "Length h = d" "tame_flags (Flags h)" "d = MaxStreamWindowSize (cfg s) - recvWindow (strm s p)"
    "length (objs s') = length (objs s)" "recvWindow (strm s' p) = recvWindow (strm s p)"
    "recvBuf (strm s' p) = recvBuf (strm s p)" "cfg s' = cfg s" "session_ok s'"
proof -
  note sel = swu_begin_sel [OF b p]
  note ev = evolves_swu_begin [OF ok p b]
  have hok: "header_ok (controlHdr (strm (set_state p st s) p))" for st
    using stream_ok_strm [OF ok p] p by (simp add: stream_ok_def set_state_def)
  have "h = wire_header typeWindowUpdate (flags_of (state (strm s p))) (stream_id (strm s p)) d"
    using b p hok
    by (auto simp: sendWindowUpdate_begin_def sendFlags_eq Let_def encode_wire set_state_def split: if_splits)
  then show "Length h = d" "tame_flags (Flags h)" by (simp_all add: decode_wire flags_of_tame)
  show "d = MaxStreamWindowSize (cfg s) - recvWindow (strm s p)"
    "length (objs s') = length (objs s)" "recvWindow (strm s' p) = recvWindow (strm s p)"
    "recvBuf (strm s' p) = recvBuf (strm s p)" using sel by simp_all
  show "cfg s' = cfg s" "session_ok s'" using ev by (simp_all add: evolves_def)
qed

text \<open>What a complete, tame data frame does: it is refused exactly when it exceeds the window.\<close>

lemma readData_tame:
  assumes ok: "session_ok s" and p: "p < length (objs s)" and f: "tame_flags (Flags h)"
    and len: "unat (Length h) = length body"
    and r: "readData p h (Flags h) (deliver body s) = (x, s')"
  shows "session_ok s'" "length (objs s') = length (objs s)" "cfg s' = cfg s"
    "recvWindow (strm s p) < Length h \<Longrightarrow> x = Ret (Some ErrRecvWindowExceeded)"
    "Length h \<le> recvWindow (strm s p) \<Longrightarrow> x = Ret None \<and>
       recvWindow (strm s' p) = recvWindow (strm s p) - Length h \<and>
       recvBuf (strm s' p) = recvBuf (strm s p) @ body"
proof -
  let ?t = "deliver body s"
  have okt: "session_ok ?t"
    using ok by (auto simp: deliver_def session_ok_defs ready_ok_def ref_ok_def
        split: errref.splits option.splits)
  obtain st where st: "processFlags p (Flags h) ?t = (None, set_state p st ?t)"
    using processFlags_tame [OF f] by blast
  have pt: "p < length (objs ?t)" using p by (simp add: deliver_def)
  show "session_ok s'" using evolves_readData [OF okt r] by (rule evolves_ok)
  show "length (objs s') = length (objs s)" "cfg s' = cfg s"
    "recvWindow (strm s p) < Length h \<Longrightarrow> x = Ret (Some ErrRecvWindowExceeded)"
    "Length h \<le> recvWindow (strm s p) \<Longrightarrow> x = Ret None \<and>
       recvWindow (strm s' p) = recvWindow (strm s p) - Length h \<and>
       recvBuf (strm s' p) = recvBuf (strm s p) @ body"
    using r st pt len
    by (auto simp: readData_def Let_def deliver_def minus_one_complement split: if_splits)
qed

lemma incrSendWindow_tame:
  assumes ok: "session_ok s" and p: "p < length (objs s)" and f: "tame_flags (Flags h)"
    and r: "incrSendWindow p h (Flags h) s = (e, s')"
  shows "session_ok s'" "length (objs s') = length (objs s)"
    "sendWindow (strm s' p) = sendWindow (strm s p) + Length h"
proof -
  obtain st where st: "processFlags p (Flags h) s = (None, set_state p st s)"
    using processFlags_tame [OF f] by blast
  show "session_ok s'" using evolves_incrSendWindow [OF ok r] by (rule evolves_ok)
  show "length (objs s') = length (objs s)" "sendWindow (strm s' p) = sendWindow (strm s p) + Length h"
    using r st p by (auto simp: incrSendWindow_def)
qed

section \<open>The account is an invariant\<close>

lemma unat_plus_lt: "unat a + unat b < 2 ^ 32 \<Longrightarrow> unat (a + b) = unat a + unat b" for a b :: u32
  by (simp add: unat_word_ariths)

lemma link_start_inv: "link_start l \<Longrightarrow> link_inv l"
proof -
  assume l: "link_start l"
  have "config_ok (cfg (lr l))" using l by (simp add: link_start_def session_ok_def)
  then have "unat initialStreamWindow \<le> unat (MaxStreamWindowSize (cfg (lr l)))"
    by (simp add: config_ok_def word_le_nat_alt)
  with l show ?thesis
    by (simp add: link_start_def link_inv_def credit_ok_def fifo_ok_def frames_ok_def pending_def
        in_flight_def credit_in_flight_def)
qed

lemma link_write_inv:
  assumes inv: "link_inv l" and none: "wpend l = None"
    and b: "write_begin (wp l) b (lw l) = (WSend h body mx, s')"
  shows "link_inv (l\<lparr>lw := s', dataq := dataq l @ [(h, body)], wpend := Some mx, sent := sent l @ body\<rparr>)"
proof -
  have w: "session_ok (lw l)" "wp l < length (objs (lw l))" using inv by (simp_all add: link_inv_def)
  note fr = write_begin_frame [OF w b]
  have "unat (sendWindow (strm (lw l) (wp l)) - mx) = unat (sendWindow (strm (lw l) (wp l))) - length body"
    using fr by (simp add: unat_minus_le)
  moreover have "length body \<le> unat (sendWindow (strm (lw l) (wp l)))"
    using fr by (simp add: word_le_nat_alt)
  ultimately show ?thesis
    using inv fr none
    by (auto simp: link_inv_def credit_ok_def fifo_ok_def frames_ok_def pending_def in_flight_def
        credit_in_flight_def)
qed

lemma link_written_inv:
  assumes inv: "link_inv l" and mx: "wpend l = Some mx"
  shows "link_inv (l\<lparr>lw := write_finish (wp l) mx (lw l), wpend := None\<rparr>)"
proof -
  have w: "session_ok (lw l)" "wp l < length (objs (lw l))" using inv by (simp_all add: link_inv_def)
  have "session_ok (write_finish (wp l) mx (lw l))"
    using w(1) by (rule evolves_ok [OF evolves_write_finish])
  moreover have "sendWindow (strm (write_finish (wp l) mx (lw l)) (wp l)) = sendWindow (strm (lw l) (wp l)) - mx"
    and "length (objs (write_finish (wp l) mx (lw l))) = length (objs (lw l))"
    using w by (simp_all add: write_finish_def minus_one_complement)
  ultimately show ?thesis
    using inv mx
    by (simp add: link_inv_def credit_ok_def fifo_ok_def frames_ok_def pending_def in_flight_def
        credit_in_flight_def)
qed

lemma link_data_inv:
  assumes inv: "link_inv l" and none: "refused l = None" and q: "dataq l = (h, body) # q"
    and r: "readData (rp l) h (Flags h) (deliver body (lr l)) = (Ret e, s')"
  shows "link_inv (l\<lparr>lr := s', dataq := q, refused := e\<rparr>)"
proof -
  have w: "session_ok (lr l)" "rp l < length (objs (lr l))"
    and h: "tame_flags (Flags h)" "unat (Length h) = length body"
    using inv q by (auto simp: link_inv_def frames_ok_def)
  note rd = readData_tame [OF w h r]
  show ?thesis
  proof (cases "Length h \<le> recvWindow (strm (lr l) (rp l))")
    case True
    note acc = rd(5) [OF True]
    have "unat (recvWindow (strm (lr l) (rp l)) - Length h) =
        unat (recvWindow (strm (lr l) (rp l))) - length body"
      and "length body \<le> unat (recvWindow (strm (lr l) (rp l)))"
      using True h by (simp_all add: unat_minus_le word_le_nat_alt)
    with acc rd(1-3) inv none q show ?thesis
      by (auto simp: link_inv_def credit_ok_def fifo_ok_def frames_ok_def in_flight_def
          credit_in_flight_def)
  next
    case False
    then have "e = Some ErrRecvWindowExceeded" using rd(4) by (simp add: not_le)
    with rd(1-3) inv q show ?thesis by (auto simp: link_inv_def frames_ok_def)
  qed
qed

lemma link_read_inv:
  assumes inv: "link_inv l" and none: "refused l = None"
  shows "link_inv (l\<lparr>lr := upd (rp l) (\<lambda>x. x\<lparr>recvBuf := drop n (recvBuf x)\<rparr>) (lr l),
    got := got l @ take n (recvBuf (strm (lr l) (rp l)))\<rparr>)"
proof -
  have w: "session_ok (lr l)" "rp l < length (objs (lr l))" using inv by (simp_all add: link_inv_def)
  have "session_ok (upd (rp l) (\<lambda>x. x\<lparr>recvBuf := drop n (recvBuf x)\<rparr>) (lr l))"
    using w(1) by (rule session_ok_upd) simp_all
  with w inv none show ?thesis
    by (simp add: link_inv_def credit_ok_def fifo_ok_def frames_ok_def in_flight_def credit_in_flight_def)
qed

lemma link_no_update_inv:
  assumes inv: "link_inv l" and b: "sendWindowUpdate_begin (rp l) (lr l) = (None, s')"
  shows "link_inv (l\<lparr>lr := s'\<rparr>)"
proof -
  have w: "session_ok (lr l)" "rp l < length (objs (lr l))" using inv by (simp_all add: link_inv_def)
  have "session_ok s'" "cfg s' = cfg (lr l)"
    using evolves_swu_begin [OF w b] by (simp_all add: evolves_def)
  with swu_begin_sel [OF b w(2)] inv show ?thesis
    by (simp add: link_inv_def credit_ok_def fifo_ok_def frames_ok_def in_flight_def credit_in_flight_def)
qed

lemma link_update_inv:
  assumes inv: "link_inv l" and none: "rpend l = None"
    and b: "sendWindowUpdate_begin (rp l) (lr l) = (Some (h, d), s')"
  shows "link_inv (l\<lparr>lr := s', updq := updq l @ [h], rpend := Some d\<rparr>)"
proof -
  have w: "session_ok (lr l)" "rp l < length (objs (lr l))" using inv by (simp_all add: link_inv_def)
  note fr = swu_begin_frame [OF w b]
  have "unat d = unat (MaxStreamWindowSize (cfg (lr l))) - unat (recvWindow (strm (lr l) (rp l)))"
    if "unat (recvWindow (strm (lr l) (rp l))) \<le> unat (MaxStreamWindowSize (cfg (lr l)))"
    using that fr(3) by (simp add: unat_minus_le word_le_nat_alt)
  with fr inv none show ?thesis
    by (auto simp: link_inv_def credit_ok_def fifo_ok_def frames_ok_def pending_def in_flight_def
        credit_in_flight_def)
qed

lemma link_updated_inv:
  assumes inv: "link_inv l" and d: "rpend l = Some d"
  shows "link_inv (l\<lparr>lr := sendWindowUpdate_finish (rp l) d (lr l), rpend := None\<rparr>)"
proof -
  have w: "session_ok (lr l)" "rp l < length (objs (lr l))" using inv by (simp_all add: link_inv_def)
  let ?s = "sendWindowUpdate_finish (rp l) d (lr l)"
  have "session_ok ?s" using w(1) by (rule evolves_ok [OF evolves_swu_finish])
  moreover have "recvWindow (strm ?s (rp l)) = recvWindow (strm (lr l) (rp l)) + d"
    "recvBuf (strm ?s (rp l)) = recvBuf (strm (lr l) (rp l))" "cfg ?s = cfg (lr l)"
    "length (objs ?s) = length (objs (lr l))"
    using w by (simp_all add: sendWindowUpdate_finish_def)
  moreover have "unat (recvWindow (strm (lr l) (rp l)) + d) = unat (recvWindow (strm (lr l) (rp l))) + unat d"
    if "unat (recvWindow (strm (lr l) (rp l))) + unat d \<le> unat (MaxStreamWindowSize (cfg (lr l)))"
    using that unat_lt_pow [of "MaxStreamWindowSize (cfg (lr l))"] by (intro unat_plus_lt) simp
  ultimately show ?thesis
    using inv d
    by (auto simp: link_inv_def credit_ok_def fifo_ok_def frames_ok_def pending_def in_flight_def
        credit_in_flight_def)
qed

lemma link_credit_inv:
  assumes inv: "link_inv l" and q: "updq l = h # q"
    and r: "incrSendWindow (wp l) h (Flags h) (lw l) = (e, s')"
  shows "link_inv (l\<lparr>lw := s', updq := q\<rparr>)"
proof -
  have w: "session_ok (lw l)" "wp l < length (objs (lw l))" and h: "tame_flags (Flags h)"
    using inv q by (auto simp: link_inv_def frames_ok_def)
  note ic = incrSendWindow_tame [OF w h r]
  let ?S = "sendWindow (strm (lw l) (wp l))" and ?P = "pending (wpend l)"
  have "unat (?S + Length h - ?P) = unat (?S - ?P) + unat (Length h)"
    if "unat (?S - ?P) + unat (Length h) \<le> unat (MaxStreamWindowSize (cfg (lr l)))"
  proof -
    have "?S + Length h - ?P = (?S - ?P) + Length h" by simp
    moreover have "unat (?S - ?P) + unat (Length h) < 2 ^ 32"
      using that unat_lt_pow [of "MaxStreamWindowSize (cfg (lr l))"] by simp
    ultimately show ?thesis using unat_plus_lt by metis
  qed
  with ic inv q show ?thesis
    by (auto simp: link_inv_def credit_ok_def fifo_ok_def frames_ok_def in_flight_def
        credit_in_flight_def)
qed

lemma link_step_inv: "link_inv l \<Longrightarrow> link_step l l' \<Longrightarrow> link_inv l'"
  by (erule link_stepE)
    (auto intro: link_write_inv link_written_inv link_data_inv link_read_inv link_no_update_inv
      link_update_inv link_updated_inv link_credit_inv)

interpretation credit_system: invariant_system link_start link_step link_inv
  by unfold_locales (auto intro: link_start_inv link_step_inv)

section \<open>A run in which an honest writer is refused\<close>

text \<open>
  The reader announces a fresh window; before it books the increment, the writer's next frame
  arrives. The pieces of that run, from states where both ends are established.
\<close>

lemma run_write:
  assumes none: "wpend l = None" and w: "session_ok (lw l)" "wp l < length (objs (lw l))"
    and st: "state (strm (lw l) (wp l)) = streamEstablished"
    and n: "sendWindow (strm (lw l) (wp l)) = n" "n \<noteq> 0" "length b = unat n"
  shows "\<exists>h s'. link_step\<^sup>*\<^sup>* l (l\<lparr>lw := s', dataq := dataq l @ [(h, b)], sent := sent l @ b\<rparr>) \<and>
    Length h = n \<and> tame_flags (Flags h) \<and> session_ok s' \<and> length (objs s') = length (objs (lw l)) \<and>
    state (strm s' (wp l)) = streamEstablished \<and> sendWindow (strm s' (wp l)) = 0"
proof -
  let ?p = "wp l"
  have hok: "header_ok (sendHdr (strm (lw l) ?p))"
    using stream_ok_strm [OF w] by (simp add: stream_ok_def)
  have mx: "yamux_min n (of_nat (length b)) = n"
    using n(3) by (simp add: yamux_min_def)
  obtain h s1 where b: "write_begin ?p b (lw l) = (WSend h b n, s1)"
    and st1: "state (strm s1 ?p) = streamEstablished"
    using write_begin_send [of "lw l" ?p b] w hok n mx st
    by (auto simp: writable_def after_flags_def)
  note fr = write_begin_frame [OF w b]
  let ?l1 = "l\<lparr>lw := s1, dataq := dataq l @ [(h, b)], wpend := Some n, sent := sent l @ b\<rparr>"
  let ?s' = "write_finish ?p n s1"
  have "link_step l ?l1" using none b by (rule link_write)
  moreover have "link_step ?l1 (l\<lparr>lw := ?s', dataq := dataq l @ [(h, b)], sent := sent l @ b\<rparr>)"
    using link_written [of ?l1 n] none by (cases l) simp
  ultimately have "link_step\<^sup>*\<^sup>* l (l\<lparr>lw := ?s', dataq := dataq l @ [(h, b)], sent := sent l @ b\<rparr>)"
    by simp
  moreover have "Length h = n" using fr(1) n(3) by (simp add: word_unat_eq_iff)
  moreover have "session_ok ?s'" using fr(7) by (rule evolves_ok [OF evolves_write_finish])
  ultimately show ?thesis
    using fr st1 w n
    by (intro exI [of _ h] exI [of _ ?s'] conjI) (simp_all add: write_finish_def minus_one_complement)
qed

lemma run_data:
  assumes none: "refused l = None" and w: "session_ok (lr l)" "rp l < length (objs (lr l))"
    and q: "dataq l = [(h, b)]" and h: "tame_flags (Flags h)" "unat (Length h) = length b"
  shows "recvWindow (strm (lr l) (rp l)) < Length h \<Longrightarrow>
      \<exists>s'. link_step l (l\<lparr>lr := s', dataq := [], refused := Some ErrRecvWindowExceeded\<rparr>)"
    and "Length h \<le> recvWindow (strm (lr l) (rp l)) \<Longrightarrow>
      state (strm (lr l) (rp l)) = streamEstablished \<Longrightarrow>
      \<exists>s'. link_step l (l\<lparr>lr := s', dataq := []\<rparr>) \<and> session_ok s' \<and> cfg s' = cfg (lr l) \<and>
        length (objs s') = length (objs (lr l)) \<and> state (strm s' (rp l)) = streamEstablished \<and>
        recvWindow (strm s' (rp l)) = recvWindow (strm (lr l) (rp l)) - Length h \<and>
        recvBuf (strm s' (rp l)) = recvBuf (strm (lr l) (rp l)) @ b"
proof -
  obtain x s' where r: "readData (rp l) h (Flags h) (deliver b (lr l)) = (x, s')" by fastforce
  note rd = readData_tame [OF w h r]
  show "\<exists>s'. link_step l (l\<lparr>lr := s', dataq := [], refused := Some ErrRecvWindowExceeded\<rparr>)"
    if "recvWindow (strm (lr l) (rp l)) < Length h"
    using link_data [OF none q] r rd(4) [OF that] by blast
  assume le: "Length h \<le> recvWindow (strm (lr l) (rp l))"
    and st: "state (strm (lr l) (rp l)) = streamEstablished"
  have "processFlags (rp l) (Flags h) (deliver b (lr l)) = (None, deliver b (lr l))"
    using h(1) st by (auto simp: tame_flags_def processFlags_def has_flag_def flag_defs deliver_def)
  then have "state (strm s' (rp l)) = streamEstablished"
    using r w st le h by (auto simp: readData_def Let_def deliver_def split: if_splits)
  moreover have "link_step l (l\<lparr>lr := s', dataq := [], refused := None\<rparr>)"
    using link_data [OF none q] r rd(5) [OF le] by blast
  moreover have "l\<lparr>lr := s', dataq := [], refused := None\<rparr> = l\<lparr>lr := s', dataq := []\<rparr>"
    using none by simp
  ultimately show "\<exists>s'. link_step l (l\<lparr>lr := s', dataq := []\<rparr>) \<and> session_ok s' \<and> cfg s' = cfg (lr l) \<and>
        length (objs s') = length (objs (lr l)) \<and> state (strm s' (rp l)) = streamEstablished \<and>
        recvWindow (strm s' (rp l)) = recvWindow (strm (lr l) (rp l)) - Length h \<and>
        recvBuf (strm s' (rp l)) = recvBuf (strm (lr l) (rp l)) @ b"
    using rd le by metis
qed

lemma run_update:
  assumes none: "rpend l = None" "updq l = []" and w: "session_ok (lr l)" "rp l < length (objs (lr l))"
    and st: "state (strm (lr l) (rp l)) = streamEstablished"
    and win: "recvWindow (strm (lr l) (rp l)) = 0"
    and lw: "session_ok (lw l)" "wp l < length (objs (lw l))"
    and stw: "state (strm (lw l) (wp l)) = streamEstablished" "sendWindow (strm (lw l) (wp l)) = 0"
  shows "\<exists>s' t'. link_step\<^sup>*\<^sup>* l (l\<lparr>lr := s', lw := t', rpend := Some (MaxStreamWindowSize (cfg (lr l)))\<rparr>) \<and>
    session_ok s' \<and> length (objs s') = length (objs (lr l)) \<and> recvWindow (strm s' (rp l)) = 0 \<and>
    session_ok t' \<and> length (objs t') = length (objs (lw l)) \<and>
    state (strm t' (wp l)) = streamEstablished \<and>
    sendWindow (strm t' (wp l)) = MaxStreamWindowSize (cfg (lr l))"
proof -
  let ?mx = "MaxStreamWindowSize (cfg (lr l))"
  have "\<not> ?mx < ?mx div 2"
    by (simp add: not_less div_le_dividend word_le_nat_alt unat_div)
  then obtain h s' where b: "sendWindowUpdate_begin (rp l) (lr l) = (Some (h, ?mx), s')"
    using win st by (auto simp: sendWindowUpdate_begin_def sendFlags_eq Let_def flags_of_def)
  note fr = swu_begin_frame [OF w b]
  let ?l1 = "l\<lparr>lr := s', updq := updq l @ [h], rpend := Some ?mx\<rparr>"
  obtain e t' where c: "incrSendWindow (wp l) h (Flags h) (lw l) = (e, t')" by fastforce
  note ic = incrSendWindow_tame [OF lw fr(2) c]
  have "state (strm t' (wp l)) = streamEstablished"
    using c fr(2) stw(1) lw(2)
    by (auto simp: incrSendWindow_def tame_flags_def processFlags_def has_flag_def flag_defs)
  moreover have "link_step l ?l1" using none(1) b by (rule link_update)
  moreover have "link_step ?l1 (l\<lparr>lr := s', lw := t', rpend := Some ?mx\<rparr>)"
    using link_credit [of ?l1 h "[]" e t'] none(2) c by (cases l) simp
  ultimately show ?thesis
    using fr ic win stw by (intro exI conjI) (auto intro: converse_rtranclp_into_rtranclp)
qed

text \<open>One full window of data, read at once; then the next write meets a stale window.\<close>

lemma run_refused:
  assumes l: "link_inv l" "dataq l = []" "updq l = []" "wpend l = None" "rpend l = None" "refused l = None"
    and st: "state (strm (lw l) (wp l)) = streamEstablished" "state (strm (lr l) (rp l)) = streamEstablished"
    and win: "sendWindow (strm (lw l) (wp l)) = n" "recvWindow (strm (lr l) (rp l)) = n"
      "MaxStreamWindowSize (cfg (lr l)) = n" "n \<noteq> 0"
  shows "\<exists>l'. link_step\<^sup>*\<^sup>* l l' \<and> refused l' = Some ErrRecvWindowExceeded"
proof -
  let ?b = "replicate (unat n) 0 :: bytes"
  have ok: "session_ok (lw l)" "session_ok (lr l)" "wp l < length (objs (lw l))" "rp l < length (objs (lr l))"
    using l(1) by (simp_all add: link_inv_def)
  obtain h s1 where s1: "link_step\<^sup>*\<^sup>* l (l\<lparr>lw := s1, dataq := dataq l @ [(h, ?b)], sent := sent l @ ?b\<rparr>)"
      "Length h = n" "tame_flags (Flags h)" "session_ok s1" "length (objs s1) = length (objs (lw l))"
      "state (strm s1 (wp l)) = streamEstablished" "sendWindow (strm s1 (wp l)) = 0"
    using run_write [OF l(4) ok(1,3) st(1) win(1) win(4), of ?b] by auto
  define l1 where "l1 = l\<lparr>lw := s1, dataq := [(h, ?b)], sent := sent l @ ?b\<rparr>"
  have run1: "link_step\<^sup>*\<^sup>* l l1" using s1(1) l(2) by (simp add: l1_def)
  obtain r2 where r2: "link_step l1 (l1\<lparr>lr := r2, dataq := []\<rparr>)" "session_ok r2" "cfg r2 = cfg (lr l)"
      "length (objs r2) = length (objs (lr l))" "state (strm r2 (rp l)) = streamEstablished"
      "recvWindow (strm r2 (rp l)) = 0"
    using run_data(2) [of l1 h ?b] l ok s1 st win by (auto simp: l1_def)
  define l2a where "l2a = l1\<lparr>lr := r2, dataq := []\<rparr>"
  have run2a: "link_step\<^sup>*\<^sup>* l l2a"
    using run1 r2(1) unfolding l2a_def by (rule rtranclp.rtrancl_into_rtrancl)
  define l2 where "l2 = l2a\<lparr>lr := upd (rp l2a) (\<lambda>x. x\<lparr>recvBuf := drop (unat n) (recvBuf x)\<rparr>) (lr l2a),
    got := got l2a @ take (unat n) (recvBuf (strm (lr l2a) (rp l2a)))\<rparr>"
  have "refused l2a = None" using l by (simp add: l2a_def l1_def)
  then have "link_step l2a l2" unfolding l2_def by (rule link_read)
  with run2a have run2: "link_step\<^sup>*\<^sup>* l l2" by (rule rtranclp.rtrancl_into_rtrancl)
  have r2': "session_ok (lr l2)" "length (objs (lr l2)) = length (objs (lr l))" "cfg (lr l2) = cfg (lr l)"
      "state (strm (lr l2) (rp l)) = streamEstablished" "recvWindow (strm (lr l2) (rp l)) = 0"
    using r2 ok by (simp_all add: l2_def l2a_def l1_def session_ok_upd)
  have l2: "wp l2 = wp l" "rp l2 = rp l" "lw l2 = s1" "rpend l2 = None" "wpend l2 = None" "updq l2 = []"
      "dataq l2 = []" "refused l2 = None"
    using l by (simp_all add: l2_def l2a_def l1_def)
  obtain r3 w3 where r3: "link_step\<^sup>*\<^sup>* l2 (l2\<lparr>lr := r3, lw := w3, rpend := Some n\<rparr>)"
      "session_ok r3" "length (objs r3) = length (objs (lr l))" "recvWindow (strm r3 (rp l)) = 0"
      "session_ok w3" "length (objs w3) = length (objs (lw l))"
      "state (strm w3 (wp l)) = streamEstablished" "sendWindow (strm w3 (wp l)) = n"
    using run_update [of l2] ok s1 r2' win by (auto simp: l2)
  define l3 where "l3 = l2\<lparr>lr := r3, lw := w3, rpend := Some n\<rparr>"
  have run3: "link_step\<^sup>*\<^sup>* l l3" using run2 r3(1) unfolding l3_def by (rule rtranclp_trans)
  obtain h4 w4 where w4: "link_step\<^sup>*\<^sup>* l3 (l3\<lparr>lw := w4, dataq := [(h4, ?b)], sent := sent l3 @ ?b\<rparr>)"
      "Length h4 = n" "tame_flags (Flags h4)"
    using run_write [of l3 n ?b] l ok r3 win(4) by (auto simp: l2 l3_def)
  define l4 where "l4 = l3\<lparr>lw := w4, dataq := [(h4, ?b)], sent := sent l3 @ ?b\<rparr>"
  have run4: "link_step\<^sup>*\<^sup>* l l4" using run3 w4(1) unfolding l4_def by (rule rtranclp_trans)
  obtain r5 where r5: "link_step l4 (l4\<lparr>lr := r5, dataq := [], refused := Some ErrRecvWindowExceeded\<rparr>)"
    using run_data(1) [of l4 h4 ?b] l ok r3 w4 win(4)
    by (auto simp: word_gt_0 l2 l3_def l4_def)
  define l5 where "l5 = l4\<lparr>lr := r5, dataq := [], refused := Some ErrRecvWindowExceeded\<rparr>"
  have "link_step\<^sup>*\<^sup>* l l5" using run4 r5 unfolding l5_def by (rule rtranclp.rtrancl_into_rtrancl)
  moreover have "refused l5 = Some ErrRecvWindowExceeded" by (simp add: l5_def)
  ultimately show ?thesis by blast
qed

text \<open>A link between two sessions with one established stream each.\<close>

definition demo_link :: link where
  "demo_link = \<lparr>lw = demo_session True, lr = demo_session False, wp = 0, rp = 0, dataq = [], updq = [],
     wpend = None, rpend = None, sent = [], got = [], refused = None\<rparr>"

lemma demo_link_start: "link_start demo_link"
  using demo_session_ok
  by (simp add: link_start_def demo_link_def)
    (simp add: demo_session_def strm_def new_stream_def live_state_def writable_def remote_done_def)

lemma demo_link_reachable: "reachable link_start link_step demo_link"
  using demo_link_start by (rule reachable_start)

section \<open>Properties\<close>

text \<open>
  C5: In every interleaving of writes, deliveries, reads and window updates, as long as no
  frame was refused, the window the writer may still use, plus all data in flight, plus all
  credit in flight, equals the reader's window plus the increment it has announced and not
  booked; and that sum never exceeds the configured MaxStreamWindowSize.
\<close>

theorem credit_conserved:
  assumes "reachable link_start link_step l" and "refused l = None"
  shows "unat (sendWindow (strm (lw l) (wp l)) - pending (wpend l)) + in_flight l + credit_in_flight l
      = unat (recvWindow (strm (lr l) (rp l))) + unat (pending (rpend l)) \<and>
    unat (recvWindow (strm (lr l) (rp l))) + unat (pending (rpend l))
      \<le> unat (MaxStreamWindowSize (cfg (lr l)))"
  using credit_system.inv_reachable [OF assms(1)] assms(2)
  by (simp_all add: link_inv_def credit_ok_def)

theorem credit_conserved_witness:
  "unat (sendWindow (strm (lw demo_link) (wp demo_link)) - pending (wpend demo_link)) + in_flight demo_link
      + credit_in_flight demo_link = unat (recvWindow (strm (lr demo_link) (rp demo_link)))
      + unat (pending (rpend demo_link)) \<and> refused demo_link = None"
  using credit_conserved [OF demo_link_reachable] by (simp add: demo_link_def)



text \<open>
  C14: A reader with no window increment waiting to be booked never refuses a frame that the
  peer's \<open>write\<close> has sent: the next data frame is accepted and its bytes are appended.
\<close>

theorem honest_frame_accepted:
  assumes "reachable link_start link_step l" and "refused l = None" and "rpend l = None"
    and "dataq l = (h, body) # q"
  shows "\<exists>s'. readData (rp l) h (Flags h) (deliver body (lr l)) = (Ret None, s') \<and>
    recvBuf (strm s' (rp l)) = recvBuf (strm (lr l) (rp l)) @ body"
proof -
  have inv: "link_inv l" using credit_system.inv_reachable [OF assms(1)] .
  then have w: "session_ok (lr l)" "rp l < length (objs (lr l))"
    and h: "tame_flags (Flags h)" "unat (Length h) = length body"
    using assms(4) by (auto simp: link_inv_def frames_ok_def)
  obtain x s' where r: "readData (rp l) h (Flags h) (deliver body (lr l)) = (x, s')" by fastforce
  have "length body \<le> unat (recvWindow (strm (lr l) (rp l)))"
    using inv assms by (simp add: link_inv_def credit_ok_def pending_def in_flight_def)
  then have "Length h \<le> recvWindow (strm (lr l) (rp l))" using h by (simp add: word_le_nat_alt)
  with r readData_tame(5) [OF w h r] show ?thesis by auto
qed

theorem honest_frame_accepted_witness:
  "\<exists>(l :: link) h q. dataq l = (h, replicate 262144 0) # q \<and>
    (\<exists>s'. readData (rp l) h (Flags h) (deliver (replicate 262144 0) (lr l)) = (Ret None, s') \<and>
       recvBuf (strm s' (rp l)) = recvBuf (strm (lr l) (rp l)) @ replicate 262144 0)"
proof -
  have inv: "link_inv demo_link" using demo_link_start by (rule link_start_inv)
  let ?n = "initialStreamWindow" and ?b = "replicate (unat initialStreamWindow) 0 :: bytes"
  have n: "sendWindow (strm (lw demo_link) (wp demo_link)) = ?n" "?n \<noteq> 0"
    "wpend demo_link = None" "state (strm (lw demo_link) (wp demo_link)) = streamEstablished"
    by (simp_all add: demo_link_def demo_session_def strm_def new_stream_def initialStreamWindow_def)
  obtain h s' where run: "link_step\<^sup>*\<^sup>* demo_link
      (demo_link\<lparr>lw := s', dataq := [(h, ?b)], sent := ?b\<rparr>)" (is "link_step\<^sup>*\<^sup>* _ ?l")
    using run_write [of demo_link ?n ?b] inv n by (auto simp: link_inv_def demo_link_def)
  have "reachable link_start link_step ?l"
    using run demo_link_reachable
    by (induction rule: rtranclp_induct) (auto intro: reachable_step)
  from honest_frame_accepted [OF this, of h ?b "[]"]
  have "\<exists>s''. readData (rp ?l) h (Flags h) (deliver ?b (lr ?l)) = (Ret None, s'') \<and>
      recvBuf (strm s'' (rp ?l)) = recvBuf (strm (lr ?l) (rp ?l)) @ ?b"
    by (simp add: demo_link_def)
  moreover have "dataq ?l = (h, ?b) # []" by simp
  moreover have b: "replicate 262144 0 = ?b" by (simp add: initialStreamWindow_def)
  ultimately show ?thesis unfolding b by blast
qed

text \<open>
  C15: The exception is real: there is a reachable state, from two default sessions and using
  only the code's own steps, in which the reader has refused an honest writer's frame with
  ErrRecvWindowExceeded (and would end the session). \<open>sendWindowUpdate\<close> adds the increment
  to \<open>recvWindow\<close> only after the update has been sent, so the answer can overtake it.
\<close>

theorem window_update_race:
  "\<exists>l. reachable link_start link_step l \<and> refused l = Some ErrRecvWindowExceeded"
proof -
  have inv: "link_inv demo_link" using demo_link_start by (rule link_start_inv)
  have "\<exists>l'. link_step\<^sup>*\<^sup>* demo_link l' \<and> refused l' = Some ErrRecvWindowExceeded"
    by (rule run_refused [OF inv, where n = initialStreamWindow])
      (simp_all add: demo_link_def demo_session_def strm_def new_stream_def newSession_def
        DefaultConfig_def initialStreamWindow_def)
  then obtain l where run: "link_step\<^sup>*\<^sup>* demo_link l" and r: "refused l = Some ErrRecvWindowExceeded"
    by blast
  from run have "reachable link_start link_step l"
    by (induction rule: rtranclp_induct) (auto intro: reachable_step demo_link_reachable)
  with r show ?thesis by blast
qed

end
