(* ===== verification/Ws_Handshake.thy ===== *)
theory Ws_Handshake
  imports Ws_Conn Go_Http
begin

text \<open>
  The opening handshake: hybiClientHandshake, the server's ReadHandshake and AcceptHandshake
  with newServerConn and serveWebSocket, and the dialling client. The hash function sha1, the
  parser of request URIs and the dialling of connections are parameters.
\<close>

section \<open>Configuration and errors\<close>

record ws_config =
  cfg_Location :: "url option"
  cfg_Origin :: "url option"
  cfg_Protocol :: "string list"
  cfg_Version :: int
  cfg_Header :: header
  cfg_key :: "string option"

definition ProtocolVersionHybi13 :: int where "ProtocolVersionHybi13 = 13"

definition ErrBadProtocolVersion :: werror where "ErrBadProtocolVersion = ProtocolError ''bad protocol version''"
definition ErrBadScheme :: werror where "ErrBadScheme = ProtocolError ''bad scheme''"
definition ErrBadStatus :: werror where "ErrBadStatus = ProtocolError ''bad status''"
definition ErrBadUpgrade :: werror where "ErrBadUpgrade = ProtocolError ''missing or bad upgrade''"
definition ErrBadWebSocketOrigin :: werror where "ErrBadWebSocketOrigin = ProtocolError ''missing or bad WebSocket-Origin''"
definition ErrBadWebSocketLocation :: werror where "ErrBadWebSocketLocation = ProtocolError ''missing or bad WebSocket-Location''"
definition ErrBadWebSocketProtocol :: werror where "ErrBadWebSocketProtocol = ProtocolError ''missing or bad WebSocket-Protocol''"
definition ErrBadWebSocketVersion :: werror where "ErrBadWebSocketVersion = ProtocolError ''missing or bad WebSocket Version''"
definition ErrChallengeResponse :: werror where "ErrChallengeResponse = ProtocolError ''mismatch challenge/response''"
definition ErrNotWebSocket :: werror where "ErrNotWebSocket = ProtocolError ''not websocket protocol''"
definition ErrBadRequestMethod :: werror where "ErrBadRequestMethod = ProtocolError ''bad method''"
definition ErrUnsupportedExtensions :: werror where "ErrUnsupportedExtensions = ProtocolError ''unsupported extensions''"

lemmas handshake_errors = ErrBadProtocolVersion_def ErrBadScheme_def ErrBadStatus_def ErrBadUpgrade_def
  ErrBadWebSocketOrigin_def ErrBadWebSocketLocation_def ErrBadWebSocketProtocol_def ErrBadWebSocketVersion_def
  ErrChallengeResponse_def ErrNotWebSocket_def ErrBadRequestMethod_def ErrUnsupportedExtensions_def

definition handshakeHeader :: "string list" where
  "handshakeHeader = [''Host'', ''Upgrade'', ''Connection'', ''Sec-Websocket-Key'', ''Sec-Websocket-Origin'',
     ''Sec-Websocket-Version'', ''Sec-Websocket-Protocol'', ''Sec-Websocket-Accept'']"

definition websocketGUID :: string where
  "websocketGUID = ''258EAFA5-E914-47DA-95CA-C5AB0DC85B11''"

text \<open>A nonce is the base64 text of 16 random bytes; None stands for a failing crypto/rand.\<close>

definition generateNonce :: "bytes option \<Rightarrow> string outcome" where
  "generateNonce key = (case key of None \<Rightarrow> Panic ''rand'' | Some k \<Rightarrow> Ret (base64 StdEncoding k))"

definition getNonceAccept :: "(bytes \<Rightarrow> bytes) \<Rightarrow> string \<Rightarrow> string" where
  "getNonceAccept sha1 nonce = base64 StdEncoding (sha1 (bytes_of (nonce @ websocketGUID)))"

definition WriteString :: "string \<Rightarrow> bwriter \<Rightarrow> bwriter" where
  "WriteString s w = bw_Write (bytes_of s) w"

section \<open>The client\<close>

definition request_head :: "url \<Rightarrow> string \<Rightarrow> url \<Rightarrow> string" where
  "request_head location nonce origin =
     ''GET '' @ url_RequestURI location @ '' HTTP/1.1'' @ crlf @
     print_lines [(''Host'', url_Host location), (''Upgrade'', ''websocket''), (''Connection'', ''Upgrade''),
       (''Sec-WebSocket-Key'', nonce), (''Origin'', ToLower (url_String origin))]"

definition request_tail :: "ws_config \<Rightarrow> string" where
  "request_tail c =
     print_lines ([(''Sec-WebSocket-Version'', ''13'')] @
       (if cfg_Protocol c \<noteq> [] then [(''Sec-WebSocket-Protocol'', Join '', '' (cfg_Protocol c))] else [])) @
     WriteSubset handshakeHeader (cfg_Header c) @ crlf"

definition check_response :: "(bytes \<Rightarrow> bytes) \<Rightarrow> string \<Rightarrow> nat \<times> string \<times> header \<Rightarrow> ws_config
    \<Rightarrow> werror option \<times> ws_config" where
  "check_response sha1 nonce resp c =
     (case resp of (code, status, h) \<Rightarrow>
        if code \<noteq> 101 then (Some ErrBadStatus, c)
        else if ToLower (hdr_Get h ''Upgrade'') \<noteq> ''websocket'' \<or> ToLower (hdr_Get h ''Connection'') \<noteq> ''upgrade''
          then (Some ErrBadUpgrade, c)
        else if hdr_Get h ''Sec-WebSocket-Accept'' \<noteq> getNonceAccept sha1 nonce then (Some ErrChallengeResponse, c)
        else if hdr_Get h ''Sec-WebSocket-Extensions'' \<noteq> [] then (Some ErrUnsupportedExtensions, c)
        else
          let offered = hdr_Get h ''Sec-WebSocket-Protocol''
          in if offered \<noteq> [] then
               (if offered \<in> set (cfg_Protocol c) then (None, c\<lparr>cfg_Protocol := [offered]\<rparr>)
                else (Some ErrBadWebSocketProtocol, c))
             else (None, c))"

definition hybiClientHandshake :: "(bytes \<Rightarrow> bytes) \<Rightarrow> bytes option \<Rightarrow> ws_config \<Rightarrow> rbuf \<Rightarrow> bwriter
    \<Rightarrow> ((werror option \<times> ws_config) \<times> rbuf \<times> bwriter) outcome" where
  "hybiClientHandshake sha1 key c r w =
     (case cfg_Location c of
        None \<Rightarrow> Panic ''nil pointer dereference''
      | Some location \<Rightarrow>
          (case generateNonce key of
             Panic m \<Rightarrow> Panic m
           | Block \<Rightarrow> Block
           | Ret random \<Rightarrow>
               (case cfg_Origin c of
                  None \<Rightarrow> Panic ''nil pointer dereference''
                | Some origin \<Rightarrow>
                    let nonce = (case cfg_key c of Some k \<Rightarrow> k | None \<Rightarrow> random);
                        w = WriteString (request_head location nonce origin) w
                    in if cfg_Version c \<noteq> ProtocolVersionHybi13 then Ret ((Some ErrBadProtocolVersion, c), r, w)
                       else
                         (case bw_Flush (WriteString (request_tail c) w) of
                            (Some e, w) \<Rightarrow> Ret ((Some e, c), r, w)
                          | (None, w) \<Rightarrow>
                              (case ReadResponse r of
                                 (RErr e, r) \<Rightarrow> Ret ((Some e, c), r, w)
                               | (RBlock, r) \<Rightarrow> Block
                               | (RVal resp, r) \<Rightarrow> Ret (check_response sha1 nonce resp c, r, w))))))"

definition newHybiClientConn :: "rbuf \<Rightarrow> bwriter \<Rightarrow> bytes list \<Rightarrow> ws_conn" where
  "newHybiClientConn r w rand = newHybiConn r w False rand"

definition NewClient :: "(bytes \<Rightarrow> bytes) \<Rightarrow> bytes option \<Rightarrow> ws_config \<Rightarrow> rbuf \<Rightarrow> bwriter \<Rightarrow> bytes list
    \<Rightarrow> ((werror + ws_conn) \<times> ws_config) outcome" where
  "NewClient sha1 key c r w rand =
     (case hybiClientHandshake sha1 key c r w of
        Panic m \<Rightarrow> Panic m
      | Block \<Rightarrow> Block
      | Ret ((Some e, c), r, w) \<Rightarrow> Ret (Inl e, c)
      | Ret ((None, c), r, w) \<Rightarrow> Ret (Inr (newHybiClientConn r w rand), c))"

definition NewConfig :: "(string \<Rightarrow> werror + url) \<Rightarrow> string \<Rightarrow> string \<Rightarrow> werror + ws_config" where
  "NewConfig parse server origin =
     (case parse server of
        Inl e \<Rightarrow> Inl e
      | Inr l \<Rightarrow>
          (case parse origin of
             Inl e \<Rightarrow> Inl e
           | Inr u \<Rightarrow> Inr \<lparr>cfg_Location = Some l, cfg_Origin = Some u, cfg_Protocol = [],
                          cfg_Version = ProtocolVersionHybi13, cfg_Header = [], cfg_key = None\<rparr>))"

text \<open>The results of net.Dial and tls.Dial are arguments; every error comes wrapped in a DialError.\<close>

definition DialConfig :: "(bytes \<Rightarrow> bytes) \<Rightarrow> bytes option \<Rightarrow> (string \<Rightarrow> werror + (rbuf \<times> bwriter))
    \<Rightarrow> (string \<Rightarrow> werror + (rbuf \<times> bwriter)) \<Rightarrow> bytes list \<Rightarrow> ws_config
    \<Rightarrow> ((werror + ws_conn) \<times> ws_config) outcome" where
  "DialConfig sha1 key tcp_dial tls_dial rand c =
     (case (cfg_Location c, cfg_Origin c) of
        (None, _) \<Rightarrow> Ret (Inl ErrBadWebSocketLocation, c)
      | (Some l, None) \<Rightarrow> Ret (Inl ErrBadWebSocketOrigin, c)
      | (Some l, Some u) \<Rightarrow>
          (case (if url_Scheme l = ''ws'' then tcp_dial (url_Host l)
                 else if url_Scheme l = ''wss'' then tls_dial (url_Host l)
                 else Inl ErrBadScheme) of
             Inl e \<Rightarrow> Ret (Inl e, c)
           | Inr (r, w) \<Rightarrow> NewClient sha1 key c r w rand))"

definition ws_Dial :: "(bytes \<Rightarrow> bytes) \<Rightarrow> bytes option \<Rightarrow> (string \<Rightarrow> werror + (rbuf \<times> bwriter))
    \<Rightarrow> (string \<Rightarrow> werror + (rbuf \<times> bwriter)) \<Rightarrow> bytes list \<Rightarrow> (string \<Rightarrow> werror + url)
    \<Rightarrow> string \<Rightarrow> string \<Rightarrow> string \<Rightarrow> (werror + ws_conn) outcome" where
  "ws_Dial sha1 key tcp_dial tls_dial rand parse u protocol origin =
     (case NewConfig parse u origin of
        Inl e \<Rightarrow> Ret (Inl e)
      | Inr c \<Rightarrow>
          (case DialConfig sha1 key tcp_dial tls_dial rand
                  (if protocol \<noteq> [] then c\<lparr>cfg_Protocol := [protocol]\<rparr> else c) of
             Ret (x, c) \<Rightarrow> Ret x
           | Block \<Rightarrow> Block
           | Panic m \<Rightarrow> Panic m))"

section \<open>The server\<close>

text \<open>ReadHandshake: the status code, the error, the configuration and the accept text.\<close>

definition ReadHandshake :: "(bytes \<Rightarrow> bytes) \<Rightarrow> (string \<Rightarrow> werror + url) \<Rightarrow> http_request \<Rightarrow> ws_config
    \<Rightarrow> (nat \<times> werror option) \<times> ws_config \<times> string" where
  "ReadHandshake sha1 parse req c0 =
     (let c = c0\<lparr>cfg_Version := ProtocolVersionHybi13\<rparr>; h = req_Header req in
      if req_Method req \<noteq> ''GET'' then ((405, Some ErrBadRequestMethod), c, [])
      else if ToLower (hdr_Get h ''Upgrade'') \<noteq> ''websocket''
              \<or> \<not> Contains (ToLower (hdr_Get h ''Connection'')) ''upgrade''
        then ((400, Some ErrNotWebSocket), c, [])
      else
        let key = hdr_Get h ''Sec-Websocket-Key'' in
        if key = [] then ((400, Some ErrChallengeResponse), c, [])
        else if hdr_Get h ''Sec-Websocket-Version'' \<noteq> ''13'' then ((400, Some ErrBadWebSocketVersion), c, [])
        else
          let scheme = (if req_TLS req then ''wss'' else ''ws'') in
          (case parse (scheme @ ''://'' @ req_Host req @ url_RequestURI (req_URL req)) of
             Inl e \<Rightarrow> ((400, Some e), c\<lparr>cfg_Location := None\<rparr>, [])
           | Inr l \<Rightarrow>
               let protocol = TrimSpace (hdr_Get h ''Sec-Websocket-Protocol'');
                   c = c\<lparr>cfg_Location := Some l,
                          cfg_Protocol := cfg_Protocol c @
                            (if protocol \<noteq> [] then map TrimSpace (Split (CHR '','') protocol) else [])\<rparr>
               in ((101, None), c, getNonceAccept sha1 key)))"

definition Origin :: "(string \<Rightarrow> werror + url) \<Rightarrow> ws_config \<Rightarrow> http_request \<Rightarrow> werror + url option" where
  "Origin parse c req =
     (let origin = (if cfg_Version c = ProtocolVersionHybi13 then hdr_Get (req_Header req) ''Origin'' else [])
      in if origin = ''null'' then Inr None
         else (case parse origin of Inl e \<Rightarrow> Inl e | Inr u \<Rightarrow> Inr (Some u)))"

definition checkOrigin :: "(string \<Rightarrow> werror + url) \<Rightarrow> ws_config \<Rightarrow> http_request \<Rightarrow> werror option \<times> ws_config" where
  "checkOrigin parse c req =
     (case Origin parse c req of
        Inl e \<Rightarrow> (Some e, c\<lparr>cfg_Origin := None\<rparr>)
      | Inr None \<Rightarrow> (Some (OtherError ''null origin''), c\<lparr>cfg_Origin := None\<rparr>)
      | Inr (Some u) \<Rightarrow> (None, c\<lparr>cfg_Origin := Some u\<rparr>))"

definition response_text :: "ws_config \<Rightarrow> string \<Rightarrow> string" where
  "response_text c accept =
     ''HTTP/1.1 101 Switching Protocols'' @ crlf @
     print_lines ([(''Upgrade'', ''websocket''), (''Connection'', ''Upgrade''), (''Sec-WebSocket-Accept'', accept)] @
       (if cfg_Protocol c \<noteq> [] then [(''Sec-WebSocket-Protocol'', hd (cfg_Protocol c))] else [])) @
     WriteSubset handshakeHeader (cfg_Header c) @ crlf"

definition AcceptHandshake :: "ws_config \<Rightarrow> string \<Rightarrow> bwriter \<Rightarrow> werror option \<times> bwriter" where
  "AcceptHandshake c accept w =
     (if 1 < length (cfg_Protocol c) then (Some ErrBadWebSocketProtocol, w)
      else bw_Flush (WriteString (response_text c accept) w))"

definition StatusText :: "nat \<Rightarrow> string" where
  "StatusText code = (if code = 400 then ''Bad Request'' else if code = 403 then ''Forbidden''
     else if code = 405 then ''Method Not Allowed'' else if code = 101 then ''Switching Protocols''
     else if code = 500 then ''Internal Server Error'' else [])"

definition digit_char :: "nat \<Rightarrow> char" where
  "digit_char n = char_of (48 + n mod 10)"

definition status_text_line :: "nat \<Rightarrow> string" where
  "status_text_line code = ''HTTP/1.1 '' @ [digit_char (code div 100), digit_char (code div 10), digit_char code]
     @ '' '' @ StatusText code @ crlf"

definition newHybiServerConn :: "rbuf \<Rightarrow> bwriter \<Rightarrow> bytes list \<Rightarrow> ws_conn" where
  "newHybiServerConn r w rand = newHybiConn r w True rand"

definition newServerConn :: "(bytes \<Rightarrow> bytes) \<Rightarrow> (string \<Rightarrow> werror + url)
    \<Rightarrow> (ws_config \<Rightarrow> http_request \<Rightarrow> werror option \<times> ws_config) option
    \<Rightarrow> rbuf \<Rightarrow> bwriter \<Rightarrow> bytes list \<Rightarrow> http_request \<Rightarrow> ws_config
    \<Rightarrow> (ws_conn option \<times> werror option) \<times> ws_config \<times> bwriter" where
  "newServerConn sha1 parse handshake r w rand req c =
     (case ReadHandshake sha1 parse req c of
        ((code, Some e), c, accept) \<Rightarrow>
          ((None, Some e), c, snd (bw_Flush (WriteString
             (status_text_line code @
              (if e = ErrBadWebSocketVersion then ''Sec-WebSocket-Version: 13'' @ crlf else []) @
              crlf @ error_string e) w)))
      | ((code, None), c, accept) \<Rightarrow>
          (case (case handshake of None \<Rightarrow> (None, c) | Some f \<Rightarrow> f c req) of
             (Some e, c) \<Rightarrow> ((None, Some e), c, snd (bw_Flush (WriteString (status_text_line 403 @ crlf) w)))
           | (None, c) \<Rightarrow>
               (case AcceptHandshake c accept w of
                  (Some e, w) \<Rightarrow> ((None, Some e), c, snd (bw_Flush (WriteString (status_text_line 400 @ crlf) w)))
                | (None, w) \<Rightarrow> ((Some (newHybiServerConn r w rand), None), c, w))))"

text \<open>
  serveWebSocket: the result of Hijack is an argument; the value is what the handler was given
  (None when it is not called), and the connection below is closed in every case.
\<close>

definition serveWebSocket :: "(bytes \<Rightarrow> bytes) \<Rightarrow> (string \<Rightarrow> werror + url)
    \<Rightarrow> (ws_config \<Rightarrow> http_request \<Rightarrow> werror option \<times> ws_config) option
    \<Rightarrow> werror + (rbuf \<times> bwriter) \<Rightarrow> bytes list \<Rightarrow> http_request \<Rightarrow> ws_config
    \<Rightarrow> (ws_conn option \<times> bwriter) outcome" where
  "serveWebSocket sha1 parse handshake hijack rand req c =
     (case hijack of
        Inl e \<Rightarrow> Panic (''Hijack failed: '' @ error_string e)
      | Inr (r, w) \<Rightarrow>
          (case newServerConn sha1 parse handshake r w rand req c of
             ((conn, Some e), c, w) \<Rightarrow> Ret (None, w)
           | ((None, None), c, w) \<Rightarrow> Panic ''unexpected nil conn''
           | ((Some conn, None), c, w) \<Rightarrow> Ret (Some conn, w)))"

text \<open>Handler.ServeHTTP checks the origin and has an empty configuration.\<close>

definition empty_config :: ws_config where
  "empty_config = \<lparr>cfg_Location = None, cfg_Origin = None, cfg_Protocol = [], cfg_Version = 0,
     cfg_Header = [], cfg_key = None\<rparr>"

definition Handler_ServeHTTP :: "(bytes \<Rightarrow> bytes) \<Rightarrow> (string \<Rightarrow> werror + url) \<Rightarrow> werror + (rbuf \<times> bwriter)
    \<Rightarrow> bytes list \<Rightarrow> http_request \<Rightarrow> (ws_conn option \<times> bwriter) outcome" where
  "Handler_ServeHTTP sha1 parse hijack rand req =
     serveWebSocket sha1 parse (Some (checkOrigin parse)) hijack rand req empty_config"

end
