(* ===== verification/Ws_Opening.thy ===== *)
theory Ws_Opening
  imports Ws_Handshake
begin

text \<open>
  Properties of the opening handshake: a client and a server complete it with each other, the
  client accepts only a matching answer, the server opens a connection for exactly the requests
  the protocol allows.
\<close>

section \<open>Texts on the wire\<close>

definition text_ok :: "string \<Rightarrow> bool" where
  "text_ok s \<longleftrightarrow> (\<forall>c \<in> set s. CHR 0x20 < c \<and> c < CHR 0x7F)"

lemma text_ok_append [simp]: "text_ok (a @ b) \<longleftrightarrow> text_ok a \<and> text_ok b"
  by (auto simp: text_ok_def)

lemma text_ok_chars:
  assumes "text_ok s"
  shows "CHR 0x0A \<notin> set s" "CHR 0x0D \<notin> set s" "CHR '' '' \<notin> set s" "CHR 0x09 \<notin> set s"
  using assms by (auto simp: text_ok_def less_char_def)

lemma trim_text_ok: "text_ok s \<Longrightarrow> trim (\<lambda>c. c = CHR '' '' \<or> c = CHR 0x09) s = s"
  by (intro trim_id) (metis hd_in_set last_in_set text_ok_chars(3,4))

lemma TrimSpace_text_ok: "text_ok s \<Longrightarrow> TrimSpace s = s"
proof -
  assume s: "text_ok s"
  have "\<not> is_space c" if "c \<in> set s" for c
    using s that by (auto simp: text_ok_def is_space_def less_char_def less_eq_char_def)
  then show ?thesis unfolding TrimSpace_def by (intro trim_id) (metis hd_in_set last_in_set)
qed

lemma lower_ok: "CHR 0x20 < c \<and> c < CHR 0x7F \<Longrightarrow> CHR 0x20 < lower_char c \<and> lower_char c < CHR 0x7F"
  by (auto simp: lower_char_def less_char_def less_eq_char_def)

lemma text_ok_ToLower: "text_ok s \<Longrightarrow> text_ok (ToLower s)"
  using lower_ok by (auto simp: text_ok_def ToLower_def)

lemma text_ok_base64: "text_ok (base64 StdEncoding b)"
proof -
  have "\<forall>c \<in> insert (CHR ''='') (set StdEncoding). CHR 0x20 < c \<and> c < CHR 0x7F" by code_simp
  with base64_set [OF alphabet_Std, of b] show ?thesis unfolding text_ok_def by blast
qed

lemma hdr_ok_text: "text_ok v \<Longrightarrow> k \<noteq> [] \<Longrightarrow> CHR '':'' \<notin> set k \<Longrightarrow> CHR 0x0A \<notin> set k \<Longrightarrow> hdr_ok (k, v)"
  by (simp add: hdr_ok_def text_ok_chars trim_text_ok)

lemma canonical_keys [simp]:
  "canonicalKey ''Host'' = ''Host''" "canonicalKey ''Upgrade'' = ''Upgrade''"
  "canonicalKey ''Connection'' = ''Connection''" "canonicalKey ''Origin'' = ''Origin''"
  "canonicalKey ''Sec-WebSocket-Key'' = ''Sec-Websocket-Key''"
  "canonicalKey ''Sec-Websocket-Key'' = ''Sec-Websocket-Key''"
  "canonicalKey ''Sec-WebSocket-Version'' = ''Sec-Websocket-Version''"
  "canonicalKey ''Sec-Websocket-Version'' = ''Sec-Websocket-Version''"
  "canonicalKey ''Sec-WebSocket-Protocol'' = ''Sec-Websocket-Protocol''"
  "canonicalKey ''Sec-Websocket-Protocol'' = ''Sec-Websocket-Protocol''"
  "canonicalKey ''Sec-WebSocket-Accept'' = ''Sec-Websocket-Accept''"
  "canonicalKey ''Sec-WebSocket-Extensions'' = ''Sec-Websocket-Extensions''"
  by code_simp+

lemma known_texts [simp]:
  "ToLower ''websocket'' = ''websocket''" "ToLower ''Upgrade'' = ''upgrade''"
  "Contains ''upgrade'' ''upgrade''"
  "status_line ''HTTP/1.1 101 Switching Protocols'' = Some (101, ''101 Switching Protocols'')"
  "text_ok ''websocket''" "text_ok ''Upgrade''" "text_ok ''13''" "text_ok []"
  by code_simp+

definition lines_of_request :: "url \<Rightarrow> string \<Rightarrow> url \<Rightarrow> string list \<Rightarrow> (string \<times> string) list" where
  "lines_of_request l nonce u ps =
     [(''Host'', url_Host l), (''Upgrade'', ''websocket''), (''Connection'', ''Upgrade''),
       (''Sec-WebSocket-Key'', nonce), (''Origin'', ToLower (url_String u)), (''Sec-WebSocket-Version'', ''13'')] @
     (if ps \<noteq> [] then [(''Sec-WebSocket-Protocol'', Join '', '' ps)] else [])"

definition lines_of_response :: "string \<Rightarrow> string list \<Rightarrow> (string \<times> string) list" where
  "lines_of_response accept ps =
     [(''Upgrade'', ''websocket''), (''Connection'', ''Upgrade''), (''Sec-WebSocket-Accept'', accept)] @
     (if ps \<noteq> [] then [(''Sec-WebSocket-Protocol'', hd ps)] else [])"

text \<open>The header sent, as the other side gets it.\<close>

definition header_of :: "(string \<times> string) list \<Rightarrow> header" where
  "header_of kvs = fold add_line kvs []"

lemma hdr_Get_header_of:
  "hdr_Get (header_of kvs) k = (case filter (\<lambda>kv. canonicalKey (fst kv) = canonicalKey k) kvs of [] \<Rightarrow> [] | kv # r \<Rightarrow> snd kv)"
  by (simp add: hdr_Get_def header_of_def hdr_values_add_lines) (simp add: hdr_values_def split: list.split)

lemma print_lines_append: "print_lines (a @ b) = print_lines a @ print_lines b"
  by (simp add: print_lines_def)

lemma WriteSubset_empty [simp]: "WriteSubset ex [] = []"
  by (simp add: WriteSubset_def hdr_lines_def print_lines_def)

lemma ReadRequest_text:
  assumes uri: "text_ok (url_RequestURI l)" and host: "text_ok (url_Host l)"
    and nonce: "text_ok nonce" and orig: "text_ok (url_String u)" and ps: "list_all text_ok ps" "length ps \<le> 1"
    and c: "cfg_Protocol c = ps" "cfg_Header c = []"
    and r: "rd_in r = bytes_of (request_head l nonce u @ request_tail c) @ rest"
  shows "ReadRequest r = (RVal (''GET'', url_RequestURI l, url_Host l,
      hdr_Del ''Host'' (header_of (lines_of_request l nonce u ps))), r\<lparr>rd_in := rest\<rparr>)"
proof -
  let ?ls = "lines_of_request l nonce u ps"
  let ?line = "''GET '' @ url_RequestURI l @ '' HTTP/1.1''"
  let ?r = "r\<lparr>rd_in := bytes_of (print_lines ?ls @ crlf) @ rest\<rparr>"
  have "request_head l nonce u @ request_tail c = ?line @ crlf @ print_lines ?ls @ crlf"
    using c by (simp add: request_head_def request_tail_def lines_of_request_def print_lines_def)
  then have inp: "rd_in r = bytes_of (?line @ crlf) @ bytes_of (print_lines ?ls @ crlf) @ rest"
    by (simp only: r bytes_of_append append_assoc)
  have line: "read_line r = (RVal ?line, ?r)"
    by (rule read_line_crlf [OF inp]) (use uri in \<open>simp add: text_ok_chars\<close>)
  have "CHR '' '' \<notin> set (''GET'')" by simp
  from cut_append [OF this, of "url_RequestURI l @ '' HTTP/1.1''"]
  have c1: "Go_Text.cut (CHR '' '') ?line = Some (''GET'', url_RequestURI l @ '' HTTP/1.1'')" by simp
  have c2: "Go_Text.cut (CHR '' '') (url_RequestURI l @ '' HTTP/1.1'') = Some (url_RequestURI l, ''HTTP/1.1'')"
    using cut_append [OF text_ok_chars(3) [OF uri], of "''HTTP/1.1''"] by simp
  have rl: "request_line ?line = Some (''GET'', url_RequestURI l, ''HTTP/1.1'')"
    unfolding request_line_def c1 option.case prod.case c2 by (simp add: HasPrefix_def)
  have "list_all hdr_ok ?ls"
    using assms text_ok_ToLower [OF orig]
    by (cases ps) (auto simp: lines_of_request_def intro!: hdr_ok_text)
  then have hs: "read_headers ?r [] = (RVal (header_of ?ls), ?r\<lparr>rd_in := rest\<rparr>)"
    unfolding header_of_def by (rule read_headers_lines) simp
  have "hdr_Get (header_of ?ls) ''Host'' = url_Host l"
    by (simp add: hdr_Get_header_of lines_of_request_def)
  with line rl hs show ?thesis by (simp add: ReadRequest_def)
qed

lemma ReadResponse_text:
  assumes "text_ok accept" and "list_all text_ok ps" and "cfg_Protocol c = ps" "cfg_Header c = []"
    and r: "rd_in r = bytes_of (response_text c accept) @ rest"
  shows "ReadResponse r = (RVal (101, ''101 Switching Protocols'', header_of (lines_of_response accept ps)), r\<lparr>rd_in := rest\<rparr>)"
proof -
  let ?ls = "lines_of_response accept ps"
  let ?line = "''HTTP/1.1 101 Switching Protocols''"
  let ?r = "r\<lparr>rd_in := bytes_of (print_lines ?ls @ crlf) @ rest\<rparr>"
  have "response_text c accept = ?line @ crlf @ print_lines ?ls @ crlf"
    using assms by (simp add: response_text_def lines_of_response_def print_lines_def)
  then have inp: "rd_in r = bytes_of (?line @ crlf) @ bytes_of (print_lines ?ls @ crlf) @ rest"
    by (simp only: r bytes_of_append append_assoc)
  have line: "read_line r = (RVal ?line, ?r)" by (rule read_line_crlf [OF inp]) simp
  have "list_all hdr_ok ?ls"
    using assms by (cases ps) (auto simp: lines_of_response_def intro!: hdr_ok_text)
  then have hs: "read_headers ?r [] = (RVal (header_of ?ls), ?r\<lparr>rd_in := rest\<rparr>)"
    unfolding header_of_def by (rule read_headers_lines) simp
  show ?thesis
    unfolding ReadResponse_def line prod.case rres.case known_texts option.case hs by simp
qed

section \<open>The handshake completes\<close>

definition no_bytes :: bwriter where
  "no_bytes = \<lparr>bw_buf = [], bw_out = [], bw_err = None, bw_room = None\<rparr>"

definition input_of :: "bytes \<Rightarrow> rbuf" where
  "input_of b = \<lparr>rd_in = b, rd_end = None, rd_sizes = []\<rparr>"

definition client_config :: "url \<Rightarrow> url \<Rightarrow> string list \<Rightarrow> ws_config" where
  "client_config l u ps = \<lparr>cfg_Location = Some l, cfg_Origin = Some u, cfg_Protocol = ps,
     cfg_Version = 13, cfg_Header = [], cfg_key = None\<rparr>"

definition arrived :: "string \<Rightarrow> string \<Rightarrow> header \<Rightarrow> http_request" where
  "arrived uri host h = \<lparr>req_Method = ''GET'', req_URL = \<lparr>url_Scheme = [], url_Host = [], url_Path = [],
     url_RequestURI = uri, url_String = uri\<rparr>, req_Host = host, req_RemoteAddr = [], req_RequestURI = uri,
     req_Header = h, req_Body = no_body, req_TLS = False\<rparr>"

lemma Split_one: "c \<notin> set s \<Longrightarrow> Split c s = [s]"
  by (induction s) auto

lemma flush_no_bytes: "bw_Flush (bw_Write b no_bytes) = (None, no_bytes\<lparr>bw_out := b\<rparr>)"
  by (simp add: bw_Flush_def bw_Write_def no_bytes_def)

lemma server_answers:
  assumes "text_ok host" and "nonce \<noteq> []" and "ToLower (url_String u) \<noteq> ''null''"
    and ps: "list_all text_ok ps" "length ps \<le> 1" "\<forall>p \<in> set ps. p \<noteq> [] \<and> CHR '','' \<notin> set p"
    and parse: "parse (''ws://'' @ host @ uri) = Inr l'" "parse (ToLower (url_String u)) = Inr u'"
    and h: "h = hdr_Del ''Host'' (header_of (lines_of_request l nonce u ps))"
    and c': "c' = \<lparr>cfg_Location = Some l', cfg_Origin = Some u', cfg_Protocol = ps, cfg_Version = 13,
      cfg_Header = [], cfg_key = None\<rparr>"
  shows "newServerConn hash parse (Some (checkOrigin parse)) r no_bytes rand (arrived uri host h) empty_config =
    ((Some (newHybiServerConn r (no_bytes\<lparr>bw_out := bytes_of (response_text c' (getNonceAccept hash nonce))\<rparr>) rand), None), c',
      no_bytes\<lparr>bw_out := bytes_of (response_text c' (getNonceAccept hash nonce))\<rparr>)"
proof -
  have get: "hdr_Get h ''Upgrade'' = ''websocket''" "hdr_Get h ''Connection'' = ''Upgrade''"
    "hdr_Get h ''Sec-Websocket-Key'' = nonce" "hdr_Get h ''Sec-Websocket-Version'' = ''13''"
    "hdr_Get h ''Origin'' = ToLower (url_String u)"
    "hdr_Get h ''Sec-Websocket-Protocol'' = (if ps = [] then [] else Join '', '' ps)"
    by (simp_all add: h hdr_Get_Del hdr_Get_header_of lines_of_request_def)
  have proto: "(let protocol = TrimSpace (if ps = [] then [] else Join '', '' ps)
      in if protocol \<noteq> [] then map TrimSpace (Split (CHR '','') protocol) else []) = ps"
  proof (cases ps)
    case Nil
    then show ?thesis by (simp add: TrimSpace_def trim_def)
  next
    case (Cons p qs)
    then have p: "ps = [p]" "text_ok p" "p \<noteq> []" "CHR '','' \<notin> set p" using ps by auto
    then show ?thesis by (simp add: TrimSpace_text_ok Split_one)
  qed
  have rh: "ReadHandshake hash parse (arrived uri host h) empty_config =
      ((101, None), c'\<lparr>cfg_Origin := None\<rparr>, getNonceAccept hash nonce)"
    using assms(2) parse(1) proto
    by (simp add: ReadHandshake_def arrived_def get empty_config_def c' ProtocolVersionHybi13_def Let_def HasPrefix_def)
  have co: "checkOrigin parse (c'\<lparr>cfg_Origin := None\<rparr>) (arrived uri host h) = (None, c')"
    using assms(3) parse(2)
    by (simp add: checkOrigin_def Origin_def arrived_def get c' ProtocolVersionHybi13_def)
  have ac: "AcceptHandshake c' accept no_bytes = (None, no_bytes\<lparr>bw_out := bytes_of (response_text c' accept)\<rparr>)" for accept
    using ps(2) by (simp add: AcceptHandshake_def c' WriteString_def flush_no_bytes)
  show ?thesis by (simp add: newServerConn_def rh co ac)
qed

lemma client_checks:
  assumes "list_all text_ok ps" and "length ps \<le> 1" and "\<forall>p \<in> set ps. p \<noteq> []"
  shows "check_response sha1 nonce (101, st, header_of (lines_of_response (getNonceAccept sha1 nonce) ps))
      (client_config l u ps) = (None, client_config l u ps)"
  using assms
  by (cases ps) (simp_all add: check_response_def hdr_Get_header_of lines_of_response_def client_config_def)

text \<open>
  C7: The client's and the server's handshake fit: the request the client writes is one the
  server accepts (with Handler's origin check), and the server's answer to it is one the
  client accepts. Both ends then have a connection and the same subprotocol, for any nonce and
  hash function.
\<close>

theorem handshake_completes:
  assumes texts: "text_ok (url_RequestURI l)" "text_ok (url_Host l)" "text_ok (url_String u)"
    and ps: "list_all text_ok ps" "length ps \<le> 1" "\<forall>p \<in> set ps. p \<noteq> [] \<and> CHR '','' \<notin> set p"
    and key: "key \<noteq> []" and origin: "ToLower (url_String u) \<noteq> ''null''"
    and parse: "parse (''ws://'' @ url_Host l @ url_RequestURI l) = Inr l'" "parse (ToLower (url_String u)) = Inr u'"
  shows "\<exists>request h conn answer c'.
    ReadRequest (input_of request) = (RVal (''GET'', url_RequestURI l, url_Host l, h), input_of []) \<and>
    newServerConn sha1 parse (Some (checkOrigin parse)) (input_of []) no_bytes rand
      (arrived (url_RequestURI l) (url_Host l) h) empty_config =
      ((Some conn, None), c', no_bytes\<lparr>bw_out := answer\<rparr>) \<and>
    cfg_Protocol c' = ps \<and> IsServerConn conn \<and>
    hybiClientHandshake sha1 (Some key) (client_config l u ps) (input_of answer) no_bytes =
      Ret ((None, client_config l u ps), input_of [], no_bytes\<lparr>bw_out := request\<rparr>)"
proof -
  let ?c = "client_config l u ps" and ?nonce = "base64 StdEncoding key"
  let ?c' = "\<lparr>cfg_Location = Some l', cfg_Origin = Some u', cfg_Protocol = ps, cfg_Version = 13,
      cfg_Header = [], cfg_key = None\<rparr>"
  let ?request = "bytes_of (request_head l ?nonce u @ request_tail ?c)"
  let ?answer = "bytes_of (response_text ?c' (getNonceAccept sha1 ?nonce))"
  let ?h = "hdr_Del ''Host'' (header_of (lines_of_request l ?nonce u ps))"
  have nonce: "?nonce \<noteq> []" using key by (cases "(StdEncoding, key)" rule: base64.cases) auto
  have "ReadRequest (input_of ?request) = (RVal (''GET'', url_RequestURI l, url_Host l, ?h), (input_of ?request)\<lparr>rd_in := []\<rparr>)"
    using texts ps text_ok_base64 by (intro ReadRequest_text) (simp_all add: client_config_def input_of_def)
  moreover note server_answers [OF texts(2) nonce origin ps parse refl refl,
      where l = l and hash = sha1 and r = "input_of []" and rand = rand]
  moreover have "ReadResponse (input_of ?answer) = (RVal (101, ''101 Switching Protocols'',
      header_of (lines_of_response (getNonceAccept sha1 ?nonce) ps)), (input_of ?answer)\<lparr>rd_in := []\<rparr>)"
    using ps by (intro ReadResponse_text) (simp_all add: input_of_def getNonceAccept_def text_ok_base64)
  moreover have "bw_Flush (WriteString (request_tail ?c) (WriteString (request_head l ?nonce u) no_bytes)) =
      (None, no_bytes\<lparr>bw_out := ?request\<rparr>)"
    by (simp add: WriteString_def bw_Flush_def bw_Write_def no_bytes_def)
  moreover have "check_response sha1 ?nonce (101, ''101 Switching Protocols'',
      header_of (lines_of_response (getNonceAccept sha1 ?nonce) ps)) ?c = (None, ?c)"
    using ps by (intro client_checks) auto
  ultimately have parts:
    "ReadRequest (input_of ?request) = (RVal (''GET'', url_RequestURI l, url_Host l, ?h), input_of [])"
    "newServerConn sha1 parse (Some (checkOrigin parse)) (input_of []) no_bytes rand
      (arrived (url_RequestURI l) (url_Host l) ?h) empty_config =
      ((Some (newHybiServerConn (input_of []) (no_bytes\<lparr>bw_out := ?answer\<rparr>) rand), None), ?c', no_bytes\<lparr>bw_out := ?answer\<rparr>)"
    "hybiClientHandshake sha1 (Some key) ?c (input_of ?answer) no_bytes =
      Ret ((None, ?c), input_of [], no_bytes\<lparr>bw_out := ?request\<rparr>)"
    by (simp_all add: input_of_def hybiClientHandshake_def generateNonce_def client_config_def ProtocolVersionHybi13_def)
  show ?thesis
    by (intro exI conjI, rule parts(1), rule parts(2)) (simp_all add: parts(3) IsServerConn_def newHybiServerConn_def newHybiConn_def)
qed

definition demo_url :: url where
  "demo_url = \<lparr>url_Scheme = ''ws'', url_Host = ''a.b:80'', url_Path = ''/s'', url_RequestURI = ''/s'',
     url_String = ''http://A.b/''\<rparr>"

theorem handshake_completes_witness:
  "\<exists>request h conn answer c'.
    ReadRequest (input_of request) = (RVal (''GET'', ''/s'', ''a.b:80'', h), input_of []) \<and>
    newServerConn rev (\<lambda>s. Inr demo_url) (Some (checkOrigin (\<lambda>s. Inr demo_url))) (input_of []) no_bytes []
      (arrived ''/s'' ''a.b:80'' h) empty_config = ((Some conn, None), c', no_bytes\<lparr>bw_out := answer\<rparr>) \<and>
    cfg_Protocol c' = [''chat''] \<and> IsServerConn conn \<and>
    hybiClientHandshake rev (Some [1, 2, 3]) (client_config demo_url demo_url [''chat'']) (input_of answer) no_bytes =
      Ret ((None, client_config demo_url demo_url [''chat'']), input_of [], no_bytes\<lparr>bw_out := request\<rparr>)"
proof -
  have texts: "text_ok (url_RequestURI demo_url)" "text_ok (url_Host demo_url)" "text_ok (url_String demo_url)"
    by code_simp+
  have p: "list_all text_ok [''chat'']" by code_simp
  have n: "ToLower (url_String demo_url) \<noteq> ''null''" by code_simp
  have f: "url_RequestURI demo_url = ''/s''" "url_Host demo_url = ''a.b:80''" by (simp_all add: demo_url_def)
  show ?thesis
    using handshake_completes [OF texts p _ _ _ n, of "[1, 2, 3]" "\<lambda>s. Inr demo_url" demo_url demo_url rev "[]"]
    unfolding f by simp
qed

section \<open>What each end accepts\<close>

text \<open>
  C29: A client that completes its handshake has read an answer with status 101 whose accept
  text is the one for the nonce it sent, that announces no extension and that names a
  subprotocol only if the client offered it.
\<close>

theorem client_accepts_only:
  assumes "hybiClientHandshake sha1 key c r w = Ret ((None, c'), r', w')"
  shows "\<exists>status h random nonce. ReadResponse r = (RVal (101, status, h), r') \<and>
    generateNonce key = Ret random \<and> nonce = (case cfg_key c of Some k \<Rightarrow> k | None \<Rightarrow> random) \<and>
    hdr_Get h ''Sec-WebSocket-Accept'' = getNonceAccept sha1 nonce \<and>
    ToLower (hdr_Get h ''Upgrade'') = ''websocket'' \<and> ToLower (hdr_Get h ''Connection'') = ''upgrade'' \<and>
    hdr_Get h ''Sec-WebSocket-Extensions'' = [] \<and>
    (let offered = hdr_Get h ''Sec-WebSocket-Protocol''
     in if offered = [] then c' = c
        else offered \<in> set (cfg_Protocol c) \<and> c' = c\<lparr>cfg_Protocol := [offered]\<rparr>)"
  using assms
  by (auto simp: hybiClientHandshake_def check_response_def Let_def
      split: option.splits outcome.splits if_splits prod.splits rres.splits)

theorem client_accepts_only_witness:
  "\<exists>status h random nonce. ReadResponse (input_of (bytes_of (response_text empty_config (getNonceAccept rev (base64 StdEncoding [1]))))) =
      (RVal (101, status, h), input_of []) \<and>
    generateNonce (Some [1]) = Ret random \<and>
    nonce = (case cfg_key (client_config demo_url demo_url []) of Some k \<Rightarrow> k | None \<Rightarrow> random) \<and>
    hdr_Get h ''Sec-WebSocket-Accept'' = getNonceAccept rev nonce \<and>
    ToLower (hdr_Get h ''Upgrade'') = ''websocket'' \<and> ToLower (hdr_Get h ''Connection'') = ''upgrade'' \<and>
    hdr_Get h ''Sec-WebSocket-Extensions'' = [] \<and>
    (let offered = hdr_Get h ''Sec-WebSocket-Protocol''
     in if offered = [] then client_config demo_url demo_url [] = client_config demo_url demo_url []
        else offered \<in> set (cfg_Protocol (client_config demo_url demo_url [])) \<and>
          client_config demo_url demo_url [] = (client_config demo_url demo_url [])\<lparr>cfg_Protocol := [offered]\<rparr>)"
proof -
  let ?answer = "bytes_of (response_text empty_config (getNonceAccept rev (base64 StdEncoding [1])))"
  let ?c = "client_config demo_url demo_url []"
  have "ReadResponse (input_of ?answer) = (RVal (101, ''101 Switching Protocols'',
      header_of (lines_of_response (getNonceAccept rev (base64 StdEncoding [1])) [])), (input_of ?answer)\<lparr>rd_in := []\<rparr>)"
    by (rule ReadResponse_text) (simp_all add: input_of_def getNonceAccept_def text_ok_base64 empty_config_def)
  moreover have "check_response rev (base64 StdEncoding [1]) (101, ''101 Switching Protocols'',
      header_of (lines_of_response (getNonceAccept rev (base64 StdEncoding [1])) [])) ?c = (None, ?c)"
    by (rule client_checks) simp_all
  ultimately have "\<exists>w'. hybiClientHandshake rev (Some [1]) ?c (input_of ?answer) no_bytes = Ret ((None, ?c), input_of [], w')"
    by (simp add: input_of_def hybiClientHandshake_def generateNonce_def client_config_def
        ProtocolVersionHybi13_def WriteString_def bw_Flush_def bw_Write_def no_bytes_def)
  then obtain w' where "hybiClientHandshake rev (Some [1]) ?c (input_of ?answer) no_bytes = Ret ((None, ?c), input_of [], w')"
    by blast
  from client_accepts_only [OF this] show ?thesis .
qed

lemma Split_not_Nil [simp]: "Split c s \<noteq> []"
  by (cases s) (auto split: list.split)

lemma Split_many: "Suc 0 < length (Split c s) \<longleftrightarrow> c \<in> set s"
proof (induction s)
  case (Cons x s)
  then show ?case using Split_not_Nil [of c s] by (cases "Split c s") auto
qed simp

text \<open>
  C30: The server's Handler is called for exactly the requests the protocol allows: a GET with
  the upgrade headers, a key, version 13, a location that parses, an Origin that parses and is
  not null, and at most one subprotocol; any other request is answered and closed.
\<close>

theorem server_opens_iff:
  "(\<exists>conn w. Handler_ServeHTTP sha1 parse (Inr (r, no_bytes)) rand req = Ret (Some conn, w)) \<longleftrightarrow>
    req_Method req = ''GET'' \<and> ToLower (hdr_Get (req_Header req) ''Upgrade'') = ''websocket'' \<and>
    Contains (ToLower (hdr_Get (req_Header req) ''Connection'')) ''upgrade'' \<and>
    hdr_Get (req_Header req) ''Sec-Websocket-Key'' \<noteq> [] \<and>
    hdr_Get (req_Header req) ''Sec-Websocket-Version'' = ''13'' \<and>
    (\<exists>l. parse ((if req_TLS req then ''wss'' else ''ws'') @ ''://'' @ req_Host req @ url_RequestURI (req_URL req)) = Inr l) \<and>
    hdr_Get (req_Header req) ''Origin'' \<noteq> ''null'' \<and>
    (\<exists>u. parse (hdr_Get (req_Header req) ''Origin'') = Inr u) \<and>
    CHR '','' \<notin> set (TrimSpace (hdr_Get (req_Header req) ''Sec-Websocket-Protocol''))"
  by (auto simp: Handler_ServeHTTP_def serveWebSocket_def newServerConn_def ReadHandshake_def checkOrigin_def
      Origin_def AcceptHandshake_def empty_config_def Let_def Split_many WriteString_def flush_no_bytes
      ProtocolVersionHybi13_def split: option.splits sum.splits if_splits prod.splits)

text \<open>
  Serving a request panics only when the connection cannot be hijacked: newServerConn
  never returns neither a connection nor an error.
\<close>

theorem serve_panics_iff:
  "is_panic (serveWebSocket sha1 parse handshake hijack rand req c) \<longleftrightarrow> (\<exists>e. hijack = Inl e)"
  by (auto simp: serveWebSocket_def newServerConn_def split: option.splits sum.splits prod.splits)

end
