(* ===== verification/Gp_Counter.thy ===== *)
theory Gp_Counter
  imports Ws_Io
begin

text \<open>
  goproxy/counterecryptor.go: a block cipher in counter mode as a source of random bytes. The
  cipher and the digest of the empty text are parameters. Reads of any sizes give the same
  stream of bytes.
\<close>

section \<open>The generator\<close>

record counter_rand =
  cr_counter :: bytes
  cr_rand :: bytes
  cr_ix :: nat

definition aes_BlockSize :: nat where "aes_BlockSize = 16"

text \<open>h.Sum(b) appends the digest of what was written to h (here nothing) to b.\<close>

definition hash_Sum :: "bytes \<Rightarrow> bytes \<Rightarrow> bytes" where
  "hash_Sum digest b = b @ digest"

datatype private_key = RsaKey bytes | OtherKey

text \<open>The key of the cipher and the generator; the bytes of an RSA key are its PKCS1 form.\<close>

definition NewCounterEncryptorRandFromKey :: "bytes \<Rightarrow> private_key \<Rightarrow> bytes option
    \<Rightarrow> werror + (bytes \<times> counter_rand)" where
  "NewCounterEncryptorRandFromKey digest key seed =
     (case key of
        OtherKey \<Rightarrow> Inl (OtherError ''only RSA keys supported'')
      | RsaKey keyBytes \<Rightarrow>
          Inr (take aes_BlockSize (hash_Sum digest keyBytes),
            \<lparr>cr_counter = (case seed of None \<Rightarrow> replicate aes_BlockSize 0
                | Some s \<Rightarrow> take aes_BlockSize (hash_Sum digest s)),
             cr_rand = replicate aes_BlockSize 0, cr_ix = aes_BlockSize\<rparr>))"

definition Seed :: "bytes \<Rightarrow> counter_rand \<Rightarrow> counter_rand option" where
  "Seed b c = (if length b \<noteq> length (cr_counter c) then None else Some (c\<lparr>cr_counter := b\<rparr>))"

text \<open>The loop over the counter: the first byte that does not wrap to 0 ends it.\<close>

fun incr :: "bytes \<Rightarrow> bytes" where
  "incr [] = []"
| "incr (b # bs) = (b + 1) # (if b + 1 \<noteq> 0 then bs else incr bs)"

definition refill :: "(bytes \<Rightarrow> bytes) \<Rightarrow> counter_rand \<Rightarrow> counter_rand" where
  "refill enc c = c\<lparr>cr_rand := enc (cr_counter c), cr_counter := incr (cr_counter c), cr_ix := 0\<rparr>"

definition counter_Read :: "(bytes \<Rightarrow> bytes) \<Rightarrow> nat \<Rightarrow> counter_rand \<Rightarrow> bytes \<times> counter_rand" where
  "counter_Read enc n c0 =
     (let c = (if cr_ix c0 = length (cr_rand c0) then refill enc c0 else c0);
          k = min (length (cr_rand c) - cr_ix c) n
      in (take k (drop (cr_ix c) (cr_rand c)), c\<lparr>cr_ix := cr_ix c + k\<rparr>))"

section \<open>The counter\<close>

fun le_value :: "bytes \<Rightarrow> nat" where
  "le_value [] = 0"
| "le_value (b # bs) = unat b + 256 * le_value bs"

lemma length_incr [simp]: "length (incr bs) = length bs"
  by (induction bs) auto

lemma le_value_bound: "le_value bs < 256 ^ length bs"
proof (induction bs)
  case (Cons b bs)
  have "unat b < 256" using unat_lt_pow [of b] by simp
  with Cons show ?case by simp
qed simp

lemma unat_byte_Suc: "b + 1 \<noteq> (0 :: byte) \<Longrightarrow> unat (b + 1) = unat b + 1"
  by (metis add.commute unatSuc plus_1_eq_Suc)

lemma byte_wrap: "b + 1 = (0 :: byte) \<Longrightarrow> unat b = 255"
proof -
  assume "b + 1 = 0"
  then have "b = -1" by (simp add: eq_neg_iff_add_eq_0)
  then show ?thesis by (simp add: unsigned_minus_1_eq_mask mask_eq_exp_minus_1)
qed

text \<open>
  The counter of the generator steps through all its values: as a little-endian number it
  is increased by one modulo 256 to its length, with every carry, so it repeats only after
  256 to the block size steps.
\<close>

theorem counter_increments:
  "le_value (incr bs) = (le_value bs + 1) mod 256 ^ length bs \<and> length (incr bs) = length bs"
proof (induction bs)
  case (Cons b bs)
  show ?case
  proof (cases "b + 1 = 0")
    case True
    then have s: "le_value (b # bs) + 1 = 256 * (le_value bs + 1)" using byte_wrap by simp
    have "le_value (incr (b # bs)) = 256 * ((le_value bs + 1) mod 256 ^ length bs)" using True Cons by simp
    also have "\<dots> = (le_value (b # bs) + 1) mod (256 * 256 ^ length bs)"
      unfolding s by (rule mult_mod_right)
    finally show ?thesis by simp
  next
    case False
    moreover have "unat b + 256 * le_value bs + 1 < 256 * 256 ^ length bs"
      using le_value_bound [of "(b + 1) # bs"] unat_byte_Suc [OF False] by simp
    ultimately show ?thesis using unat_byte_Suc [OF False] by simp
  qed
qed simp

section \<open>The stream\<close>

text \<open>The blocks the cipher yields from a counter on.\<close>

fun keystream :: "(bytes \<Rightarrow> bytes) \<Rightarrow> nat \<Rightarrow> bytes \<Rightarrow> bytes" where
  "keystream enc 0 c = []"
| "keystream enc (Suc k) c = enc c @ keystream enc k (incr c)"

fun counter_Reads :: "(bytes \<Rightarrow> bytes) \<Rightarrow> nat list \<Rightarrow> counter_rand \<Rightarrow> bytes" where
  "counter_Reads enc [] c = []"
| "counter_Reads enc (n # ns) c = (case counter_Read enc n c of (b, c) \<Rightarrow> b @ counter_Reads enc ns c)"

text \<open>What the generator still has to give: the rest of its block, then the stream.\<close>

definition pending :: "(bytes \<Rightarrow> bytes) \<Rightarrow> nat \<Rightarrow> counter_rand \<Rightarrow> bytes" where
  "pending enc k c = drop (cr_ix c) (cr_rand c) @ keystream enc k (cr_counter c)"

lemma counter_Read_pending:
  assumes "counter_Read enc n c = (b, c')" and "cr_ix c \<le> length (cr_rand c)"
  shows "pending enc (Suc k) c = b @ pending enc (if cr_ix c = length (cr_rand c) then k else Suc k) c' \<and>
    cr_ix c' \<le> length (cr_rand c')"
proof -
  have d: "take m xs @ drop (i + m) ys = xs" if "xs = drop i ys" for m i and xs ys :: bytes
    using that by (metis add.commute append_take_drop_id drop_drop)
  show ?thesis
  proof (cases "cr_ix c = length (cr_rand c)")
    case True
    with assms show ?thesis
      by (auto simp: counter_Read_def refill_def Let_def pending_def d [of _ 0, simplified])
  next
    case False
    with assms d [OF refl, of _ "cr_ix c" "cr_rand c"] show ?thesis
      by (auto simp: counter_Read_def Let_def pending_def append.assoc [symmetric] simp del: append_assoc)
  qed
qed

lemma keystream_prefix: "k \<le> m \<Longrightarrow> \<exists>r. keystream enc m c = keystream enc k c @ r"
proof (induction k arbitrary: m c)
  case (Suc k)
  then obtain m' where "m = Suc m'" "k \<le> m'" by (cases m) auto
  with Suc.IH [of m' "incr c"] show ?case by auto
qed simp

lemma counter_Reads_pending:
  "cr_ix c \<le> length (cr_rand c) \<Longrightarrow> \<exists>r. pending enc (length ns) c = counter_Reads enc ns c @ r"
proof (induction ns arbitrary: c)
  case (Cons n ns)
  obtain b c' where r: "counter_Read enc n c = (b, c')" by fastforce
  let ?k = "if cr_ix c = length (cr_rand c) then length ns else Suc (length ns)"
  have p: "pending enc (length (n # ns)) c = b @ pending enc ?k c'" "cr_ix c' \<le> length (cr_rand c')"
    using counter_Read_pending [OF r Cons.prems, of "length ns"] by auto
  have "length ns \<le> ?k" by simp
  from keystream_prefix [OF this] obtain s
    where s: "keystream enc ?k (cr_counter c') = keystream enc (length ns) (cr_counter c') @ s" by blast
  obtain q where "pending enc (length ns) c' = counter_Reads enc ns c' @ q" using Cons.IH [OF p(2)] by blast
  then have "pending enc ?k c' = counter_Reads enc ns c' @ q @ s" by (simp add: pending_def s)
  with p(1) r show ?case by auto
qed simp


definition demo_rand :: counter_rand where
  "demo_rand = \<lparr>cr_counter = replicate 16 0, cr_rand = replicate 16 0, cr_ix = 16\<rparr>"


text \<open>
  The cipher is keyed with the first 16 bytes of the private key's encoding itself, not
  with its SHA-256 digest: Sum appends the digest of nothing to its argument. Two keys whose
  encodings start alike give the same stream.
\<close>

theorem cipher_key_is_key_prefix:
  assumes "16 \<le> length keyBytes" and "take 16 keyBytes = take 16 keyBytes'" and "16 \<le> length keyBytes'"
  shows "NewCounterEncryptorRandFromKey digest (RsaKey keyBytes) seed = NewCounterEncryptorRandFromKey digest (RsaKey keyBytes') seed"
  using assms by (simp add: NewCounterEncryptorRandFromKey_def hash_Sum_def aes_BlockSize_def)

theorem cipher_key_is_key_prefix_witness:
  "NewCounterEncryptorRandFromKey [9] (RsaKey (replicate 16 1)) None = NewCounterEncryptorRandFromKey [9] (RsaKey (replicate 16 1 @ [2])) None"
  using cipher_key_is_key_prefix [of "replicate 16 1" "replicate 16 1 @ [2]" "[9]" None] by simp

end
