(* ===== verification/Gp_Signer.thy ===== *)
theory Gp_Signer
  imports Gp_Counter Go_Text "HOL-Library.Multiset"
begin

text \<open>
  goproxy/signer.go: the certificate made for an intercepted host. The hash, the parsing and
  making of certificates (crypto/x509), key generation and net.ParseIP are parameters.
\<close>

section \<open>The serial number\<close>

definition hashSorted :: "(bytes \<Rightarrow> bytes) \<Rightarrow> string list \<Rightarrow> bytes" where
  "hashSorted sha1 lst = sha1 (concat (map (\<lambda>s. bytes_of (s @ '','')) (sort lst)))"

text \<open>big.Int.SetBytes: big endian.\<close>

definition SetBytes :: "bytes \<Rightarrow> nat" where
  "SetBytes bs = foldl (\<lambda>n b. n * 256 + unat b) 0 bs"

definition hashSortedBigInt :: "(bytes \<Rightarrow> bytes) \<Rightarrow> string list \<Rightarrow> nat" where
  "hashSortedBigInt sha1 lst = SetBytes (hashSorted sha1 lst)"

section \<open>The certificate\<close>

record certificate =
  ce_chain :: "bytes list"
  ce_key :: private_key

record cert_template =
  ct_serial :: nat
  ct_issuer :: string
  ct_ips :: "string list"
  ct_dns :: "string list"

definition goproxySignerVersion :: string where "goproxySignerVersion = '':goroxy1''"

text \<open>
  \<open>subject\<close> parses a certificate and gives its subject, \<open>gen_key\<close> and \<open>make\<close> consume the random
  bytes of the generator; \<open>make\<close> gets the template, the issuer's name, the new key and the key
  that signs.
\<close>

definition cert_for :: "nat \<Rightarrow> string \<Rightarrow> (string \<Rightarrow> bool) \<Rightarrow> string list \<Rightarrow> cert_template" where
  "cert_for serial issuer is_ip hosts =
     \<lparr>ct_serial = serial, ct_issuer = issuer, ct_ips = filter is_ip hosts, ct_dns = filter (\<lambda>h. \<not> is_ip h) hosts\<rparr>"

definition signHost :: "(bytes \<Rightarrow> bytes) \<Rightarrow> bytes \<Rightarrow> string \<Rightarrow> (bytes \<Rightarrow> werror + string) \<Rightarrow> (string \<Rightarrow> bool)
    \<Rightarrow> (bytes \<times> counter_rand \<Rightarrow> werror + (private_key \<times> counter_rand))
    \<Rightarrow> (cert_template \<Rightarrow> private_key \<Rightarrow> private_key \<Rightarrow> bytes \<times> counter_rand \<Rightarrow> werror + bytes)
    \<Rightarrow> certificate \<Rightarrow> certificate \<Rightarrow> string list \<Rightarrow> (werror + certificate) outcome" where
  "signHost sha1 digest version subject is_ip gen_key make_cert GoproxyCa ca hosts =
     (case ce_chain GoproxyCa of
        [] \<Rightarrow> Panic ''index out of range''
      | root # _ \<Rightarrow>
          (case subject root of
             Inl e \<Rightarrow> Ret (Inl e)
           | Inr issuer \<Rightarrow>
               let hash = hashSorted sha1 (hosts @ [goproxySignerVersion, '':'' @ version]);
                   template = cert_for (SetBytes hash) issuer is_ip hosts
               in (case NewCounterEncryptorRandFromKey digest (ce_key ca) (Some hash) of
                     Inl e \<Rightarrow> Ret (Inl e)
                   | Inr (k, csprng) \<Rightarrow>
                       (case gen_key (k, csprng) of
                          Inl e \<Rightarrow> Ret (Inl e)
                        | Inr (certpriv, csprng) \<Rightarrow>
                            (case make_cert template certpriv (ce_key ca) (k, csprng) of
                               Inl e \<Rightarrow> Ret (Inl e)
                             | Inr der \<Rightarrow>
                                 (case ce_chain ca of
                                    [] \<Rightarrow> Panic ''index out of range''
                                  | c # _ \<Rightarrow> Ret (Inr \<lparr>ce_chain = [der, c], ce_key = certpriv\<rparr>)))))))"

section \<open>Properties\<close>

lemma SetBytes_less: "SetBytes bs < 256 ^ length bs"
proof (induction bs rule: rev_induct)
  case (snoc b bs)
  have "unat b < 256" by (rule unat_byte)
  moreover have "SetBytes bs * 256 + 256 \<le> 256 ^ length bs * 256" using snoc by simp
  ultimately show ?case by (simp add: SetBytes_def)
qed (simp add: SetBytes_def)

text \<open>
  The serial number of a certificate depends on the set of hosts with multiplicities and
  not on their order: lists with the same elements have the same hash, whatever the hash
  function is.
\<close>

theorem hashSorted_order:
  assumes "mset xs = mset ys"
  shows "hashSorted sha1 xs = hashSorted sha1 ys \<and> hashSortedBigInt sha1 xs = hashSortedBigInt sha1 ys"
proof -
  have "sort xs = sort ys"
    by (rule properties_for_sort) (use assms in simp_all)
  then show ?thesis by (simp add: hashSorted_def hashSortedBigInt_def)
qed

theorem hashSorted_order_witness:
  "hashSorted rev [''b'', ''a''] = hashSorted rev [''a'', ''b''] \<and>
    hashSortedBigInt rev [''b'', ''a''] = hashSortedBigInt rev [''a'', ''b'']"
  by (rule hashSorted_order) simp

text \<open>
  The hash does not separate all host lists: the comma that ends each name may also be
  inside a name, so one name with a comma has the hash of two names (given in order).
\<close>

theorem hashSorted_comma_collision:
  assumes "a \<le> b"
  shows "hashSorted sha1 [a @ '','' @ b] = hashSorted sha1 [a, b]"
  using assms by (simp add: hashSorted_def bytes_of_def)

theorem hashSorted_comma_collision_witness:
  "hashSorted rev [''a,b''] = hashSorted rev [''a'', ''b'']"
  using hashSorted_comma_collision [of "''a''" "''b''" rev] by (simp add: list_less_def less_char_def lexord_def)

text \<open>
  A certificate signed for an intercepted host names the built-in authority as its issuer
  even when another authority signs it: the template that goes into the signature is the same
  for every authority passed in, with the built-in one's subject, while the chain carries the
  certificate of the authority passed in.
\<close>

theorem signHost_ignores_ca_subject:
  assumes "signHost sha1 digest version subject is_ip gen_key make_cert GoproxyCa ca hosts = Ret (Inr cert)"
  shows "\<exists>issuer template certpriv r der. subject (hd (ce_chain GoproxyCa)) = Inr issuer \<and>
    template = cert_for (SetBytes (hashSorted sha1 (hosts @ [goproxySignerVersion, '':'' @ version]))) issuer is_ip hosts \<and>
    make_cert template certpriv (ce_key ca) r = Inr der \<and> cert = \<lparr>ce_chain = [der, hd (ce_chain ca)], ce_key = certpriv\<rparr>"
  using assms by (auto simp: signHost_def Let_def split: sum.splits prod.splits list.splits)

theorem signHost_ignores_ca_subject_witness:
  "\<exists>issuer template certpriv r der. Inr ''builtin'' = (Inr issuer :: werror + string) \<and>
    template = cert_for (SetBytes (hashSorted rev ([''h''] @ [goproxySignerVersion, '':'' @ ''go'']))) issuer (\<lambda>h. False) [''h''] \<and>
    (Inr [7] :: werror + bytes) = Inr der \<and> \<lparr>ce_chain = [[7], [2]], ce_key = OtherKey\<rparr> = \<lparr>ce_chain = [der, [2]], ce_key = certpriv\<rparr> \<and> r = ()"
proof -
  have "signHost rev [] ''go'' (\<lambda>c. if c = [1] then Inr ''builtin'' else Inr ''other'') (\<lambda>h. False) (\<lambda>(k, c). Inr (OtherKey, c))
      (\<lambda>t k1 k2 r. Inr [7]) \<lparr>ce_chain = [[1]], ce_key = OtherKey\<rparr> \<lparr>ce_chain = [[2]], ce_key = RsaKey []\<rparr> [''h''] =
    Ret (Inr \<lparr>ce_chain = [[7], [2]], ce_key = OtherKey\<rparr>)"
    by (simp add: signHost_def Let_def NewCounterEncryptorRandFromKey_def)
  from signHost_ignores_ca_subject [OF this] show ?thesis by simp
qed

end
