(* ===== verification/Gp_Mitm.thy ===== *)
theory Gp_Mitm
  imports Gp_Https Gp_Signer
begin

text \<open>
  The interception of a TLS connection in goproxy/https.go as a whole: the authority and the
  TLS configuration that a CONNECT action asks for, the certificate signed for the host, and
  the loop of exchanges on the connection. The TLS handshake is a parameter; of a TLS
  configuration only its certificates matter here.
\<close>

section \<open>The certificates to present\<close>

text \<open>
  The host is the one of the CONNECT request without its port, as the interception gets it
  (\<open>TlsMitm (stripPort host)\<close> of Gp_Https); \<open>cas\<close> and \<open>configs\<close> are what the action's pointers
  point to.
\<close>

definition mitm_config :: "(certificate \<Rightarrow> string list \<Rightarrow> (werror + certificate) outcome) \<Rightarrow> (nat \<Rightarrow> certificate) \<Rightarrow> certificate
    \<Rightarrow> (nat \<Rightarrow> certificate list) \<Rightarrow> certificate list \<Rightarrow> connect_action \<Rightarrow> string
    \<Rightarrow> (werror + certificate list) outcome" where
  "mitm_config sign cas GoproxyCa configs defaultTlsConfig todo host =
     (let ca = (case ca_Ca todo of None \<Rightarrow> GoproxyCa | Some a \<Rightarrow> cas a) in
      case sign ca [host] of
        Panic m \<Rightarrow> Panic m
      | Block \<Rightarrow> Block
      | Ret (Inl e) \<Rightarrow> Ret (Inl e)
      | Ret (Inr cert) \<Rightarrow>
          Ret (Inr ((case ca_TlsConfig todo of Some a \<Rightarrow> configs a | None \<Rightarrow> defaultTlsConfig) @ [cert])))"

section \<open>The interception\<close>

text \<open>
  A failing signature or handshake ends it with the client's connection as it is: the deferred
  Close is only registered after the handshake.
\<close>

definition mitm_serve :: "(certificate \<Rightarrow> string list \<Rightarrow> (werror + certificate) outcome) \<Rightarrow> (nat \<Rightarrow> certificate) \<Rightarrow> certificate
    \<Rightarrow> (nat \<Rightarrow> certificate list) \<Rightarrow> certificate list \<Rightarrow> (certificate list \<Rightarrow> werror option)
    \<Rightarrow> (string \<Rightarrow> werror + url)
    \<Rightarrow> ('r \<Rightarrow> nat \<Rightarrow> ('r, 'u) pctx \<Rightarrow> (werror + nat) \<times> ('r, 'u) pctx)
    \<Rightarrow> (nat \<Rightarrow> ('r, 'u) pctx \<Rightarrow> (werror + nat) \<times> ('r, 'u) pctx)
    \<Rightarrow> ('r, 'u) proxy \<Rightarrow> string \<Rightarrow> connect_action \<Rightarrow> string \<Rightarrow> (werror + http_request) list \<Rightarrow> nat
    \<Rightarrow> conn \<Rightarrow> ('r, 'u) pctx \<Rightarrow> (conn \<times> ('r, 'u) pctx) outcome" where
  "mitm_serve sign cas GoproxyCa configs defaultTlsConfig handshake parse call tr p r_host todo host rs q c ctx =
     (case mitm_config sign cas GoproxyCa configs defaultTlsConfig todo host of
        Panic m \<Rightarrow> Panic m
      | Block \<Rightarrow> Block
      | Ret (Inl e) \<Rightarrow> Ret (c, ctx)
      | Ret (Inr certs) \<Rightarrow>
          (case handshake certs of
             Some e \<Rightarrow> Ret (c, ctx)
           | None \<Rightarrow> mitm_loop parse call tr p r_host rs q c ctx))"

section \<open>Properties\<close>

text \<open>
  What TLS is given to present to an intercepted client: the certificates of the configuration
  and, last, one made for exactly the host of the CONNECT request (as an IP address or as a DNS name),
  whose chain ends with the certificate of the authority the action asks for, the built-in one
  by default.
\<close>

theorem mitm_presents_host:
  assumes "mitm_config (signHost sha1 digest version subject is_ip gen_key make_cert GoproxyCa) cas GoproxyCa configs
      defaultTlsConfig todo host = Ret (Inr certs)"
  shows "\<exists>cert template der certpriv r.
    last certs = cert \<and> ce_chain cert = [der, hd (ce_chain (case ca_Ca todo of None \<Rightarrow> GoproxyCa | Some a \<Rightarrow> cas a))] \<and>
    ce_key cert = certpriv \<and>
    make_cert template certpriv (ce_key (case ca_Ca todo of None \<Rightarrow> GoproxyCa | Some a \<Rightarrow> cas a)) r = Inr der \<and>
    (if is_ip host then ct_ips template = [host] \<and> ct_dns template = []
     else ct_ips template = [] \<and> ct_dns template = [host])"
proof -
  let ?ca = "case ca_Ca todo of None \<Rightarrow> GoproxyCa | Some a \<Rightarrow> cas a"
  obtain cert where c: "signHost sha1 digest version subject is_ip gen_key make_cert GoproxyCa ?ca [host] = Ret (Inr cert)"
    "last certs = cert"
    using assms by (auto simp: mitm_config_def Let_def split: outcome.splits sum.splits)
  from signHost_ignores_ca_subject [OF c(1)] obtain issuer template certpriv r der where
    "template = cert_for (SetBytes (hashSorted sha1 ([host] @ [goproxySignerVersion, '':'' @ version]))) issuer is_ip [host]"
    "make_cert template certpriv (ce_key ?ca) r = Inr der" "cert = \<lparr>ce_chain = [der, hd (ce_chain ?ca)], ce_key = certpriv\<rparr>"
    by blast
  with c(2) show ?thesis 
    by - (rule exI [of _ cert], rule exI [of _ template], rule exI [of _ der], rule exI [of _ certpriv],
      rule exI [of _ r], simp add: cert_for_def)
qed

text \<open>
  A client whose TLS handshake fails, or for whom no certificate could be signed, is not
  closed: the interception ends with its connection open.
\<close>

theorem failed_interception_leaks:
  assumes "\<not> cn_closed c"
    and "case mitm_config sign cas GoproxyCa configs defaultTlsConfig todo host of
        Ret (Inl e) \<Rightarrow> True | Ret (Inr certs) \<Rightarrow> handshake certs \<noteq> None | _ \<Rightarrow> False"
  shows "\<exists>c'. mitm_serve sign cas GoproxyCa configs defaultTlsConfig handshake parse call tr p r_host todo host rs q c ctx =
    Ret (c', ctx) \<and> \<not> cn_closed c'"
  using assms by (auto simp: mitm_serve_def split: outcome.splits sum.splits option.splits)

theorem mitm_presents_host_witness:
  "\<exists>cert (template :: cert_template) der certpriv.
    last [\<lparr>ce_chain = [[7], [1]], ce_key = OtherKey\<rparr>] = cert \<and> ce_chain cert = [der, [1]] \<and> ce_key cert = certpriv \<and>
    (if ct_dns template = [''h''] then Inr [7] else Inr [8 :: byte] :: werror + bytes) = Inr der \<and>
    ct_ips template = [] \<and> ct_dns template = [''h'']"
proof -
  let ?root = "\<lparr>ce_chain = [[1]], ce_key = RsaKey []\<rparr>"
  have "mitm_config (signHost rev [] ''go'' (\<lambda>c. Inr ''builtin'') (\<lambda>h. False) (\<lambda>(k, c). Inr (OtherKey, c))
      (\<lambda>t k1 k2 r. if ct_dns t = [''h''] then Inr [7] else Inr [8]) ?root) (\<lambda>a. ?root) ?root (\<lambda>a. []) [] MitmConnect ''h'' =
    Ret (Inr [\<lparr>ce_chain = [[7], [1]], ce_key = OtherKey\<rparr>])"
    by (simp add: mitm_config_def signHost_def Let_def NewCounterEncryptorRandFromKey_def MitmConnect_def action_only_def cert_for_def)
  from mitm_presents_host [OF this] show ?thesis by (auto simp: MitmConnect_def action_only_def)
qed

theorem failed_interception_leaks_witness:
  "\<exists>c'. mitm_serve (\<lambda>ca hs. Ret (Inr ca)) (\<lambda>a. \<lparr>ce_chain = [], ce_key = OtherKey\<rparr>) \<lparr>ce_chain = [], ce_key = OtherKey\<rparr>
      (\<lambda>a. []) [] (\<lambda>certs. Some io_EOF) (\<lambda>s. Inl io_EOF) (\<lambda>r q ctx. (Inl io_EOF, ctx)) (\<lambda>q ctx. (Inl io_EOF, ctx))
      demo_proxy ''a:443'' MitmConnect ''a'' [] 0 new_conn (demo_ctx (demo_request ''a'' [] [])) =
    Ret (c', demo_ctx (demo_request ''a'' [] [])) \<and> \<not> cn_closed c'"
  by (rule failed_interception_leaks) (simp_all add: new_conn_def mitm_config_def MitmConnect_def action_only_def)

text \<open>An interception that starts, in contrast, ends with the client closed, or panics.\<close>

lemma mitm_loop_closes:
  "mitm_loop parse call tr p host rs q c ctx = Ret (c', ctx') \<Longrightarrow> cn_closed c'"
proof (induction rs arbitrary: q c ctx)
  case (Cons r rs)
  then show ?case
    by (cases r) (auto simp: conn_Close_def split: outcome.splits prod.splits option.splits)
qed (auto simp: conn_Close_def)

section \<open>Reading the requests\<close>

text \<open>
  http.ReadRequest on a bufio.Reader that holds \<open>buf\<close>: \<open>parse\<close> gives the request at the front
  of the bytes, with its body, and what follows it, an error, or None when it needs more, which
  is read from the network; the last argument is what its reads give, each at most a buffer.
  That a body is read before the next turn is what writing the request does.
\<close>

fun next_request :: "(bytes \<Rightarrow> (werror + http_request \<times> bytes) option) \<Rightarrow> bytes \<Rightarrow> bytes list
    \<Rightarrow> (werror + http_request) \<times> bytes \<times> bytes list" where
  "next_request parse buf cs =
     (case parse buf of
        Some (Inr (req, rest)) \<Rightarrow> (Inr req, rest, cs)
      | Some (Inl e) \<Rightarrow> (Inl e, buf, cs)
      | None \<Rightarrow>
          (case cs of
             [] \<Rightarrow> (Inl (if buf = [] then io_EOF else io_ErrUnexpectedEOF), buf, [])
           | c # cs \<Rightarrow> next_request parse (buf @ c) cs))"

declare next_request.simps [simp del]

text \<open>
  The requests of the first k turns of the two loops: the TLS interception keeps one reader
  and looks for the end of the input before each turn; the plain one makes a new reader in
  every turn, and what the old one still holds is gone.
\<close>

fun mitm_requests :: "nat \<Rightarrow> (bytes \<Rightarrow> (werror + http_request \<times> bytes) option) \<Rightarrow> bytes \<Rightarrow> bytes list \<Rightarrow> (werror + http_request) list" where
  "mitm_requests 0 parse buf cs = []"
| "mitm_requests (Suc k) parse buf cs =
     (if buf @ concat cs = [] then []
      else (case next_request parse buf cs of
              (Inr req, buf, cs) \<Rightarrow> Inr req # mitm_requests k parse buf cs
            | (Inl e, _, _) \<Rightarrow> [Inl e]))"

fun plain_requests :: "nat \<Rightarrow> (bytes \<Rightarrow> (werror + http_request \<times> bytes) option) \<Rightarrow> bytes list \<Rightarrow> (werror + http_request) list" where
  "plain_requests 0 parse cs = []"
| "plain_requests (Suc k) parse cs =
     (case next_request parse [] cs of
        (Inr req, _, cs) \<Rightarrow> Inr req # plain_requests k parse cs
      | (Inl e, _, _) \<Rightarrow> [Inl e])"

text \<open>The pieces in which the network delivers do not matter to a reader that is kept.\<close>

definition stable_parser :: "(bytes \<Rightarrow> (werror + http_request \<times> bytes) option) \<Rightarrow> bool" where
  "stable_parser parse \<longleftrightarrow> parse [] = None \<and>
     (\<forall>b req rest c. parse b = Some (Inr (req, rest)) \<longrightarrow> parse (b @ c) = Some (Inr (req, rest @ c))) \<and>
     (\<forall>b e c. parse b = Some (Inl e) \<longrightarrow> parse (b @ c) = Some (Inl e))"

lemma next_request_joined:
  assumes p: "stable_parser parse"
  shows "next_request parse (buf @ concat cs) [] =
    (case next_request parse buf cs of (Inr req, buf, cs) \<Rightarrow> (Inr req, buf @ concat cs, []) | (Inl e, buf, cs) \<Rightarrow> (Inl e, buf @ concat cs, []))"
proof (induction cs arbitrary: buf)
  case Nil
  then show ?case by (simp add: next_request.simps split: option.split sum.split prod.split)
next
  case (Cons c cs)
  show ?case
  proof (cases "parse buf")
    case None
    then have "next_request parse buf (c # cs) = next_request parse (buf @ c) cs" by (simp add: next_request.simps [of parse buf])
    with Cons.IH [of "buf @ c"] show ?thesis by simp
  next
    case (Some x)
    with p show ?thesis
      by (cases x) (auto simp: stable_parser_def next_request.simps [of parse "buf @ c @ concat cs"] next_request.simps [of parse buf])
  qed
qed

lemma mitm_requests_joined:
  assumes p: "stable_parser parse"
  shows "mitm_requests k parse buf cs = mitm_requests k parse (buf @ concat cs) []"
proof (induction k arbitrary: buf cs)
  case (Suc k)
  obtain x b cs' where x: "next_request parse buf cs = (x, b, cs')" by (metis prod_cases3)
  with next_request_joined [OF p, of buf cs] Suc.IH [of b cs'] show ?case by (cases x) auto
qed simp

text \<open>
  The requests that a TLS interception handles are determined by the bytes of the client. A
  plain one loses what arrives together with a request: where a read of the network gives a
  request with the bytes \<open>b\<close> behind it, say a pipelined second request, the next turn starts
  behind \<open>b\<close>.
\<close>

theorem pipelined_requests_lost:
  assumes p: "stable_parser parse" and a: "parse a = Some (Inr (req, b))"
  shows "mitm_requests (Suc k) parse [] (a # cs) = Inr req # mitm_requests k parse (b @ concat cs) [] \<and>
    plain_requests (Suc k) parse (a # cs) = Inr req # plain_requests k parse cs"
proof -
  have "parse [] = None" using p by (simp add: stable_parser_def)
  moreover from this have "a \<noteq> []" using a by auto
  ultimately show ?thesis using a mitm_requests_joined [OF p, of k b cs]
    by (simp add: next_request.simps [of parse "[]"] next_request.simps [of parse a])
qed

definition demo_parse :: "bytes \<Rightarrow> (werror + http_request \<times> bytes) option" where
  "demo_parse b = (case b of [] \<Rightarrow> None | x # b \<Rightarrow> Some (Inr (demo_request ''a'' ''/'' [], b)))"

theorem pipelined_requests_lost_witness:
  "mitm_requests 3 demo_parse [] [[1, 2], [3]] = [Inr (demo_request ''a'' ''/'' []), Inr (demo_request ''a'' ''/'' []), Inr (demo_request ''a'' ''/'' [])] \<and>
    plain_requests 3 demo_parse [[1, 2], [3]] = [Inr (demo_request ''a'' ''/'' []), Inr (demo_request ''a'' ''/'' []), Inl io_EOF]"
proof -
  have "stable_parser demo_parse" by (simp add: stable_parser_def demo_parse_def split: list.split)
  from pipelined_requests_lost [OF this, of "[1, 2]" "demo_request ''a'' ''/'' []" "[2]" 2 "[[3]]"] show ?thesis
    by (simp add: demo_parse_def numeral_3_eq_3 numeral_2_eq_2 next_request.simps)
qed

section \<open>The context of an interception\<close>

text \<open>
  The requests of an intercepted connection share the context of its CONNECT request, and
  nothing puts the inner request there. So a condition on requests that is given for responses
  is asked about the CONNECT request: where it is false of that, the handler is never run,
  whatever the client asks for.
\<close>

lemma mitm_exchange_outside:
  assumes p: "reqHandlers p = []" "respHandlers p = []" and q: "q \<noteq> ctx_Req ctx"
    and no: "\<forall>ctx'. reqs ctx' (ctx_Req ctx) = reqs ctx (ctx_Req ctx) \<longrightarrow> \<not> cond (ctx_Req ctx) ctx'"
    and net: "\<forall>q ctx. ctx_Req (snd (net q ctx)) = ctx_Req ctx \<and> reqs (snd (net q ctx)) = reqs ctx \<and>
      ctx_RoundTripper (snd (net q ctx)) = ctx_RoundTripper ctx"
    and rt: "ctx_RoundTripper ctx = None"
  shows "mitm_exchange parse call net (Do_response [OnReq cond] h p) host q c (set_req q req ctx) =
      mitm_exchange parse call net (Do_response [OnReq cond] h' p) host q c (set_req q req ctx)"
    and "mitm_exchange parse call net (Do_response [OnReq cond] h p) host q c (set_req q req ctx) = Ret (e, c', ctx') \<Longrightarrow>
      ctx_Req ctx' = ctx_Req ctx \<and> reqs ctx' (ctx_Req ctx) = reqs ctx (ctx_Req ctx) \<and> ctx_RoundTripper ctx' = None"
proof -
  let ?like = "\<lambda>ctx'. ctx_Req ctx' = ctx_Req ctx \<and> reqs ctx' (ctx_Req ctx) = reqs ctx (ctx_Req ctx) \<and> ctx_RoundTripper ctx' = None"
  have answer: "mitm_answer (Do_response [OnReq cond] g p) x c ctx' =
      (case mitm_respond (resps ctx' x) c of (e, c) \<Rightarrow>
        Ret (e, c, set_resp x ((resps ctx' x)\<lparr>resp_Header := mitm_header (resps ctx' x)\<rparr>) (ctx'\<lparr>ctx_Resp := Some x\<rparr>)))"
    if "?like ctx'" for g x ctx'
    using that no [rule_format, of "ctx'\<lparr>ctx_Resp := Some x\<rparr>"] p
    by (simp add: mitm_answer_def filterResponse_def Do_response_def cond_resp_handler_def)
  let ?ctx = "\<lambda>u. set_req q (req\<lparr>req_URL := u\<rparr>) (set_req q req ctx)"
  have like: "?like (removeProxyHeaders q (?ctx u))" for u
    using q rt by (simp add: removeProxyHeaders_def set_req_def Let_def)
  have trip: "?like ctx'" if "ctx_RoundTrip call net q (removeProxyHeaders q (?ctx u)) = (res, ctx')" for u res ctx'
    using that like [of u] net [rule_format, of q "removeProxyHeaders q (?ctx u)"] by (simp add: ctx_RoundTrip_def)
  have reqs_q: "reqs (set_req q req ctx) q = req" by (simp add: set_req_def)
  have none: "reqHandlers (Do_response [OnReq cond] g p) = []" for g using p by (simp add: Do_response_def)
  show "mitm_exchange parse call net (Do_response [OnReq cond] h p) host q c (set_req q req ctx) =
      mitm_exchange parse call net (Do_response [OnReq cond] h' p) host q c (set_req q req ctx)"
    using trip answer none reqs_q
    by (simp add: mitm_exchange_def Let_def filterRequest_def split: sum.split prod.split)
  show "?like ctx'" if "mitm_exchange parse call net (Do_response [OnReq cond] h p) host q c (set_req q req ctx) = Ret (e, c', ctx')"
    using that trip answer none reqs_q q rt
    by (auto simp: mitm_exchange_def Let_def filterRequest_def set_req_def set_resp_def split: sum.splits prod.splits if_splits)
qed

theorem mitm_conditions_see_connect:
  assumes "reqHandlers p = []" and "respHandlers p = []" and "ctx_Req ctx < q" and "ctx_RoundTripper ctx = None"
    and "\<forall>ctx'. reqs ctx' (ctx_Req ctx) = reqs ctx (ctx_Req ctx) \<longrightarrow> \<not> cond (ctx_Req ctx) ctx'"
    and net: "\<forall>q ctx. ctx_Req (snd (net q ctx)) = ctx_Req ctx \<and> reqs (snd (net q ctx)) = reqs ctx \<and>
      ctx_RoundTripper (snd (net q ctx)) = ctx_RoundTripper ctx"
  shows "mitm_loop parse call net (Do_response [OnReq cond] h p) host rs q c ctx =
    mitm_loop parse call net (Do_response [OnReq cond] h' p) host rs q c ctx"
  using assms(3-5)
proof (induction rs arbitrary: q c ctx)
  case (Cons r rs)
  show ?case
  proof (cases r)
    case (Inr req)
    have "q \<noteq> ctx_Req ctx" using Cons.prems(1) by simp
    note e = mitm_exchange_outside [where cond = cond and ctx = ctx and net = net and parse = parse and call = call
        and host = host and c = c and req = req and h = h, OF assms(1,2) this Cons.prems(3) net Cons.prems(2)]
    show ?thesis
    proof (cases "mitm_exchange parse call net (Do_response [OnReq cond] h p) host q c (set_req q req ctx)")
      case (Ret z)
      obtain x c' ctx' where z: "z = (x, c', ctx')" by (metis prod_cases3)
      have l: "ctx_Req ctx' = ctx_Req ctx" "reqs ctx' (ctx_Req ctx) = reqs ctx (ctx_Req ctx)" "ctx_RoundTripper ctx' = None"
        using e(2) [OF Ret [unfolded z]] by simp_all
      from Cons.IH [of ctx' "Suc q" c'] Cons.prems l Inr Ret z e(1) [of h'] show ?thesis
        by (simp split: option.split)
    qed (use Inr e(1) [of h'] in simp_all)
  qed simp
qed simp

theorem mitm_conditions_see_connect_witness:
  "mitm_loop (\<lambda>s. Inl io_EOF) (\<lambda>r q ctx. (Inl io_EOF, ctx)) (\<lambda>q ctx. (Inr 3, set_resp 3 (NewResponse 1 ''text/html'' 200 ''hi'') ctx))
      (Do_response [OnReq (UrlIs [''a/x''])] (\<lambda>resp ctx. (None, ctx)) demo_proxy) ''a:443'' [Inr (demo_request ''a'' ''/x'' [])] 1 new_conn
      (demo_ctx (demo_request ''a:443'' [] [])) =
    mitm_loop (\<lambda>s. Inl io_EOF) (\<lambda>r q ctx. (Inl io_EOF, ctx)) (\<lambda>q ctx. (Inr 3, set_resp 3 (NewResponse 1 ''text/html'' 200 ''hi'') ctx))
      (Do_response [OnReq (UrlIs [''a/x''])] (\<lambda>resp ctx. (resp, ctx)) demo_proxy) ''a:443'' [Inr (demo_request ''a'' ''/x'' [])] 1 new_conn
      (demo_ctx (demo_request ''a:443'' [] []))"
  by (rule mitm_conditions_see_connect)
    (auto simp: demo_proxy_def NewProxyHttpServer_def demo_ctx_def demo_request_def UrlIs_def set_resp_def)

end
