(* ===== verification/Tr_Address.thy ===== *)
theory Tr_Address
  imports Go_Http
begin

text \<open>
  goproxy/transport, addresses: ports, the choice of a proxy from the environment, and the
  connect method, whose text is the key under which connections are pooled. The environment,
  net.SplitHostPort, net.ParseIP and url.Parse are parameters.
\<close>

section \<open>Ports\<close>

definition hasPort :: "string \<Rightarrow> bool" where
  "hasPort s \<longleftrightarrow> LastIndex (CHR '':'') s > LastIndex (CHR '']'') s"

definition portMap :: "string \<Rightarrow> string" where
  "portMap scheme = (if scheme = ''http'' then ''80'' else if scheme = ''https'' then ''443'' else [])"

definition canonicalAddr :: "url \<Rightarrow> string" where
  "canonicalAddr u = (if hasPort (url_Host u) then url_Host u else url_Host u @ '':'' @ portMap (url_Scheme u))"

text \<open>The text before the last colon.\<close>

definition cut_port :: "string \<Rightarrow> string" where
  "cut_port s = (if hasPort s then take (nat (LastIndex (CHR '':'') s)) s else s)"

section \<open>The proxy of the environment\<close>

definition ToUpper :: "string \<Rightarrow> string" where
  "ToUpper s = map upper_char s"

definition getenvEitherCase :: "(string \<Rightarrow> string) \<Rightarrow> string \<Rightarrow> string" where
  "getenvEitherCase env k = (let v = env (ToUpper k) in if v \<noteq> [] then v else env (ToLower k))"

text \<open>
  The entries of NO_PROXY in turn. An entry that is only a port is empty once its port is taken
  off; looking at its first character is a panic.
\<close>

fun no_proxy_loop :: "string \<Rightarrow> string list \<Rightarrow> bool outcome" where
  "no_proxy_loop addr [] = Ret True"
| "no_proxy_loop addr (e # es) =
     (let p = ToLower (TrimSpace e) in
      if p = [] then no_proxy_loop addr es
      else
        let p = cut_port p in
        if addr = p then Ret False
        else if p = [] then Panic ''index out of range''
        else if hd p = CHR ''.'' \<and> (HasSuffix addr p \<or> addr = tl p) then Ret False
        else no_proxy_loop addr es)"

definition useProxy :: "(string \<Rightarrow> string) \<Rightarrow> (string \<Rightarrow> string option) \<Rightarrow> (string \<Rightarrow> bool) \<Rightarrow> string \<Rightarrow> bool outcome" where
  "useProxy env split_host is_loopback addr =
     (if addr = [] then Ret True
      else case split_host addr of
        None \<Rightarrow> Ret False
      | Some host \<Rightarrow>
          if host = ''localhost'' then Ret False
          else if is_loopback host then Ret False
          else
            let no_proxy = getenvEitherCase env ''NO_PROXY'' in
            if no_proxy = ''*'' then Ret False
            else no_proxy_loop (cut_port (ToLower (TrimSpace addr))) (Split (CHR '','') no_proxy))"

text \<open>
  The second parse, with http:// in front, is used only when the first one gives a URL without
  scheme: the code clears an error variable of its own, not the first one.
\<close>

definition ProxyFromEnvironment :: "(string \<Rightarrow> string) \<Rightarrow> (string \<Rightarrow> string option) \<Rightarrow> (string \<Rightarrow> bool)
    \<Rightarrow> (string \<Rightarrow> werror + url) \<Rightarrow> url \<Rightarrow> (werror + url option) outcome" where
  "ProxyFromEnvironment env split_host is_loopback parse u =
     (let proxy = getenvEitherCase env ''HTTP_PROXY'' in
      if proxy = [] then Ret (Inr None)
      else case useProxy env split_host is_loopback (canonicalAddr u) of
        Panic m \<Rightarrow> Panic m
      | Block \<Rightarrow> Block
      | Ret False \<Rightarrow> Ret (Inr None)
      | Ret True \<Rightarrow>
          (case parse proxy of
             Inl e \<Rightarrow> Ret (Inl (OtherError (''invalid proxy address '' @ proxy @ '': '' @ error_string e)))
           | Inr v \<Rightarrow>
               if url_Scheme v = [] then
                 (case parse (''http://'' @ proxy) of Inr w \<Rightarrow> Ret (Inr (Some w)) | Inl e \<Rightarrow> Ret (Inr (Some v)))
               else Ret (Inr (Some v))))"

definition ProxyURL :: "url \<Rightarrow> url \<Rightarrow> werror + url option" where
  "ProxyURL fixed u = Inr (Some fixed)"

section \<open>Connect methods\<close>

record connectMethod =
  cm_proxyURL :: "url option"
  cm_targetScheme :: string
  cm_targetAddr :: string

definition cm_String :: "connectMethod \<Rightarrow> string" where
  "cm_String ck = Join ''|'' [case cm_proxyURL ck of None \<Rightarrow> [] | Some u \<Rightarrow> url_String u, cm_targetScheme ck, cm_targetAddr ck]"

definition cm_addr :: "connectMethod \<Rightarrow> string" where
  "cm_addr cm = (case cm_proxyURL cm of Some u \<Rightarrow> canonicalAddr u | None \<Rightarrow> cm_targetAddr cm)"

definition tlsHost :: "connectMethod \<Rightarrow> string" where
  "tlsHost cm = cut_port (cm_targetAddr cm)"

text \<open>\<open>user\<close> is the text of a URL's user information, None when there is none.\<close>

definition proxyAuth :: "(url \<Rightarrow> string option) \<Rightarrow> connectMethod \<Rightarrow> string" where
  "proxyAuth user cm = (case cm_proxyURL cm of
      None \<Rightarrow> []
    | Some u \<Rightarrow> (case user u of None \<Rightarrow> [] | Some s \<Rightarrow> ''Basic '' @ base64 URLEncoding (bytes_of s)))"

definition connectMethodForRequest :: "(url \<Rightarrow> werror + url option) option \<Rightarrow> url \<Rightarrow> werror + connectMethod" where
  "connectMethodForRequest proxy u =
     (let cm = \<lparr>cm_proxyURL = None, cm_targetScheme = url_Scheme u, cm_targetAddr = canonicalAddr u\<rparr> in
      case proxy of
        None \<Rightarrow> Inr cm
      | Some f \<Rightarrow> (case f u of Inl e \<Rightarrow> Inl e | Inr p \<Rightarrow> Inr (cm\<lparr>cm_proxyURL := p\<rparr>)))"

section \<open>Properties\<close>

lemma hasPort_append: "CHR '':'' \<notin> set port \<Longrightarrow> CHR '']'' \<notin> set port \<Longrightarrow> hasPort (host @ '':'' @ port)"
proof -
  assume p: "CHR '':'' \<notin> set port" "CHR '']'' \<notin> set port"
  have c: "LastIndex (CHR '':'') (host @ CHR '':'' # port) = int (length host)" using p(1) by (rule LastIndex_append)
  have "length (port @ [CHR '':'']) \<le> length (takeWhile (\<lambda>x. x \<noteq> CHR '']'') (rev (host @ CHR '':'' # port)))"
  proof -
    have "takeWhile (\<lambda>x. x \<noteq> CHR '']'') (rev port @ CHR '':'' # rev host) =
        rev port @ takeWhile (\<lambda>x. x \<noteq> CHR '']'') (CHR '':'' # rev host)"
      using p(2) by (subst takeWhile_append2) auto
    then show ?thesis by simp
  qed
  then have "LastIndex (CHR '']'') (host @ CHR '':'' # port) < int (length host)" by (simp add: LastIndex_def)
  with c show ?thesis by (simp add: hasPort_def)
qed

text \<open>
  canonicalAddr always gives an address with a port, keeps one that has a port, and tlsHost
  takes the port off again: for a host without colon and bracket, the name a TLS certificate
  is checked against is the URL's host.
\<close>

theorem canonical_address:
  "hasPort (canonicalAddr u) \<and> (hasPort (url_Host u) \<longrightarrow> canonicalAddr u = url_Host u) \<and>
   (CHR '':'' \<notin> set (url_Host u) \<longrightarrow>
     tlsHost \<lparr>cm_proxyURL = p, cm_targetScheme = s, cm_targetAddr = canonicalAddr u\<rparr> = url_Host u)"
proof -
  have port: "CHR '':'' \<notin> set (portMap (url_Scheme u))" "CHR '']'' \<notin> set (portMap (url_Scheme u))"
    by (simp_all add: portMap_def)
  have hp: "hasPort (url_Host u @ '':'' @ portMap (url_Scheme u))" by (rule hasPort_append [OF port])
  have "\<not> hasPort (url_Host u)" if n: "CHR '':'' \<notin> set (url_Host u)"
  proof -
    have "-1 \<le> LastIndex (CHR '']'') (url_Host u)"
      using length_takeWhile_le [of "\<lambda>x. x \<noteq> CHR '']''" "rev (url_Host u)"] by (simp add: LastIndex_def)
    with LastIndex_none [OF n] show ?thesis by (simp add: hasPort_def)
  qed
  moreover have "LastIndex (CHR '':'') (url_Host u @ '':'' @ portMap (url_Scheme u)) = int (length (url_Host u))"
    using LastIndex_append [OF port(1), of "url_Host u"] by simp
  ultimately show ?thesis using hp by (simp add: canonicalAddr_def tlsHost_def cut_port_def)
qed

theorem canonical_address_witness:
  "hasPort (canonicalAddr \<lparr>url_Scheme = ''https'', url_Host = ''a.b'', url_Path = [], url_RequestURI = [], url_String = []\<rparr>) \<and>
   tlsHost \<lparr>cm_proxyURL = None, cm_targetScheme = ''https'', cm_targetAddr = canonicalAddr
      \<lparr>url_Scheme = ''https'', url_Host = ''a.b'', url_Path = [], url_RequestURI = [], url_String = []\<rparr>\<rparr> = ''a.b''"
  using canonical_address [of "\<lparr>url_Scheme = ''https'', url_Host = ''a.b'', url_Path = [], url_RequestURI = [], url_String = []\<rparr>"
      None "''https''"] by simp

lemma cut_unique:
  fixes c :: char
  assumes "c \<notin> set a" and "c \<notin> set a'" and eq: "a @ c # b = a' @ c # b'"
  shows "a = a' \<and> b = b'"
proof -
  have "Some (a, b) = Go_Text.cut c (a @ c # b)" by (rule cut_append [OF assms(1), symmetric])
  also have "\<dots> = Go_Text.cut c (a' @ c # b')" by (simp only: eq)
  also have "\<dots> = Some (a', b')" by (rule cut_append [OF assms(2)])
  finally show ?thesis by simp
qed

text \<open>
  The key of the pool separates what must be separated: two connect methods have the same
  key only if they go through the same proxy to the same scheme and address, provided that no
  proxy URL or scheme contains a bar.
\<close>

theorem cache_key_injective:
  assumes "cm_String a = cm_String b"
    and "\<forall>cm \<in> {a, b}. CHR ''|'' \<notin> set (cm_targetScheme cm) \<and> (\<forall>u. cm_proxyURL cm = Some u \<longrightarrow> CHR ''|'' \<notin> set (url_String u))"
  shows "(case cm_proxyURL a of None \<Rightarrow> [] | Some u \<Rightarrow> url_String u) = (case cm_proxyURL b of None \<Rightarrow> [] | Some u \<Rightarrow> url_String u) \<and>
    cm_targetScheme a = cm_targetScheme b \<and> cm_targetAddr a = cm_targetAddr b"
proof -
  let ?p = "\<lambda>cm. case cm_proxyURL cm of None \<Rightarrow> [] | Some u \<Rightarrow> url_String u"
  have n: "CHR ''|'' \<notin> set (?p a)" "CHR ''|'' \<notin> set (?p b)" using assms(2) by (auto split: option.split)
  have e: "?p a @ CHR ''|'' # (cm_targetScheme a @ CHR ''|'' # cm_targetAddr a) =
      ?p b @ CHR ''|'' # (cm_targetScheme b @ CHR ''|'' # cm_targetAddr b)"
    using assms(1) by (simp add: cm_String_def)
  from cut_unique [OF n e] have p: "?p a = ?p b"
    and r: "cm_targetScheme a @ CHR ''|'' # cm_targetAddr a = cm_targetScheme b @ CHR ''|'' # cm_targetAddr b"
    by blast+
  have "CHR ''|'' \<notin> set (cm_targetScheme a)" "CHR ''|'' \<notin> set (cm_targetScheme b)" using assms(2) by auto
  from cut_unique [OF this r] p show ?thesis by blast
qed

definition demo_method :: "string \<Rightarrow> connectMethod" where
  "demo_method q = \<lparr>cm_proxyURL = Some \<lparr>url_Scheme = ''http'', url_Host = ''p'', url_Path = q, url_RequestURI = q,
     url_String = ''http://p''\<rparr>, cm_targetScheme = ''https'', cm_targetAddr = ''a|b:443''\<rparr>"

theorem cache_key_injective_witness:
  "(case cm_proxyURL (demo_method ''x'') of None \<Rightarrow> [] | Some u \<Rightarrow> url_String u) =
      (case cm_proxyURL (demo_method ''y'') of None \<Rightarrow> [] | Some u \<Rightarrow> url_String u) \<and>
    cm_targetScheme (demo_method ''x'') = cm_targetScheme (demo_method ''y'') \<and>
    cm_targetAddr (demo_method ''x'') = cm_targetAddr (demo_method ''y'')"
  by (rule cache_key_injective) (simp_all add: demo_method_def cm_String_def)

text \<open>
  An entry of NO_PROXY that consists of a port only, such as :8080, stops the program at
  the first request to another host: the entry is empty after its port is cut off and the
  code then looks at its first character.
\<close>

theorem no_proxy_port_entry_panics:
  assumes "TrimSpace e = CHR '':'' # port" and "CHR '':'' \<notin> set (ToLower port)" and "CHR '']'' \<notin> set (ToLower port)"
    and "addr \<noteq> []"
  shows "no_proxy_loop addr (e # es) = Panic ''index out of range''"
proof -
  have l: "ToLower (TrimSpace e) = [] @ '':'' @ ToLower port"
    by (simp add: assms(1) ToLower_def lower_char_def less_eq_char_def)
  have "hasPort ([] @ '':'' @ ToLower port)" using assms(2,3) by (rule hasPort_append)
  moreover have "LastIndex (CHR '':'') ([] @ CHR '':'' # ToLower port) = 0"
    using LastIndex_append [OF assms(2), of "[]"] by simp
  ultimately have "cut_port ([] @ '':'' @ ToLower port) = []" by (simp add: cut_port_def)
  with assms(4) l show ?thesis by simp
qed

theorem no_proxy_port_entry_panics_witness:
  "no_proxy_loop ''example.com'' ['' :8080'', ''x''] = Panic ''index out of range''"
proof -
  have "TrimSpace '' :8080'' = CHR '':'' # ''8080''" "CHR '':'' \<notin> set (ToLower ''8080'')" "CHR '']'' \<notin> set (ToLower ''8080'')"
    by code_simp+
  from no_proxy_port_entry_panics [OF this, of "''example.com''" "[''x'']"] show ?thesis by simp
qed

end
