(* ===== verification/Tr_Pool.thy ===== *)
theory Tr_Pool
  imports Tr_Address Prelude
begin

text \<open>
  goproxy/transport, the pool of idle connections: putIdleConn, getIdleConn,
  CloseIdleConnections, close and isBroken, and RegisterProtocol. Connections are shared
  objects: a number is the address of a persistConn in the store \<open>tr_conns\<close>. The pool and
  everything that can happen to it is a transition system (an instance of
  \<open>invariant_system\<close>).
\<close>

section \<open>The transport\<close>

record persistConn =
  pc_cacheKey :: string
  pc_isProxy :: bool
  pc_mutate :: bool
  pc_broken :: bool
  pc_closed :: bool
  pc_numExpected :: int
  pc_host :: string

definition DefaultMaxIdleConnsPerHost :: int where
  "DefaultMaxIdleConnsPerHost = 2"

record transport =
  tr_idle :: "(string \<rightharpoonup> nat list) option"
  tr_conns :: "nat \<Rightarrow> persistConn"
  tr_DisableKeepAlives :: bool
  tr_DisableCompression :: bool
  tr_MaxIdle :: int

definition set_conn :: "nat \<Rightarrow> persistConn \<Rightarrow> transport \<Rightarrow> transport" where
  "set_conn c x t = t\<lparr>tr_conns := (tr_conns t)(c := x)\<rparr>"

definition isBroken :: "nat \<Rightarrow> transport \<Rightarrow> bool" where
  "isBroken c t = pc_broken (tr_conns t c)"

definition pc_close :: "nat \<Rightarrow> transport \<Rightarrow> transport" where
  "pc_close c t = set_conn c ((tr_conns t c)\<lparr>pc_broken := True, pc_closed := True, pc_mutate := False\<rparr>) t"

definition idle_at :: "transport \<Rightarrow> string \<Rightarrow> nat list option" where
  "idle_at t k = (case tr_idle t of None \<Rightarrow> None | Some m \<Rightarrow> m k)"

definition idle_list :: "transport \<Rightarrow> string \<Rightarrow> nat list" where
  "idle_list t k = (case idle_at t k of None \<Rightarrow> [] | Some l \<Rightarrow> l)"

definition max_idle :: "transport \<Rightarrow> int" where
  "max_idle t = (if tr_MaxIdle t = 0 then DefaultMaxIdleConnsPerHost else tr_MaxIdle t)"

definition putIdleConn :: "nat \<Rightarrow> transport \<Rightarrow> (bool \<times> transport) outcome" where
  "putIdleConn c t =
     (if tr_DisableKeepAlives t \<or> tr_MaxIdle t < 0 then Ret (False, pc_close c t)
      else if isBroken c t then Ret (False, t)
      else
        let key = pc_cacheKey (tr_conns t c);
            l = idle_list t key
        in if max_idle t \<le> int (length l) then Ret (False, pc_close c t)
           else (case tr_idle t of
                   None \<Rightarrow> Panic ''assignment to entry in nil map''
                 | Some m \<Rightarrow> Ret (True, t\<lparr>tr_idle := Some (m(key \<mapsto> l @ [c]))\<rparr>)))"

text \<open>The loop of getIdleConn over the connections kept under one key.\<close>

fun idle_loop :: "(nat \<Rightarrow> bool) \<Rightarrow> nat list \<Rightarrow> nat option \<times> nat list" where
  "idle_loop broken [] = (None, [])"
| "idle_loop broken (c # cs) = (if \<not> broken c then (Some c, cs) else idle_loop broken cs)"

text \<open>
  The list is taken from its end; a key whose list becomes empty is deleted. An empty list
  under a key would be an index panic.
\<close>

definition getIdleConn :: "string \<Rightarrow> transport \<Rightarrow> (nat option \<times> transport) outcome" where
  "getIdleConn key t =
     (let m = (case tr_idle t of None \<Rightarrow> Map.empty | Some m \<Rightarrow> m) in
      case m key of
        None \<Rightarrow> Ret (None, t\<lparr>tr_idle := Some m\<rparr>)
      | Some l \<Rightarrow>
          if l = [] then Panic ''index out of range''
          else (case idle_loop (\<lambda>c. isBroken c t) (rev l) of
                  (c, rest) \<Rightarrow> Ret (c, t\<lparr>tr_idle := Some (if rest = [] then m(key := None) else m(key \<mapsto> rev rest))\<rparr>)))"

definition CloseIdleConnections :: "transport \<Rightarrow> transport" where
  "CloseIdleConnections t = (case tr_idle t of
      None \<Rightarrow> t
    | Some m \<Rightarrow> t\<lparr>tr_conns := (\<lambda>c. if \<exists>k l. m k = Some l \<and> c \<in> set l
          then (tr_conns t c)\<lparr>pc_broken := True, pc_closed := True, pc_mutate := False\<rparr> else tr_conns t c),
        tr_idle := Some Map.empty\<rparr>)"

definition RegisterProtocol :: "string \<Rightarrow> 'rt \<Rightarrow> (string \<rightharpoonup> 'rt) \<Rightarrow> (string \<rightharpoonup> 'rt) outcome" where
  "RegisterProtocol scheme rt m =
     (if scheme = ''http'' \<or> scheme = ''https'' \<or> m scheme \<noteq> None then Panic (''protocol '' @ scheme @ '' already registered'')
      else Ret (m(scheme \<mapsto> rt)))"

section \<open>The pool as a system\<close>

text \<open>
  \<open>ps_busy\<close> are the connections handed out for a request whose response is not yet done,
  \<open>ps_next\<close> the next address of a new connection.
\<close>

record pool_state =
  ps_t :: transport
  ps_busy :: "nat set"
  ps_next :: nat

inductive pool_start :: "pool_state \<Rightarrow> bool" where
  "tr_idle t = None \<Longrightarrow> pool_start \<lparr>ps_t = t, ps_busy = {}, ps_next = 0\<rparr>"

text \<open>
  A request takes an idle connection or, when there is none, dials a new one; the dial may fail,
  and others may use the pool while it lasts. The read loop gives a connection back once per
  response (Tr_Run proves that it does). A use of a connection does not change its key, and
  any connection may be closed at any time, by an error on it or because the server closed it.
\<close>

inductive pool_step :: "pool_state \<Rightarrow> pool_state \<Rightarrow> bool" where
  reuse: "getIdleConn key (ps_t s) = Ret (Some c, t) \<Longrightarrow>
    pool_step s (s\<lparr>ps_t := t, ps_busy := insert c (ps_busy s)\<rparr>)"
| missed: "getIdleConn key (ps_t s) = Ret (None, t) \<Longrightarrow> pool_step s (s\<lparr>ps_t := t\<rparr>)"
| dialled: "tr_idle (ps_t s) \<noteq> None \<Longrightarrow> \<not> pc_broken x \<Longrightarrow>
    pool_step s (s\<lparr>ps_t := set_conn (ps_next s) x (ps_t s), ps_busy := insert (ps_next s) (ps_busy s), ps_next := Suc (ps_next s)\<rparr>)"
| done_with: "c \<in> ps_busy s \<Longrightarrow> putIdleConn c (ps_t s) = Ret (b, t) \<Longrightarrow>
    pool_step s (s\<lparr>ps_t := t, ps_busy := ps_busy s - {c}\<rparr>)"
| used: "pc_cacheKey x = pc_cacheKey (tr_conns (ps_t s) c) \<Longrightarrow> pc_broken x = pc_broken (tr_conns (ps_t s) c) \<Longrightarrow>
    pool_step s (s\<lparr>ps_t := set_conn c x (ps_t s)\<rparr>)"
| lost: "c < ps_next s \<Longrightarrow> pool_step s (s\<lparr>ps_t := pc_close c (ps_t s)\<rparr>)"
| close_idle: "pool_step s (s\<lparr>ps_t := CloseIdleConnections (ps_t s)\<rparr>)"

text \<open>
  Under every key there is a list that is neither empty nor too long, without repetition, of
  connections of that key which nobody uses.
\<close>

definition pool_ok :: "pool_state \<Rightarrow> bool" where
  "pool_ok s \<longleftrightarrow>
     (\<forall>k l. idle_at (ps_t s) k = Some l \<longrightarrow> l \<noteq> [] \<and> distinct l \<and> int (length l) \<le> max_idle (ps_t s) \<and>
       (\<forall>c \<in> set l. pc_cacheKey (tr_conns (ps_t s) c) = k \<and> c \<notin> ps_busy s \<and> c < ps_next s)) \<and>
     (\<forall>c \<in> ps_busy s. c < ps_next s) \<and>
     (ps_busy s \<noteq> {} \<longrightarrow> tr_idle (ps_t s) \<noteq> None)"

lemma idle_loop_split:
  assumes "idle_loop broken l = (x, rest)"
  shows "\<exists>pre. l = pre @ (case x of None \<Rightarrow> [] | Some c \<Rightarrow> [c]) @ rest \<and> list_all broken pre \<and>
    (case x of None \<Rightarrow> rest = [] | Some c \<Rightarrow> \<not> broken c)"
  using assms
proof (induction l)
  case (Cons c cs)
  show ?case
  proof (cases "broken c")
    case True
    with Cons obtain pre where "cs = pre @ (case x of None \<Rightarrow> [] | Some c \<Rightarrow> [c]) @ rest" "list_all broken pre"
      "case x of None \<Rightarrow> rest = [] | Some c \<Rightarrow> \<not> broken c" by auto
    with True show ?thesis by (intro exI [of _ "c # pre"]) simp
  next
    case False
    with Cons.prems show ?thesis by (intro exI [of _ "[]"]) auto
  qed
qed simp

text \<open>What getIdleConn does to the pool.\<close>

lemma getIdleConn_result:
  assumes "getIdleConn key t = Ret (x, t')"
  shows "tr_idle t' \<noteq> None \<and> tr_conns t' = tr_conns t \<and> max_idle t' = max_idle t \<and>
    (\<forall>k. k \<noteq> key \<longrightarrow> idle_at t' k = idle_at t k) \<and>
    (case idle_at t key of None \<Rightarrow> x = None \<and> idle_at t' key = None
     | Some l \<Rightarrow> \<exists>pre rest. rev l = pre @ (case x of None \<Rightarrow> [] | Some c \<Rightarrow> [c]) @ rest \<and>
         idle_at t' key = (if rest = [] then None else Some (rev rest)) \<and>
         (case x of None \<Rightarrow> rest = [] | Some c \<Rightarrow> \<not> isBroken c t))"
proof -
  let ?m = "case tr_idle t of None \<Rightarrow> Map.empty | Some m \<Rightarrow> m"
  have i: "idle_at t k = ?m k" for k by (simp add: idle_at_def split: option.split)
  show ?thesis
  proof (cases "?m key")
    case None
    with assms i show ?thesis by (auto simp: getIdleConn_def Let_def idle_at_def max_idle_def)
  next
    case (Some l)
    then obtain rest where l: "l \<noteq> []" "idle_loop (\<lambda>c. isBroken c t) (rev l) = (x, rest)"
      and t': "t' = t\<lparr>tr_idle := Some (if rest = [] then ?m(key := None) else ?m(key \<mapsto> rev rest))\<rparr>"
      using assms by (auto simp: getIdleConn_def Let_def split: if_splits prod.splits)
    obtain pre where "rev l = pre @ (case x of None \<Rightarrow> [] | Some c \<Rightarrow> [c]) @ rest"
      "case x of None \<Rightarrow> rest = [] | Some c \<Rightarrow> \<not> isBroken c t"
      using idle_loop_split [OF l(2)] by blast
    moreover have "idle_at t key = Some l" using Some i by simp
    moreover have "idle_at t' k = (if k = key then (if rest = [] then None else Some (rev rest)) else idle_at t k)" for k
      using i by (simp add: t' idle_at_def)
    ultimately show ?thesis by (auto simp: t' max_idle_def)
  qed
qed

lemma getIdleConn_ok:
  assumes ok: "pool_ok s" and g: "getIdleConn key (ps_t s) = Ret (x, t)"
  shows "pool_ok (s\<lparr>ps_t := t, ps_busy := (case x of None \<Rightarrow> ps_busy s | Some c \<Rightarrow> insert c (ps_busy s))\<rparr>) \<and>
    (\<forall>c. x = Some c \<longrightarrow> c \<notin> ps_busy s \<and> c < ps_next s \<and> pc_cacheKey (tr_conns t c) = key \<and> \<not> isBroken c t)"
proof -
  note r = getIdleConn_result [OF g]
  have sub: "distinct l' \<and> set l' \<subseteq> set l - set (case x of None \<Rightarrow> [] | Some c \<Rightarrow> [c]) \<and> l' \<noteq> [] \<and> length l' \<le> length l"
    if i: "idle_at t key = Some l'" "idle_at (ps_t s) key = Some l" for l l'
  proof -
    from i r obtain pre rest where e: "rev l = pre @ (case x of None \<Rightarrow> [] | Some c \<Rightarrow> [c]) @ rest" "l' = rev rest" "rest \<noteq> []"
      by (auto split: if_splits)
    let ?taken = "case x of None \<Rightarrow> [] | Some c \<Rightarrow> [c]"
    have "distinct (rev l)" using ok i by (simp add: pool_ok_def)
    then have d: "distinct (pre @ ?taken @ rest)" by (simp only: e(1))
    have s: "set l = set (pre @ ?taken @ rest)" "length l = length (pre @ ?taken @ rest)"
      by (metis e(1) set_rev, metis e(1) length_rev)
    show ?thesis unfolding e(2) s using d e(3) by (auto split: option.splits)
  qed
  have taken: "c \<in> set l" if "x = Some c" "idle_at (ps_t s) key = Some l" for c l
  proof -
    from that r obtain pre rest where e: "rev l = pre @ [c] @ rest" by auto
    then have "c \<in> set (rev l)" by simp
    then show ?thesis by simp
  qed
  have some: "\<exists>l. idle_at (ps_t s) key = Some l" if "x = Some c" for c
    using r that by (cases "idle_at (ps_t s) key") auto
  have other: "c \<notin> set l'" if x: "x = Some c" and i: "idle_at (ps_t s) k = Some l'" and k: "k \<noteq> key" for c k l'
  proof -
    obtain l where l: "idle_at (ps_t s) key = Some l" using some [OF x] by blast
    have "pc_cacheKey (tr_conns (ps_t s) c) = key" using taken [OF x l] l ok by (simp add: pool_ok_def)
    with i k ok show ?thesis by (auto simp: pool_ok_def)
  qed
  have dom: "\<exists>l. idle_at (ps_t s) key = Some l" if "idle_at t key = Some l'" for l'
    using r that by (cases "idle_at (ps_t s) key") auto
  have "l \<noteq> [] \<and> distinct l \<and> int (length l) \<le> max_idle t \<and>
      (\<forall>c \<in> set l. pc_cacheKey (tr_conns t c) = k \<and> c \<notin> (case x of None \<Rightarrow> ps_busy s | Some c \<Rightarrow> insert c (ps_busy s)) \<and> c < ps_next s)"
    if i: "idle_at t k = Some l" for k l
  proof (cases "k = key")
    case True
    then obtain l0 where l0: "idle_at (ps_t s) key = Some l0" using dom i by blast
    from sub [OF i [unfolded True] l0] ok l0 r True show ?thesis
      by (fastforce simp: pool_ok_def split: option.splits)
  next
    case False
    with r i have "idle_at (ps_t s) k = Some l" by simp
    with False other ok r show ?thesis by (auto simp: pool_ok_def split: option.splits)
  qed
  moreover have "c \<notin> ps_busy s \<and> c < ps_next s \<and> pc_cacheKey (tr_conns t c) = key \<and> \<not> isBroken c t" if x: "x = Some c" for c
  proof -
    obtain l where l: "idle_at (ps_t s) key = Some l" using some [OF x] by blast
    have "\<not> isBroken c (ps_t s)" using r l x by auto
    with taken [OF x l] ok r l show ?thesis by (simp add: pool_ok_def isBroken_def)
  qed
  ultimately show ?thesis using ok r by (auto simp: pool_ok_def split: option.splits)
qed

lemma idle_at_set_conn [simp]: "idle_at (set_conn c x t) k = idle_at t k" "max_idle (set_conn c x t) = max_idle t"
  "tr_idle (set_conn c x t) = tr_idle t"
  by (simp_all add: set_conn_def idle_at_def max_idle_def)

lemma pc_close_facts [simp]: "idle_at (pc_close c t) k = idle_at t k" "max_idle (pc_close c t) = max_idle t"
  "tr_idle (pc_close c t) = tr_idle t" "pc_cacheKey (tr_conns (pc_close c t) d) = pc_cacheKey (tr_conns t d)"
  by (simp_all add: pc_close_def) (simp add: set_conn_def)

lemma putIdleConn_cases:
  assumes "putIdleConn c t = Ret (b, t')"
  shows "t' = pc_close c t \<or> t' = t \<or> (\<exists>m. tr_idle t = Some m \<and>
    int (length (idle_list t (pc_cacheKey (tr_conns t c)))) < max_idle t \<and>
    t' = t\<lparr>tr_idle := Some (m(pc_cacheKey (tr_conns t c) \<mapsto> idle_list t (pc_cacheKey (tr_conns t c)) @ [c]))\<rparr>)"
  using assms unfolding putIdleConn_def Let_def by (simp split: if_splits option.splits)

lemma putIdleConn_ok:
  assumes ok: "pool_ok s" and c: "c \<in> ps_busy s" and p: "putIdleConn c (ps_t s) = Ret (b, t)"
  shows "pool_ok (s\<lparr>ps_t := t, ps_busy := ps_busy s - {c}\<rparr>)"
proof -
  let ?key = "pc_cacheKey (tr_conns (ps_t s) c)"
  let ?l = "idle_list (ps_t s) ?key"
  consider "t = pc_close c (ps_t s)" | "t = ps_t s"
    | m where "tr_idle (ps_t s) = Some m" "int (length ?l) < max_idle (ps_t s)" "t = (ps_t s)\<lparr>tr_idle := Some (m(?key \<mapsto> ?l @ [c]))\<rparr>"
    using putIdleConn_cases [OF p] by blast
  then show ?thesis
  proof cases
    case (3 m)
    have i: "idle_at t k = (if k = ?key then Some (?l @ [c]) else idle_at (ps_t s) k)" for k
      using 3(1) unfolding 3(3) by (simp add: idle_at_def)
    have f: "tr_conns t = tr_conns (ps_t s)" "max_idle t = max_idle (ps_t s)" unfolding 3(3) by (simp_all add: max_idle_def)
    have l: "distinct ?l" "c \<notin> set ?l" "\<forall>d \<in> set ?l. pc_cacheKey (tr_conns (ps_t s) d) = ?key \<and> d \<notin> ps_busy s \<and> d < ps_next s"
    proof (atomize (full), cases "idle_at (ps_t s) ?key")
      case None
      then show "distinct ?l \<and> c \<notin> set ?l \<and> (\<forall>d \<in> set ?l. pc_cacheKey (tr_conns (ps_t s) d) = ?key \<and> d \<notin> ps_busy s \<and> d < ps_next s)"
        by (simp add: idle_list_def)
    next
      case (Some l)
      then have "?l = l" by (simp add: idle_list_def)
      with Some ok c show "distinct ?l \<and> c \<notin> set ?l \<and> (\<forall>d \<in> set ?l. pc_cacheKey (tr_conns (ps_t s) d) = ?key \<and> d \<notin> ps_busy s \<and> d < ps_next s)"
        unfolding pool_ok_def by blast
    qed
    have "l \<noteq> [] \<and> distinct l \<and> int (length l) \<le> max_idle t \<and>
        (\<forall>d \<in> set l. pc_cacheKey (tr_conns t d) = k \<and> d \<notin> ps_busy s - {c} \<and> d < ps_next s)" if g: "idle_at t k = Some l" for k l
    proof (cases "k = ?key")
      case True
      then have "l = ?l @ [c]" using g i by simp
      with l 3(2) f ok c True show ?thesis by (auto simp: pool_ok_def)
    next
      case False
      with g i have "idle_at (ps_t s) k = Some l" by simp
      with ok f show ?thesis unfolding pool_ok_def by auto
    qed
    moreover have "tr_idle t \<noteq> None" unfolding 3(3) by simp
    moreover have "\<forall>d \<in> ps_busy s. d < ps_next s" using ok by (simp add: pool_ok_def)
    ultimately show ?thesis unfolding pool_ok_def by auto
  qed (use ok in \<open>auto simp: pool_ok_def\<close>)
qed

lemma close_idle_ok: "pool_ok s \<Longrightarrow> pool_ok (s\<lparr>ps_t := CloseIdleConnections (ps_t s)\<rparr>)"
  by (cases "tr_idle (ps_t s)") (auto simp: pool_ok_def CloseIdleConnections_def idle_at_def max_idle_def)

lemma pool_step_ok: "pool_step s s' \<Longrightarrow> pool_ok s \<Longrightarrow> pool_ok s'"
proof (induction rule: pool_step.induct)
  case (reuse key s c t)
  then show ?case using getIdleConn_ok [of s key "Some c" t] by simp
next
  case (dialled s x)
  then show ?case by (fastforce simp: pool_ok_def set_conn_def idle_at_def max_idle_def split: option.splits)
next
  case (missed key s t)
  then show ?case using getIdleConn_ok [of s key None t] by simp
next
  case (done_with c s b t)
  then show ?case by (intro putIdleConn_ok)
next
  case (used x s c)
  then have "pc_cacheKey (tr_conns (set_conn c x (ps_t s)) d) = pc_cacheKey (tr_conns (ps_t s) d)" for d
    by (simp add: set_conn_def)
  with used.prems show ?case by (simp add: pool_ok_def)
next
  case (lost c s)
  then show ?case by (auto simp: pool_ok_def)
next
  case (close_idle s)
  then show ?case by (rule close_idle_ok)
qed

lemma pool_start_ok: "pool_start s \<Longrightarrow> pool_ok s"
  by (erule pool_start.cases) (simp add: pool_ok_def idle_at_def)

interpretation pool_system: invariant_system pool_start pool_step pool_ok
  by unfold_locales (auto intro: pool_start_ok pool_step_ok)

section \<open>Properties\<close>

text \<open>
  C8: In every state the transport can get to, the pool keeps its promise: under each key
  there are at most MaxIdleConnsPerHost connections (2 if that is 0), all different, all of
  that key, and none of them is in use by a request.
\<close>

theorem pool_invariant:
  assumes "reachable pool_start pool_step s" and "idle_at (ps_t s) k = Some l"
  shows "l \<noteq> [] \<and> distinct l \<and> int (length l) \<le> max_idle (ps_t s) \<and>
    (\<forall>c \<in> set l. pc_cacheKey (tr_conns (ps_t s) c) = k \<and> c \<notin> ps_busy s)"
  using pool_system.inv_reachable [OF assms(1)] assms(2) by (simp add: pool_ok_def)

text \<open>
  A request never shares its connection: what a reachable pool hands out for a key is a
  working connection of that key that no other request is using, and neither taking it nor
  giving a busy one back can panic.
\<close>

theorem handed_out_exclusively:
  assumes "reachable pool_start pool_step s"
  shows "(\<forall>key c t. getIdleConn key (ps_t s) = Ret (Some c, t) \<longrightarrow>
      c \<notin> ps_busy s \<and> pc_cacheKey (tr_conns t c) = key \<and> \<not> isBroken c t) \<and>
    (\<forall>key. \<not> is_panic (getIdleConn key (ps_t s))) \<and> (\<forall>c \<in> ps_busy s. \<not> is_panic (putIdleConn c (ps_t s)))"
proof -
  have ok: "pool_ok s" by (rule pool_system.inv_reachable [OF assms])
  have "\<not> is_panic (getIdleConn key (ps_t s))" for key
  proof (cases "idle_at (ps_t s) key")
    case None
    then show ?thesis by (simp add: getIdleConn_def Let_def idle_at_def split: option.splits)
  next
    case (Some l)
    with ok have "l \<noteq> []" by (simp add: pool_ok_def)
    with Some show ?thesis by (simp add: getIdleConn_def Let_def idle_at_def split: option.splits prod.splits)
  qed
  moreover have "\<not> is_panic (putIdleConn c (ps_t s))" if "c \<in> ps_busy s" for c
    using ok that by (auto simp: putIdleConn_def pool_ok_def Let_def)
  ultimately show ?thesis using getIdleConn_ok [OF ok] by blast
qed

definition demo_transport :: transport where
  "demo_transport = \<lparr>tr_idle = None, tr_conns = (\<lambda>c. \<lparr>pc_cacheKey = ''k'', pc_isProxy = False, pc_mutate = False,
     pc_broken = False, pc_closed = False, pc_numExpected = 0, pc_host = ''h''\<rparr>),
     tr_DisableKeepAlives = False, tr_DisableCompression = False, tr_MaxIdle = 0\<rparr>"

definition demo_pool :: pool_state where
  "demo_pool = \<lparr>ps_t = demo_transport\<lparr>tr_idle := Some [''k'' \<mapsto> [0]]\<rparr>, ps_busy = {}, ps_next = 1\<rparr>"

lemma demo_pool_reachable: "reachable pool_start pool_step demo_pool"
proof -
  let ?s = "\<lparr>ps_t = demo_transport, ps_busy = {}, ps_next = 0\<rparr>"
  let ?x = "tr_conns demo_transport 0"
  let ?t = "demo_transport\<lparr>tr_idle := Some Map.empty\<rparr>"
  let ?u = "\<lparr>ps_t = ?t, ps_busy = {0}, ps_next = 1\<rparr>"
  let ?m = "?s\<lparr>ps_t := ?t\<rparr>"
  have conns: "(tr_conns demo_transport)(0 := ?x) = tr_conns demo_transport" by (rule fun_upd_triv)
  have "pool_start ?s" by (rule pool_start.intros) (simp add: demo_transport_def)
  then have r: "reachable pool_start pool_step ?s" by (rule reachable_start)
  have g: "getIdleConn (pc_cacheKey ?x) (ps_t ?s) = Ret (None, ?t)"
    by (simp add: getIdleConn_def demo_transport_def)
  have r: "reachable pool_start pool_step ?m" by (rule reachable_step [OF r missed [OF g]])
  have u: "?m\<lparr>ps_t := set_conn (ps_next ?m) ?x (ps_t ?m), ps_busy := insert (ps_next ?m) (ps_busy ?m), ps_next := Suc (ps_next ?m)\<rparr> = ?u"
    using conns by (simp add: set_conn_def)
  have "pool_step ?m ?u" using dialled [of ?m ?x] unfolding u by (simp add: demo_transport_def)
  with r have r: "reachable pool_start pool_step ?u" by (rule reachable_step)
  have "putIdleConn 0 (ps_t ?u) = Ret (True, ps_t demo_pool)"
    by (simp add: putIdleConn_def Let_def demo_transport_def isBroken_def idle_list_def idle_at_def max_idle_def
        DefaultMaxIdleConnsPerHost_def demo_pool_def)
  from done_with [OF _ this] have "pool_step ?u demo_pool" by (simp add: demo_pool_def)
  with r show ?thesis by (rule reachable_step)
qed

theorem pool_invariant_witness:
  "distinct [0 :: nat] \<and> 1 \<le> max_idle (ps_t demo_pool) \<and>
    pc_cacheKey (tr_conns (ps_t demo_pool) 0) = ''k'' \<and> 0 \<notin> ps_busy demo_pool"
proof -
  have "idle_at (ps_t demo_pool) ''k'' = Some [0]" by (simp add: demo_pool_def idle_at_def)
  from pool_invariant [OF demo_pool_reachable this] show ?thesis by simp
qed

theorem handed_out_exclusively_witness:
  "\<exists>t. getIdleConn ''k'' (ps_t demo_pool) = Ret (Some 0, t) \<and> 0 \<notin> ps_busy demo_pool \<and>
    pc_cacheKey (tr_conns t 0) = ''k'' \<and> \<not> isBroken 0 t \<and> \<not> is_panic (getIdleConn ''x'' (ps_t demo_pool))"
proof -
  have "\<exists>t. getIdleConn ''k'' (ps_t demo_pool) = Ret (Some 0, t)"
    by (simp add: getIdleConn_def demo_pool_def demo_transport_def isBroken_def)
  with handed_out_exclusively [OF demo_pool_reachable] show ?thesis by blast
qed

end
