(* ===== verification/Tr_Loop.thy ===== *)
theory Tr_Loop
  imports Tr_Pool
begin

text \<open>
  goproxy/transport, requests: getConn, roundTrip and DetailedRoundTrip, the turns of a
  connection's readLoop, and the body wrappers (bodyEOFSignal, readFirstCloseBoth,
  discardOnCloseReadCloser). Dialling, TLS, gzip and the reading and writing of messages by
  net/http are parameters.
\<close>

section \<open>Bodies\<close>

text \<open>\<open>es_fn\<close> says that the function is still to be run; an operation tells whether it did it.\<close>

record 's bodyEOFSignal =
  es_body :: 's
  es_fn :: bool
  es_isClosed :: bool

definition es_Read :: "(nat \<Rightarrow> 's \<Rightarrow> bytes rres \<times> 's) \<Rightarrow> nat \<Rightarrow> 's bodyEOFSignal
    \<Rightarrow> ((bytes rres \<times> bool) \<times> 's bodyEOFSignal) outcome" where
  "es_Read rd n es =
     (case rd n (es_body es) of
        (RVal b, s) \<Rightarrow>
          if es_isClosed es \<and> b \<noteq> [] then Panic ''http: unexpected bodyEOFSignal Read after Close; see issue 1725''
          else Ret ((RVal b, False), es\<lparr>es_body := s\<rparr>)
      | (RErr e, s) \<Rightarrow>
          if e = io_EOF \<and> es_fn es then Ret ((RErr e, True), es\<lparr>es_body := s, es_fn := False\<rparr>)
          else Ret ((RErr e, False), es\<lparr>es_body := s\<rparr>)
      | (RBlock, s) \<Rightarrow> Block)"

definition es_Close :: "('s \<Rightarrow> werror option \<times> 's) \<Rightarrow> 's bodyEOFSignal \<Rightarrow> (werror option \<times> bool) \<times> 's bodyEOFSignal" where
  "es_Close close es =
     (if es_isClosed es then ((None, False), es)
      else
        (case close (es_body es) of
           (None, s) \<Rightarrow> ((None, es_fn es), es\<lparr>es_isClosed := True, es_body := s, es_fn := False\<rparr>)
         | (Some e, s) \<Rightarrow> ((Some e, False), es\<lparr>es_isClosed := True, es_body := s\<rparr>)))"

definition rfcb_Close :: "('s \<Rightarrow> werror option \<times> 's) \<Rightarrow> ('s \<Rightarrow> werror option \<times> 's) \<Rightarrow> 's \<Rightarrow> werror option \<times> 's" where
  "rfcb_Close close1 close2 s =
     (case close1 s of
        (Some e, s) \<Rightarrow> (case close2 s of (_, s) \<Rightarrow> (Some e, s))
      | (None, s) \<Rightarrow> close2 s)"

definition discard_Close :: "(nat \<Rightarrow> 's \<Rightarrow> bytes rres \<times> 's) \<Rightarrow> nat \<Rightarrow> ('s \<Rightarrow> werror option \<times> 's) \<Rightarrow> 's \<Rightarrow> werror option \<times> 's" where
  "discard_Close rd k close s = close (snd (ReadAll rd k 8192 [] s))"

text \<open>A client's use of a body: the number of times the function did.\<close>

datatype body_op = ReadOp nat | CloseOp

fun es_run :: "(nat \<Rightarrow> 's \<Rightarrow> bytes rres \<times> 's) \<Rightarrow> ('s \<Rightarrow> werror option \<times> 's) \<Rightarrow> body_op list \<Rightarrow> 's bodyEOFSignal \<Rightarrow> nat" where
  "es_run rd close [] es = 0"
| "es_run rd close (ReadOp n # ops) es =
     (case es_Read rd n es of
        Ret ((x, did), es) \<Rightarrow> of_bool did + es_run rd close ops es
      | _ \<Rightarrow> 0)"
| "es_run rd close (CloseOp # ops) es =
     (case es_Close close es of ((e, did), es) \<Rightarrow> of_bool did + es_run rd close ops es)"

section \<open>Getting a connection\<close>

text \<open>
  \<open>dial\<close> gives the error of the dial or None, \<open>connect\<close> the outcome of the CONNECT exchange
  with a proxy (given the authorization and the target), \<open>tls\<close> the error of the handshake and
  the check of the host name. c is the address of a new connection.
\<close>

definition new_persistConn :: "connectMethod \<Rightarrow> persistConn" where
  "new_persistConn cm = \<lparr>pc_cacheKey = cm_String cm, pc_isProxy = False, pc_mutate = False, pc_broken = False,
     pc_closed = False, pc_numExpected = 0, pc_host = cm_addr cm\<rparr>"

definition start_tls :: "(string \<Rightarrow> werror option) \<Rightarrow> connectMethod \<Rightarrow> nat \<Rightarrow> persistConn \<Rightarrow> transport
    \<Rightarrow> ((werror + nat) \<times> transport) outcome" where
  "start_tls tls cm c x t =
     (case (if cm_targetScheme cm = ''https'' then tls (tlsHost cm) else None) of
        Some e \<Rightarrow> Ret (Inl e, set_conn c x t)
      | None \<Rightarrow> Ret (Inr c, set_conn c x t))"

definition getConn :: "(url \<Rightarrow> string option) \<Rightarrow> (string \<Rightarrow> werror option) \<Rightarrow> (string \<Rightarrow> string \<Rightarrow> werror + (nat \<times> string))
    \<Rightarrow> (string \<Rightarrow> werror option) \<Rightarrow> connectMethod \<Rightarrow> nat \<Rightarrow> transport \<Rightarrow> ((werror + nat) \<times> transport) outcome" where
  "getConn user dial connect tls cm c t =
     (case getIdleConn (cm_String cm) t of
        Panic m \<Rightarrow> Panic m
      | Block \<Rightarrow> Block
      | Ret (Some pc, t) \<Rightarrow> Ret (Inr pc, t)
      | Ret (None, t) \<Rightarrow>
          (case dial (cm_addr cm) of
             Some e \<Rightarrow>
               Ret (Inl (case cm_proxyURL cm of
                   None \<Rightarrow> e
                 | Some u \<Rightarrow> OtherError (''http: error connecting to proxy '' @ url_String u @ '': '' @ error_string e)), t)
           | None \<Rightarrow>
               let pa = proxyAuth user cm; x = new_persistConn cm in
               (case cm_proxyURL cm of
                  None \<Rightarrow> start_tls tls cm c x t
                | Some u \<Rightarrow>
                    if cm_targetScheme cm = ''http'' then
                      start_tls tls cm c (x\<lparr>pc_isProxy := True, pc_mutate := pa \<noteq> []\<rparr>) t
                    else if cm_targetScheme cm = ''https'' then
                      (case connect pa (cm_targetAddr cm) of
                         Inl e \<Rightarrow> Ret (Inl e, set_conn c (x\<lparr>pc_closed := True\<rparr>) t)
                       | Inr (code, status) \<Rightarrow>
                           if code \<noteq> 200 then
                             (case cut (CHR '' '') status of
                                None \<Rightarrow> Panic ''index out of range''
                              | Some (_, msg) \<Rightarrow> Ret (Inl (OtherError msg), set_conn c (x\<lparr>pc_closed := True\<rparr>) t))
                           else start_tls tls cm c x t)
                    else start_tls tls cm c x t)))"

section \<open>The read loop\<close>

text \<open>What roundTrip hands to the loop: the method, whether the request asks to close, the gzip flag.\<close>

record requestAndChan =
  rc_method :: string
  rc_close :: bool
  rc_addedGzip :: bool

record loop_turn =
  lt_resp :: "http_response option"
  lt_err :: "werror option"
  lt_gunzip :: bool
  lt_alive :: bool
  lt_wait :: bool

definition response_read :: "requestAndChan \<Rightarrow> werror + (http_response \<times> bool) \<Rightarrow> werror option \<Rightarrow> nat \<Rightarrow> transport
    \<Rightarrow> (http_response option \<times> werror option \<times> bool) \<times> transport" where
  "response_read rc read gz c t =
     (case read of
        Inl e \<Rightarrow> ((None, Some e, False), pc_close c t)
      | Inr (resp, _) \<Rightarrow>
          if rc_addedGzip rc \<and> rc_method rc \<noteq> ''HEAD'' \<and> resp_ContentLength resp \<noteq> 0
             \<and> hdr_Get (resp_Header resp) ''Content-Encoding'' = ''gzip'' then
            (let resp = resp\<lparr>resp_Header := hdr_Del ''Content-Length'' (hdr_Del ''Content-Encoding'' (resp_Header resp)),
                             resp_ContentLength := -1\<rparr>
             in case gz of
                  Some e \<Rightarrow> ((Some resp, Some e, False), pc_close c t)
                | None \<Rightarrow> ((Some resp, None, True), t))
          else ((Some resp, None, False), t))"

text \<open>
  One turn for a response: with a body to come the loop waits until the body has been read and
  then gives the connection back (\<open>body_done\<close>), without one it gives it back at once.
\<close>

definition readLoop_turn :: "requestAndChan \<Rightarrow> werror + (http_response \<times> bool) \<Rightarrow> werror option \<Rightarrow> nat \<Rightarrow> transport
    \<Rightarrow> (loop_turn \<times> transport) outcome" where
  "readLoop_turn rc read gz c t =
     (case response_read rc read gz c t of
        ((resp, err, gunzip), t) \<Rightarrow>
          let alive = \<not> (err \<noteq> None \<or> (case read of Inl _ \<Rightarrow> False | Inr (_, close) \<Rightarrow> close) \<or> rc_close rc);
              hasBody = (case resp of None \<Rightarrow> False | Some r \<Rightarrow> resp_ContentLength r \<noteq> 0);
              turn = \<lparr>lt_resp = resp, lt_err = err, lt_gunzip = gunzip, lt_alive = alive, lt_wait = alive \<and> hasBody\<rparr>
          in if alive \<and> \<not> hasBody then
               (case putIdleConn c t of
                  Ret (b, t) \<Rightarrow> Ret (turn\<lparr>lt_alive := b\<rparr>, t)
                | Block \<Rightarrow> Block
                | Panic m \<Rightarrow> Panic m)
             else Ret (turn, t))"

definition body_done :: "loop_turn \<Rightarrow> nat \<Rightarrow> transport \<Rightarrow> (loop_turn \<times> transport) outcome" where
  "body_done turn c t = (case putIdleConn c t of
      Ret (b, t) \<Rightarrow> Ret (turn\<lparr>lt_alive := lt_alive turn \<and> b, lt_wait := False\<rparr>, t)
    | Block \<Rightarrow> Block
    | Panic m \<Rightarrow> Panic m)"

text \<open>When something arrives (or the connection ends) with no response expected, it is closed.\<close>

definition readLoop_step :: "requestAndChan \<Rightarrow> werror + (http_response \<times> bool) \<Rightarrow> werror option \<Rightarrow> nat \<Rightarrow> transport
    \<Rightarrow> (loop_turn option \<times> transport) outcome" where
  "readLoop_step rc read gz c t =
     (if pc_numExpected (tr_conns t c) = 0 then Ret (None, pc_close c t)
      else (case readLoop_turn rc read gz c t of
              Ret (turn, t) \<Rightarrow> Ret (Some turn, t)
            | Block \<Rightarrow> Block
            | Panic m \<Rightarrow> Panic m))"

section \<open>Round trips\<close>

text \<open>
  \<open>write\<close> is the writing of the request by net/http (in the form for a proxy or not), \<open>answer\<close>
  what the read loop sends back. The header with Accept-Encoding that roundTrip prepares is
  not part of what is written.
\<close>

definition add_expected :: "int \<Rightarrow> nat \<Rightarrow> transport \<Rightarrow> transport" where
  "add_expected d c t = set_conn c ((tr_conns t c)\<lparr>pc_numExpected := pc_numExpected (tr_conns t c) + d\<rparr>) t"

definition roundTrip :: "(bool \<Rightarrow> http_request \<Rightarrow> werror option)
    \<Rightarrow> (requestAndChan \<Rightarrow> nat \<Rightarrow> transport \<Rightarrow> ((http_response option \<times> werror option) \<times> transport) outcome)
    \<Rightarrow> bool \<Rightarrow> nat \<Rightarrow> http_request \<Rightarrow> transport \<Rightarrow> ((http_response option \<times> werror option) \<times> transport) outcome" where
  "roundTrip write answer close c req t =
     (if pc_mutate (tr_conns t c) then Panic ''mutateHeaderFunc not supported in modified Transport''
      else
        let requestedGzip = (\<not> tr_DisableCompression t \<and> hdr_Get (req_Header req) ''Accept-Encoding'' = []);
            t = add_expected 1 c t
        in case write (pc_isProxy (tr_conns t c)) req of
             Some e \<Rightarrow> Ret ((None, Some e), pc_close c t)
           | None \<Rightarrow>
               (case answer \<lparr>rc_method = req_Method req, rc_close = close, rc_addedGzip = requestedGzip\<rparr> c t of
                  Ret (r, t) \<Rightarrow> Ret (r, add_expected (-1) c t)
                | Block \<Rightarrow> Block
                | Panic m \<Rightarrow> Panic m))"

record roundTripDetails =
  rd_Host :: string
  rd_IsProxy :: bool
  rd_Error :: "werror option"

text \<open>The choice between a registered protocol and a connection of the pool or a new one.\<close>

definition DetailedRoundTrip :: "(string \<Rightarrow> (http_request \<Rightarrow> transport \<Rightarrow>
      ((roundTripDetails option \<times> http_response option \<times> werror option) \<times> transport) outcome) option)
    \<Rightarrow> (url \<Rightarrow> werror + url option) option
    \<Rightarrow> (connectMethod \<Rightarrow> transport \<Rightarrow> ((werror + nat) \<times> transport) outcome)
    \<Rightarrow> (nat \<Rightarrow> http_request \<Rightarrow> transport \<Rightarrow> ((http_response option \<times> werror option) \<times> transport) outcome)
    \<Rightarrow> http_request \<Rightarrow> transport
    \<Rightarrow> ((roundTripDetails option \<times> http_response option \<times> werror option) \<times> transport) outcome" where
  "DetailedRoundTrip altProto proxy get trip req t =
     (let scheme = url_Scheme (req_URL req) in
      if scheme \<noteq> ''http'' \<and> scheme \<noteq> ''https'' then
        (case altProto scheme of
           None \<Rightarrow> Ret ((None, None, Some (OtherError (''unsupported protocol scheme '' @ scheme))), t)
         | Some rt \<Rightarrow> rt req t)
      else
        (case connectMethodForRequest proxy (req_URL req) of
           Inl e \<Rightarrow> Ret ((None, None, Some e), t)
         | Inr cm \<Rightarrow>
             (case get cm t of
                Panic m \<Rightarrow> Panic m
              | Block \<Rightarrow> Block
              | Ret (Inl e, t) \<Rightarrow> Ret ((None, None, Some e), t)
              | Ret (Inr c, t) \<Rightarrow>
                  (case trip c req t of
                     Panic m \<Rightarrow> Panic m
                   | Block \<Rightarrow> Block
                   | Ret ((resp, err), t) \<Rightarrow>
                       Ret ((Some \<lparr>rd_Host = pc_host (tr_conns t c), rd_IsProxy = pc_isProxy (tr_conns t c), rd_Error = err\<rparr>,
                         resp, err), t)))))"

definition RoundTrip :: "((roundTripDetails option \<times> http_response option \<times> werror option) \<times> transport) outcome
    \<Rightarrow> ((http_response option \<times> werror option) \<times> transport) outcome" where
  "RoundTrip r = (case r of
      Ret ((_, resp, err), t) \<Rightarrow> Ret ((resp, err), t)
    | Block \<Rightarrow> Block
    | Panic m \<Rightarrow> Panic m)"

section \<open>Properties\<close>

lemma es_run_none: "\<not> es_fn es \<Longrightarrow> es_run rd close ops es = 0"
proof (induction rd close ops es rule: es_run.induct)
  case (2 rd close n ops es)
  then show ?case by (auto simp: es_Read_def split: prod.splits rres.splits if_splits)
next
  case (3 rd close ops es)
  then show ?case by (auto simp: es_Close_def split: prod.splits option.splits if_splits)
qed simp

text \<open>
  The function of a body that gives the connection back runs at most once, however the
  client reads and closes the body and whatever the reader under it does.
\<close>

theorem body_signal_once:
  "es_run rd close ops es \<le> 1"
proof (induction rd close ops es rule: es_run.induct)
  case (2 rd close n ops es)
  then show ?case by (auto simp: es_Read_def es_run_none split: prod.splits rres.splits if_splits) blast
next
  case (3 rd close ops es)
  then show ?case by (auto simp: es_Close_def es_run_none split: prod.splits option.splits if_splits) blast
qed simp

text \<open>
  A connection given back is the next one its key gets: after putIdleConn has taken it,
  getIdleConn for its key returns it, and the pool is as it was before.
\<close>

theorem put_then_get:
  assumes "putIdleConn c t = Ret (True, t1)" and "idle_at t (pc_cacheKey (tr_conns t c)) \<noteq> Some []"
  shows "\<exists>t2. getIdleConn (pc_cacheKey (tr_conns t c)) t1 = Ret (Some c, t2) \<and> tr_conns t2 = tr_conns t \<and>
    (\<forall>k. idle_at t2 k = idle_at t k)"
proof -
  let ?k = "pc_cacheKey (tr_conns t c)"
  obtain m where m: "tr_idle t = Some m" "t1 = t\<lparr>tr_idle := Some (m(?k \<mapsto> idle_list t ?k @ [c]))\<rparr>" "\<not> isBroken c t"
    using assms(1) unfolding putIdleConn_def Let_def by (simp split: if_splits option.splits)
  then have "\<not> isBroken c t1" by (simp add: isBroken_def)
  then have "getIdleConn ?k t1 = Ret (Some c, t1\<lparr>tr_idle := Some (if idle_list t ?k = [] then m(?k := None) else m(?k \<mapsto> idle_list t ?k))\<rparr>)"
    by (simp add: getIdleConn_def m(2))
  moreover have "idle_list t ?k = [] \<longleftrightarrow> m ?k = None" "m ?k = Some l \<Longrightarrow> idle_list t ?k = l" for l
    using assms(2) m(1) by (auto simp: idle_list_def idle_at_def split: option.splits)
  ultimately show ?thesis using m(1,2) by (auto simp: idle_at_def)
qed

theorem put_then_get_witness:
  "\<exists>t2. getIdleConn ''k'' (demo_transport\<lparr>tr_idle := Some [''k'' \<mapsto> [3]]\<rparr>) = Ret (Some 3, t2) \<and>
    tr_conns t2 = tr_conns demo_transport \<and> (\<forall>k. idle_at t2 k = None)"
proof -
  let ?t = "demo_transport\<lparr>tr_idle := Some Map.empty\<rparr>"
  have "putIdleConn 3 ?t = Ret (True, ?t\<lparr>tr_idle := Some [''k'' \<mapsto> [3]]\<rparr>)"
    by (simp add: putIdleConn_def Let_def demo_transport_def isBroken_def idle_list_def idle_at_def max_idle_def
        DefaultMaxIdleConnsPerHost_def)
  from put_then_get [OF this] show ?thesis by (simp add: idle_at_def demo_transport_def)
qed

text \<open>
  A connection on which reading a response failed does not come back: the turn reports the
  error, the connection is closed and marked broken, and the pool has not got it.
\<close>

theorem failed_turn_closes:
  assumes "readLoop_turn rc read gz c t = Ret (turn, t')" and "lt_err turn \<noteq> None"
  shows "isBroken c t' \<and> pc_closed (tr_conns t' c) \<and> \<not> lt_alive turn \<and> \<not> lt_wait turn \<and> (\<forall>k. idle_at t' k = idle_at t k)"
  using assms
  by (auto simp: readLoop_turn_def response_read_def Let_def isBroken_def split: sum.splits prod.splits option.splits
      if_splits outcome.splits) (simp_all add: pc_close_def set_conn_def)

theorem failed_turn_closes_witness:
  "isBroken 3 (pc_close 3 demo_transport) \<and> pc_closed (tr_conns (pc_close 3 demo_transport) 3)"
proof -
  have "readLoop_turn \<lparr>rc_method = ''GET'', rc_close = False, rc_addedGzip = False\<rparr> (Inl io_ErrUnexpectedEOF) None 3 demo_transport =
      Ret (\<lparr>lt_resp = None, lt_err = Some io_ErrUnexpectedEOF, lt_gunzip = False, lt_alive = False, lt_wait = False\<rparr>,
        pc_close 3 demo_transport)"
    by (simp add: readLoop_turn_def response_read_def)
  from failed_turn_closes [OF this] show ?thesis by simp
qed

text \<open>
  A response that says the connection ends leaves the connection open: the loop ends with
  the transport as it was, so the connection is neither closed nor given to the pool, and
  nothing is left that would close it.
\<close>

theorem closing_response_leaks:
  assumes "\<not> rc_addedGzip rc"
  shows "\<exists>turn. readLoop_turn rc (Inr (resp, True)) gz c t = Ret (turn, t) \<and> \<not> lt_alive turn \<and> \<not> lt_wait turn \<and>
    lt_resp turn = Some resp"
  using assms by (simp add: readLoop_turn_def response_read_def)

theorem closing_response_leaks_witness:
  "\<exists>turn. readLoop_turn \<lparr>rc_method = ''GET'', rc_close = False, rc_addedGzip = False\<rparr>
      (Inr (\<lparr>resp_StatusCode = 200, resp_Status = ''200 OK'', resp_Header = [], resp_Body = no_body, resp_ContentLength = 0\<rparr>, True))
      None 3 demo_transport = Ret (turn, demo_transport) \<and> \<not> lt_alive turn \<and> \<not> lt_wait turn \<and>
    lt_resp turn = Some \<lparr>resp_StatusCode = 200, resp_Status = ''200 OK'', resp_Header = [], resp_Body = no_body, resp_ContentLength = 0\<rparr>"
  by (rule closing_response_leaks) simp

text \<open>
  A TLS handshake or host name check that fails leaves the dialled connection open: the
  error is returned and the connection is not closed.
\<close>

theorem failed_tls_leaks:
  assumes "getIdleConn (cm_String cm) t = Ret (None, t1)" and "dial (cm_addr cm) = None" and "cm_proxyURL cm = None"
    and "cm_targetScheme cm = ''https''" and "tls (tlsHost cm) = Some e"
  shows "\<exists>t2. getConn user dial connect tls cm c t = Ret (Inl e, t2) \<and> \<not> pc_closed (tr_conns t2 c)"
  using assms by (simp add: getConn_def start_tls_def new_persistConn_def) (simp add: set_conn_def)

definition demo_https :: connectMethod where
  "demo_https = \<lparr>cm_proxyURL = None, cm_targetScheme = ''https'', cm_targetAddr = ''a:443''\<rparr>"

theorem failed_tls_leaks_witness:
  "\<exists>t2. getConn (\<lambda>u. None) (\<lambda>a. None) (\<lambda>p a. Inl io_EOF) (\<lambda>h. Some io_EOF) demo_https 5 demo_transport = Ret (Inl io_EOF, t2) \<and>
    \<not> pc_closed (tr_conns t2 5)"
proof -
  have "getIdleConn (cm_String demo_https) demo_transport = Ret (None, demo_transport\<lparr>tr_idle := Some Map.empty\<rparr>)"
    by (simp add: getIdleConn_def demo_transport_def)
  from failed_tls_leaks [OF this] show ?thesis by (simp add: demo_https_def)
qed

text \<open>
  A proxy URL with user information stops the program at the first plain HTTP request: the
  connection gets the function that would add the authorization, and roundTrip panics on any
  connection that has it.
\<close>

theorem proxy_credentials_panic:
  assumes "getIdleConn (cm_String cm) t = Ret (None, t1)" and "dial (cm_addr cm) = None" and "cm_proxyURL cm = Some u"
    and "cm_targetScheme cm = ''http''" and "user u = Some cred"
  shows "\<exists>t2. getConn user dial connect tls cm c t = Ret (Inr c, t2) \<and> is_panic (roundTrip write answer close c req t2)"
  using assms
  by (simp add: getConn_def start_tls_def new_persistConn_def proxyAuth_def) (simp add: roundTrip_def set_conn_def)

theorem proxy_credentials_panic_witness:
  "\<exists>t2. getConn (\<lambda>u. Some ''joe:pw'') (\<lambda>a. None) (\<lambda>p a. Inl io_EOF) (\<lambda>h. None)
      ((demo_method ''x'')\<lparr>cm_targetScheme := ''http''\<rparr>) 5 demo_transport = Ret (Inr 5, t2) \<and>
    is_panic (roundTrip (\<lambda>p r. None) (\<lambda>rc c t. Block) False 5 req t2)"
proof -
  have "getIdleConn (cm_String ((demo_method ''x'')\<lparr>cm_targetScheme := ''http''\<rparr>)) demo_transport =
      Ret (None, demo_transport\<lparr>tr_idle := Some Map.empty\<rparr>)"
    by (simp add: getIdleConn_def demo_transport_def)
  from proxy_credentials_panic [OF this] show ?thesis by (simp add: demo_method_def)
qed

end
