(* ===== verification/Tr_Run.thy ===== *)
theory Tr_Run
  imports Tr_Loop
begin

text \<open>
  goproxy/transport as it runs: the goroutines of the requests (getConn and roundTrip), the
  read loops of the connections and the clients that read response bodies, as one transition
  system over the shared transport. A step is what a goroutine does between two points where
  another can come in between: a critical section, a channel operation, a call to the network.
  What the network does is unconstrained.
\<close>

section \<open>The goroutines\<close>

text \<open>
  Where a request is: connecting, with a connection, with its response counted and being
  written, handed to the read loop, answered, and returned from roundTrip.
\<close>

datatype trip_pc =
    TInit
  | TDial string
  | TGot nat
  | TWrite nat
  | TWait nat
  | TReplied nat
  | TDone

text \<open>
  Where a read loop is: at Peek and at the receive of a request (with the request whose body is
  \<open>lastbody\<close>), before ReadResponse, before the answer, at the receive from waitForBodyRead,
  woken from it with the value of \<open>alive\<close>, and returned.
\<close>

datatype loop_pc =
    LNone
  | LPeek "nat option"
  | LTake "nat option"
  | LRead nat requestAndChan
  | LReply nat loop_turn
  | LBody nat
  | LWoken bool nat
  | LEnd

text \<open>
  \<open>rn_queue\<close> is the channel reqch of a connection, with the request that waits for the answer;
  \<open>rn_body\<close> the connection that the signal of a request's body gives back, while it is armed.
  \<open>rn_busy\<close> and \<open>rn_next\<close> are those of the pool system.
\<close>

record run =
  rn_t :: transport
  rn_trip :: "nat \<Rightarrow> trip_pc"
  rn_loop :: "nat \<Rightarrow> loop_pc"
  rn_queue :: "nat \<Rightarrow> (nat \<times> requestAndChan) list"
  rn_body :: "nat \<Rightarrow> nat option"
  rn_busy :: "nat set"
  rn_next :: nat

definition at_trip :: "nat \<Rightarrow> trip_pc \<Rightarrow> run \<Rightarrow> run" where
  "at_trip r p s = s\<lparr>rn_trip := (rn_trip s)(r := p)\<rparr>"

definition at_loop :: "nat \<Rightarrow> loop_pc \<Rightarrow> run \<Rightarrow> run" where
  "at_loop c p s = s\<lparr>rn_loop := (rn_loop s)(c := p)\<rparr>"

lemmas run_defs = at_trip_def at_loop_def

inductive run_start :: "run \<Rightarrow> bool" where
  "tr_idle t = None \<Longrightarrow> run_start \<lparr>rn_t = t, rn_trip = (\<lambda>r. TInit), rn_loop = (\<lambda>c. LNone), rn_queue = (\<lambda>c. []),
    rn_body = (\<lambda>r. None), rn_busy = {}, rn_next = 0\<rparr>"

text \<open>
  \<open>written\<close> is also the step of a request on a closed connection: Request.Write fills a
  bufio.Writer, and the error of its Flush is dropped. \<open>taken\<close> closes the body of the last
  response first; if its signal were still armed, the loop would send to itself and stop there.
\<close>

inductive run_step :: "run \<Rightarrow> run \<Rightarrow> bool" where
  got_idle: "rn_trip s r = TInit \<Longrightarrow> getIdleConn key (rn_t s) = Ret (Some c, t) \<Longrightarrow>
    run_step s (at_trip r (TGot c) (s\<lparr>rn_t := t, rn_busy := insert c (rn_busy s)\<rparr>))"
| none_idle: "rn_trip s r = TInit \<Longrightarrow> getIdleConn key (rn_t s) = Ret (None, t) \<Longrightarrow>
    run_step s (at_trip r (TDial key) (s\<lparr>rn_t := t\<rparr>))"
| no_dial: "rn_trip s r = TDial key \<Longrightarrow> run_step s (at_trip r TDone s)"
| dial: "rn_trip s r = TDial (pc_cacheKey x) \<Longrightarrow> \<not> pc_broken x \<Longrightarrow> pc_numExpected x = 0 \<Longrightarrow> c = rn_next s \<Longrightarrow>
    run_step s (at_trip r (TGot c) (at_loop c (LPeek None)
      (s\<lparr>rn_t := set_conn c x (rn_t s), rn_busy := insert c (rn_busy s), rn_next := Suc c\<rparr>)))"
| counted: "rn_trip s r = TGot c \<Longrightarrow> \<not> pc_mutate (tr_conns (rn_t s) c) \<Longrightarrow>
    run_step s (at_trip r (TWrite c) (s\<lparr>rn_t := add_expected 1 c (rn_t s)\<rparr>))"
| written: "rn_trip s r = TWrite c \<Longrightarrow> length (rn_queue s c) < 50 \<Longrightarrow>
    run_step s (at_trip r (TWait c) (s\<lparr>rn_queue := (rn_queue s)(c := rn_queue s c @ [(r, rc)])\<rparr>))"
| not_written: "rn_trip s r = TWrite c \<Longrightarrow>
    run_step s (at_trip r TDone (s\<lparr>rn_t := pc_close c (rn_t s)\<rparr>))"
| returned: "rn_trip s r = TReplied c \<Longrightarrow>
    run_step s (at_trip r TDone (s\<lparr>rn_t := add_expected (-1) c (rn_t s)\<rparr>))"
| unexpected: "rn_loop s c = LPeek l \<Longrightarrow> pc_numExpected (tr_conns (rn_t s) c) = 0 \<Longrightarrow>
    run_step s (at_loop c LEnd (s\<lparr>rn_t := pc_close c (rn_t s)\<rparr>))"
| peeked: "rn_loop s c = LPeek l \<Longrightarrow> pc_numExpected (tr_conns (rn_t s) c) \<noteq> 0 \<Longrightarrow>
    run_step s (at_loop c (LTake l) s)"
| taken: "rn_loop s c = LTake l \<Longrightarrow> rn_queue s c = (r, rc) # q \<Longrightarrow> \<forall>b. l = Some b \<longrightarrow> rn_body s b = None \<Longrightarrow>
    run_step s (at_loop c (LRead r rc) (s\<lparr>rn_queue := (rn_queue s)(c := q)\<rparr>))"
| turned: "rn_loop s c = LRead r rc \<Longrightarrow> readLoop_turn rc read gz c (rn_t s) = Ret (turn, t) \<Longrightarrow>
    run_step s (at_loop c (LReply r turn) (s\<lparr>rn_t := t,
      rn_body := (if lt_wait turn then (rn_body s)(r \<mapsto> c) else rn_body s),
      rn_busy := (if lt_alive turn \<and> \<not> lt_wait turn then rn_busy s - {c} else rn_busy s)\<rparr>))"
| replied: "rn_loop s c = LReply r turn \<Longrightarrow> rn_trip s r = TWait c \<Longrightarrow>
    run_step s (at_trip r (TReplied c)
      (at_loop c (if lt_wait turn then LBody r else if lt_alive turn then LPeek None else LEnd) s))"
| body_end: "rn_body s r = Some c \<Longrightarrow> rn_loop s c = LBody r \<Longrightarrow> putIdleConn c (rn_t s) = Ret (b, t) \<Longrightarrow>
    run_step s (at_loop c (LWoken b r) (s\<lparr>rn_t := t, rn_body := (rn_body s)(r := None),
      rn_busy := (if b then rn_busy s - {c} else rn_busy s)\<rparr>))"
| woken: "rn_loop s c = LWoken b r \<Longrightarrow>
    run_step s (at_loop c (if b then LPeek (Some r) else LEnd) s)"
| closing_idle: "run_step s (s\<lparr>rn_t := CloseIdleConnections (rn_t s)\<rparr>)"

section \<open>The use of a connection\<close>

text \<open>
  Who has the connection, between being handed out and given back: the request, the queue, the
  read loop, or the body of the response.
\<close>

datatype holder = InTrip nat | InQueue nat | InLoop | InBody nat

fun holds :: "run \<Rightarrow> nat \<Rightarrow> holder \<Rightarrow> bool" where
  "holds s c (InTrip r) = (rn_trip s r = TGot c \<or> rn_trip s r = TWrite c)"
| "holds s c (InQueue r) = (r \<in> fst ` set (rn_queue s c))"
| "holds s c InLoop = (\<exists>r rc. rn_loop s c = LRead r rc)"
| "holds s c (InBody r) = (rn_body s r = Some c)"

definition pool_of :: "run \<Rightarrow> pool_state" where
  "pool_of s = \<lparr>ps_t = rn_t s, ps_busy = rn_busy s, ps_next = rn_next s\<rparr>"


lemmas holds_defs = run_defs fun_upd_apply

text \<open>
  A connection has at most one holder, and who is held is busy; a loop that has decided to
  stop has a connection that nobody holds.
\<close>

definition dead :: "loop_pc \<Rightarrow> bool" where
  "dead l \<longleftrightarrow> (case l of LReply r turn \<Rightarrow> \<not> lt_alive turn | LWoken b r \<Rightarrow> \<not> b | _ \<Rightarrow> False)"

definition use_ok :: "run \<Rightarrow> bool" where
  "use_ok s \<longleftrightarrow>
     (\<forall>c x. holds s c x \<longrightarrow> c \<in> rn_busy s \<and> (\<forall>y. holds s c y \<longrightarrow> y = x)) \<and>
     (\<forall>c. distinct (map fst (rn_queue s c))) \<and>
     (\<forall>c. dead (rn_loop s c) \<longrightarrow> c \<in> rn_busy s \<and> (\<forall>x. \<not> holds s c x))"

text \<open>Who waits for an answer is where the answer comes from; who has a connection has an old one.\<close>

definition wait_ok :: "run \<Rightarrow> bool" where
  "wait_ok s \<longleftrightarrow>
     (\<forall>c r rc. (r, rc) \<in> set (rn_queue s c) \<longrightarrow> rn_trip s r = TWait c) \<and>
     (\<forall>c r rc. rn_loop s c = LRead r rc \<longrightarrow> rn_trip s r = TWait c) \<and>
     (\<forall>c r turn. rn_loop s c = LReply r turn \<longrightarrow> rn_trip s r = TWait c \<and> r \<notin> fst ` set (rn_queue s c)) \<and>
     (\<forall>c r. rn_loop s c = LBody r \<longrightarrow> rn_trip s r = TReplied c \<or> rn_trip s r = TDone) \<and>
     (\<forall>r c. rn_trip s r \<in> {TGot c, TWrite c, TWait c, TReplied c} \<longrightarrow> c < rn_next s) \<and>
     (\<forall>c. rn_next s \<le> c \<longrightarrow> rn_loop s c = LNone \<and> rn_queue s c = []) \<and>
     (\<forall>r key. rn_trip s r = TDial key \<longrightarrow> tr_idle (rn_t s) \<noteq> None)"

text \<open>
  The signal of a body is armed exactly while the loop waits for it; the one of \<open>lastbody\<close>
  has been given.
\<close>

definition last_of :: "loop_pc \<Rightarrow> nat option" where
  "last_of l = (case l of LPeek b \<Rightarrow> b | LTake b \<Rightarrow> b | LWoken b r \<Rightarrow> Some r | _ \<Rightarrow> None)"

definition body_ok :: "run \<Rightarrow> bool" where
  "body_ok s \<longleftrightarrow>
     (\<forall>r c. rn_body s r = Some c \<longleftrightarrow>
       rn_loop s c = LBody r \<or> (\<exists>turn. rn_loop s c = LReply r turn \<and> lt_wait turn)) \<and>
     (\<forall>c r turn. rn_loop s c = LReply r turn \<longrightarrow> lt_wait turn \<longrightarrow> lt_alive turn) \<and>
     (\<forall>c r. last_of (rn_loop s c) = Some r \<longrightarrow> rn_body s r = None \<and> (rn_trip s r = TReplied c \<or> rn_trip s r = TDone))"

section \<open>What the steps do to the pool\<close>

lemma readLoop_turn_cases:
  assumes "readLoop_turn rc read gz c t = Ret (turn, t')"
  shows "lt_wait turn \<longrightarrow> lt_alive turn" and
    "if lt_alive turn \<and> \<not> lt_wait turn then putIdleConn c t = Ret (True, t') else t' = t \<or> t' = pc_close c t"
proof -
  have p: "t' = t \<or> t' = pc_close c t" if "putIdleConn c t = Ret (False, t')"
    using that unfolding putIdleConn_def Let_def by (simp split: if_splits option.splits)
  obtain resp err gunzip t1 where r: "response_read rc read gz c t = ((resp, err, gunzip), t1)" by (metis prod.exhaust)
  have t1: "t1 = t \<or> t1 = pc_close c t \<and> err \<noteq> None"
    using r by (auto simp: response_read_def Let_def split: sum.splits if_splits option.splits)
  show "lt_wait turn \<longrightarrow> lt_alive turn"
    using assms r by (auto simp: readLoop_turn_def Let_def split: if_splits outcome.splits)
  show "if lt_alive turn \<and> \<not> lt_wait turn then putIdleConn c t = Ret (True, t') else t' = t \<or> t' = pc_close c t"
    using assms r t1 p
    by (auto simp: readLoop_turn_def Let_def split: if_splits outcome.splits prod.splits)
qed

lemma putIdleConn_False: "putIdleConn c t = Ret (False, t') \<Longrightarrow> t' = t \<or> t' = pc_close c t"
  unfolding putIdleConn_def Let_def by (simp split: if_splits option.splits)


lemma loop_started: "wait_ok s \<Longrightarrow> rn_loop s c \<noteq> LNone \<Longrightarrow> c < rn_next s"
  unfolding wait_ok_def by (meson not_le)

text \<open>Every step is a step of the pool system, or none.\<close>

lemma run_step_pool:
  assumes "run_step s s'" and use: "use_ok s" and wait: "wait_ok s" and body: "body_ok s"
  shows "pool_of s' = pool_of s \<or> pool_step (pool_of s) (pool_of s')"
  using assms(1)
proof cases
  case (got_idle r key c t)
  from pool_step.reuse [of key "pool_of s" c t] got_idle show ?thesis by (simp add: pool_of_def run_defs)
next
  case (none_idle r key t)
  from pool_step.missed [of key "pool_of s" t] none_idle show ?thesis by (simp add: pool_of_def run_defs)
next
  case (dial r x c)
  from pool_step.dialled [of "pool_of s" x] dial wait show ?thesis by (auto simp: pool_of_def run_defs wait_ok_def)
next
  case (counted r c)
  from pool_step.used [of _ "pool_of s" c] counted show ?thesis by (simp add: pool_of_def run_defs add_expected_def)
next
  case (not_written r c)
  from pool_step.lost [of c "pool_of s"] not_written wait show ?thesis by (auto simp: pool_of_def run_defs wait_ok_def)
next
  case (returned r c)
  from pool_step.used [of _ "pool_of s" c] returned show ?thesis by (simp add: pool_of_def run_defs add_expected_def)
next
  case (unexpected c l)
  then have "c < rn_next s" by (intro loop_started [OF wait]) simp
  from pool_step.lost [of c "pool_of s"] this unexpected show ?thesis by (simp add: pool_of_def run_defs)
next
  case (turned c r rc read gz turn t)
  have "holds s c InLoop" using turned(2) by simp
  then have c: "c \<in> rn_busy s" using use unfolding use_ok_def by blast
  have n: "c < rn_next s" by (rule loop_started [OF wait]) (simp add: turned(2))
  note tc = readLoop_turn_cases [OF turned(3)]
  show ?thesis
  proof (cases "lt_alive turn \<and> \<not> lt_wait turn")
    case True
    with tc(2) have "putIdleConn c (ps_t (pool_of s)) = Ret (True, t)" by (simp add: pool_of_def)
    from pool_step.done_with [OF _ this] c True turned(1) show ?thesis
      by (simp add: pool_of_def run_defs)
  next
    case False
    with tc(2) have "t = rn_t s \<or> t = pc_close c (rn_t s)" by auto
    with pool_step.lost [of c "pool_of s"] n turned(1) False show ?thesis by (auto simp: pool_of_def run_defs)
  qed
next
  case (body_end r c b t)
  have c: "c \<in> rn_busy s" using use body_end(2) holds.simps(4) unfolding use_ok_def by metis
  have n: "c < rn_next s" by (rule loop_started [OF wait]) (simp add: body_end(3))
  show ?thesis
  proof (cases b)
    case True
    with body_end have "putIdleConn c (ps_t (pool_of s)) = Ret (True, t)" by (simp add: pool_of_def)
    from pool_step.done_with [OF _ this] c True body_end(1) show ?thesis by (simp add: pool_of_def run_defs)
  next
    case False
    with body_end(4) putIdleConn_False have "t = rn_t s \<or> t = pc_close c (rn_t s)" by simp
    with pool_step.lost [of c "pool_of s"] n body_end(1) False show ?thesis by (auto simp: pool_of_def run_defs)
  qed
next
  case closing_idle
  from pool_step.close_idle [of "pool_of s"] closing_idle show ?thesis by (simp add: pool_of_def)
qed (simp_all add: pool_of_def run_defs)


section \<open>The invariant is kept\<close>

lemma use_unique:
  assumes "use_ok s" and "holds s c a"
  shows "c \<in> rn_busy s" and "\<not> dead (rn_loop s c)" and
    "rn_trip s r = TGot c \<Longrightarrow> a = InTrip r" and "rn_trip s r = TWrite c \<Longrightarrow> a = InTrip r" and
    "(r, rc) \<in> set (rn_queue s c) \<Longrightarrow> a = InQueue r" and "rn_loop s c = LRead r rc \<Longrightarrow> a = InLoop" and
    "rn_body s r = Some c \<Longrightarrow> a = InBody r"
proof -
  have u: "a = x" if "holds s c x" for x using assms that unfolding use_ok_def by blast
  show "c \<in> rn_busy s" "\<not> dead (rn_loop s c)" using assms unfolding use_ok_def by blast+
  show "a = InTrip r" if "rn_trip s r = TGot c" by (rule u) (simp add: that)
  show "a = InTrip r" if "rn_trip s r = TWrite c" by (rule u) (simp add: that)
  show "a = InQueue r" if "(r, rc) \<in> set (rn_queue s c)" by (rule u) (use that in force)
  show "a = InLoop" if "rn_loop s c = LRead r rc" by (rule u) (simp add: that)
  show "a = InBody r" if "rn_body s r = Some c" by (rule u) (simp add: that)
qed

lemma no_queue:
  assumes "use_ok s" and "\<exists>r rc. rn_loop s c = LRead r rc"
  shows "rn_queue s c = []"
proof (rule ccontr)
  assume "rn_queue s c \<noteq> []"
  then obtain r rc q where "rn_queue s c = (r, rc) # q" by (metis neq_Nil_conv surj_pair)
  with use_unique(5) [OF assms(1), of c InLoop r rc] assms(2) show False by simp
qed

text \<open>A step that concerns one connection, which afterwards only b can hold.\<close>

lemma use_step:
  assumes use: "use_ok s"
    and other: "\<And>d r. d \<noteq> c \<Longrightarrow> rn_trip s' r = TGot d \<or> rn_trip s' r = TWrite d \<Longrightarrow> rn_trip s r = TGot d \<or> rn_trip s r = TWrite d"
      "\<And>d. d \<noteq> c \<Longrightarrow> rn_queue s' d = rn_queue s d" "\<And>d. d \<noteq> c \<Longrightarrow> rn_loop s' d = rn_loop s d"
      "\<And>d r. d \<noteq> c \<Longrightarrow> rn_body s' r = Some d \<Longrightarrow> rn_body s r = Some d"
      "\<And>d. d \<noteq> c \<Longrightarrow> d \<in> rn_busy s \<Longrightarrow> d \<in> rn_busy s'"
    and mine: "\<And>r. rn_trip s' r = TGot c \<or> rn_trip s' r = TWrite c \<Longrightarrow> b = Some (InTrip r)"
      "\<And>r rc. (r, rc) \<in> set (rn_queue s' c) \<Longrightarrow> b = Some (InQueue r)"
      "\<And>r rc. rn_loop s' c = LRead r rc \<Longrightarrow> b = Some InLoop"
      "\<And>r. rn_body s' r = Some c \<Longrightarrow> b = Some (InBody r)"
      "distinct (map fst (rn_queue s' c))"
      "b \<noteq> None \<or> dead (rn_loop s' c) \<Longrightarrow> c \<in> rn_busy s'" "b \<noteq> None \<Longrightarrow> \<not> dead (rn_loop s' c)"
  shows "use_ok s'"
proof -
  have same: "holds s d x" if "holds s' d x" "d \<noteq> c" for d x
    using that other(1-4) by (cases x) auto
  have only: "b = Some x" if "holds s' c x" for x
    using that mine(1-4) by (cases x) auto
  have "d \<in> rn_busy s' \<and> (\<forall>y. holds s' d y \<longrightarrow> y = x)" if h: "holds s' d x" for d x
  proof (cases "d = c")
    case True
    with h only mine(6) show ?thesis by (metis option.distinct(1) option.inject)
  next
    case False
    with h same use other(5) show ?thesis unfolding use_ok_def by blast
  qed
  moreover have "distinct (map fst (rn_queue s' d))" for d
    using use mine(5) other(2) unfolding use_ok_def by (cases "d = c") auto
  moreover have "d \<in> rn_busy s' \<and> (\<forall>x. \<not> holds s' d x)" if h: "dead (rn_loop s' d)" for d
  proof (cases "d = c")
    case True
    with h only mine(6,7) show ?thesis by blast
  next
    case False
    with h other(3) have "dead (rn_loop s d)" by simp
    with use False same other(5) show ?thesis unfolding use_ok_def by blast
  qed
  ultimately show ?thesis unfolding use_ok_def by blast
qed

lemma free_connection:
  assumes "use_ok s" and "c \<notin> rn_busy s"
  shows "rn_trip s r \<noteq> TGot c" "rn_trip s r \<noteq> TWrite c" "(r, rc) \<notin> set (rn_queue s c)" "rn_loop s c \<noteq> LRead r rc"
    "rn_body s r \<noteq> Some c" "\<not> dead (rn_loop s c)"
  using assms use_unique(1) [OF assms(1), of c] unfolding use_ok_def
  by (metis holds.simps(1), metis holds.simps(1), metis fst_conv holds.simps(2) image_eqI, metis holds.simps(3),
    metis holds.simps(4), blast)

text \<open>A step that leaves all holders as they are, or has a connection of none go on.\<close>

lemma use_same:
  assumes "use_ok s" and "rn_busy s' = rn_busy s" and "rn_queue s' = rn_queue s" and "rn_body s' = rn_body s"
    and "\<And>d r. rn_trip s' r = TGot d \<or> rn_trip s' r = TWrite d \<Longrightarrow> rn_trip s r = TGot d \<or> rn_trip s r = TWrite d"
    and "\<And>d. rn_loop s' d = rn_loop s d \<or> (\<forall>r rc. rn_loop s' d \<noteq> LRead r rc) \<and> (dead (rn_loop s' d) \<longrightarrow> dead (rn_loop s d))"
  shows "use_ok s'"
proof -
  have h: "holds s d x" if "holds s' d x" for d x
    using that assms(3-6) by (cases x) (auto, metis)
  have d: "dead (rn_loop s d)" if "dead (rn_loop s' d)" for d using that assms(6) [of d] by auto
  from h d assms(1-3) show ?thesis unfolding use_ok_def by metis
qed

lemma use_ok_step:
  assumes step: "run_step s s'" and use: "use_ok s" and wait: "wait_ok s" and body: "body_ok s" and pool: "pool_ok (pool_of s)"
  shows "use_ok s'"
  using step
proof cases
  case (got_idle r key c t)
  have "c \<notin> rn_busy s" using getIdleConn_ok [OF pool, of key "Some c" t] got_idle(3) by (simp add: pool_of_def)
  note n = free_connection [OF use this]
  then have q: "rn_queue s c = []" by (metis list.set_intros(1) neq_Nil_conv surj_pair)
  show ?thesis unfolding got_idle(1)
    by (rule use_step [OF use, where c = c and b = "Some (InTrip r)"])
      (use n q in \<open>simp_all add: run_defs split: if_splits\<close>)
next
  case (none_idle r key t)
  then show ?thesis by (intro use_same [OF use]) (auto simp: run_defs split: if_splits)
next
  case (no_dial r key)
  then show ?thesis by (intro use_same [OF use]) (auto simp: run_defs split: if_splits)
next
  case (dial r x c)
  have "c \<notin> rn_busy s" using pool dial(5) by (auto simp: pool_ok_def pool_of_def)
  note n = free_connection [OF use this]
  have q: "rn_queue s c = []" using wait dial(5) by (simp add: wait_ok_def)
  show ?thesis unfolding dial(1)
    by (rule use_step [OF use, where c = c and b = "Some (InTrip r)"])
      (use n q in \<open>simp_all add: run_defs dead_def split: if_splits\<close>)
next
  case (counted r c)
  have "holds s c (InTrip r)" using counted(2) by simp
  note u = use_unique [OF use this]
  show ?thesis unfolding counted(1)
    by (rule use_step [OF use, where c = c and b = "Some (InTrip r)"])
      (use u use in \<open>auto simp: run_defs use_ok_def split: if_splits\<close>)
next
  case (written r c rc)
  have "holds s c (InTrip r)" using written(2) by simp
  note u = use_unique [OF use this]
  have q: "rn_queue s c = []" using u(5) by (metis holder.distinct(1) list.set_intros(1) neq_Nil_conv surj_pair)
  show ?thesis unfolding written(1)
    by (rule use_step [OF use, where c = c and b = "Some (InQueue r)"])
      (use u q in \<open>auto simp: run_defs split: if_splits\<close>)
next
  case (not_written r c)
  then show ?thesis by (intro use_same [OF use]) (auto simp: run_defs split: if_splits)
next
  case (returned r c)
  then show ?thesis by (intro use_same [OF use]) (auto simp: run_defs split: if_splits)
next
  case (unexpected c l)
  then show ?thesis by (intro use_same [OF use]) (auto simp: run_defs dead_def split: if_splits)
next
  case (peeked c l)
  then show ?thesis by (intro use_same [OF use]) (auto simp: run_defs dead_def split: if_splits)
next
  case (taken c l r rc q)
  have "holds s c (InQueue r)" using taken(3) by simp
  note u = use_unique [OF use this]
  have "distinct (map fst ((r, rc) # q))" using use taken(3) unfolding use_ok_def by metis
  then have q: "q = []" using u(5) unfolding taken(3)
    by (cases q) (auto, metis)
  show ?thesis unfolding taken(1)
    by (rule use_step [OF use, where c = c and b = "Some InLoop"])
      (use u q in \<open>auto simp: run_defs dead_def split: if_splits\<close>)
next
  case (turned c r rc read gz turn t)
  have "holds s c InLoop" using turned(2) by simp
  note u = use_unique [OF use this]
  have q: "rn_queue s c = []" by (rule no_queue [OF use]) (simp add: turned(2))
  have w: "lt_wait turn \<longrightarrow> lt_alive turn" by (rule readLoop_turn_cases(1) [OF turned(3)])
  show ?thesis unfolding turned(1)
    by (rule use_step [OF use, where c = c and b = "if lt_wait turn then Some (InBody r) else None"])
      (use u q w in \<open>auto simp: run_defs dead_def split: if_splits\<close>)
next
  case (replied c r turn)
  have w: "lt_wait turn \<longrightarrow> lt_alive turn" using body replied(2) by (simp add: body_ok_def)
  show ?thesis
    by (intro use_same [OF use]) (use replied w in \<open>auto simp: run_defs dead_def split: if_splits\<close>)
next
  case (body_end r c b t)
  have "holds s c (InBody r)" using body_end(2) by simp
  note u = use_unique [OF use this]
  have q: "rn_queue s c = []" using u(5) by (metis holder.distinct(9) list.set_intros(1) neq_Nil_conv surj_pair)
  have v: "rn_trip s r' \<noteq> TGot c" "rn_trip s r' \<noteq> TWrite c" "rn_body s r' = Some c \<Longrightarrow> r' = r" for r'
    using u(3,4,7) by blast+
  show ?thesis unfolding body_end(1)
    by (rule use_step [OF use, where c = c and b = None])
      (use v q u(1) in \<open>auto simp: run_defs dead_def body_end(3) split: if_splits\<close>)
next
  case (woken c b r)
  then show ?thesis by (intro use_same [OF use]) (auto simp: run_defs dead_def split: if_splits)
next
  case closing_idle
  then show ?thesis by (intro use_same [OF use]) auto
qed


lemma wait_okD:
  assumes "wait_ok s"
  shows "(r, rc) \<in> set (rn_queue s c) \<Longrightarrow> rn_trip s r = TWait c" and "rn_loop s c = LRead r rc \<Longrightarrow> rn_trip s r = TWait c"
    and "rn_loop s c = LReply r turn \<Longrightarrow> rn_trip s r = TWait c \<and> r \<notin> fst ` set (rn_queue s c)"
    and "rn_loop s c = LBody r \<Longrightarrow> rn_trip s r = TReplied c \<or> rn_trip s r = TDone"
    and "rn_trip s r = TGot c \<Longrightarrow> c < rn_next s" and "rn_trip s r = TWrite c \<Longrightarrow> c < rn_next s"
    and "rn_trip s r = TWait c \<Longrightarrow> c < rn_next s" and "rn_trip s r = TReplied c \<Longrightarrow> c < rn_next s"
    and "rn_next s \<le> c \<Longrightarrow> rn_loop s c = LNone" and "rn_next s \<le> c \<Longrightarrow> rn_queue s c = []"
    and "rn_trip s r = TDial key \<Longrightarrow> tr_idle (rn_t s) \<noteq> None"
  using assms unfolding wait_ok_def by blast+

lemma wait_ok_step:
  assumes step: "run_step s s'" and use: "use_ok s" and wait: "wait_ok s" and pool: "pool_ok (pool_of s)"
  shows "wait_ok s'"
  using step
proof cases
  case (got_idle r key c t)
  have "c < rn_next s" "tr_idle t \<noteq> None"
    using getIdleConn_ok [OF pool, of key "Some c" t] getIdleConn_result got_idle(3) by (simp_all add: pool_of_def)
  then show ?thesis unfolding wait_ok_def using got_idle(1,2) by (auto simp: run_defs dest: wait_okD [OF wait])
next
  case (none_idle r key t)
  have "tr_idle t \<noteq> None" using getIdleConn_result [OF none_idle(3)] by simp
  then show ?thesis unfolding wait_ok_def using none_idle(1,2) by (auto simp: run_defs dest: wait_okD [OF wait])
next
  case (turned c r rc read gz turn t)
  have "tr_idle t = None \<Longrightarrow> tr_idle (rn_t s) = None"
    using readLoop_turn_cases(2) [OF turned(3)] by (auto simp: putIdleConn_def Let_def split: if_splits option.splits)
  moreover have "c < rn_next s" by (rule loop_started [OF wait]) (simp add: turned(2))
  moreover have "rn_queue s c = []" by (rule no_queue [OF use]) (simp add: turned(2))
  ultimately show ?thesis unfolding wait_ok_def using turned(1,2) by (auto simp: run_defs dest: wait_okD [OF wait])
next
  case (body_end r c b t)
  have "tr_idle t = None \<Longrightarrow> tr_idle (rn_t s) = None"
    using body_end(4) by (auto simp: putIdleConn_def Let_def split: if_splits option.splits)
  moreover have "c < rn_next s" by (rule loop_started [OF wait]) (simp add: body_end(3))
  ultimately show ?thesis unfolding wait_ok_def using body_end(1,2,3) by (auto simp: run_defs dest: wait_okD [OF wait])
next
  case (dial r x c)
  have "rn_loop s d = LNone \<and> rn_queue s d = []" if "Suc c \<le> d" for d
    using wait_okD(9,10) [OF wait, of d] that dial(5) by simp
  then show ?thesis unfolding wait_ok_def using dial(1,2,5)
    by (auto simp: run_defs dest: wait_okD [OF wait])
next
  case (replied c r turn)
  have "c < rn_next s" by (rule loop_started [OF wait]) (simp add: replied(2))
  moreover have "(r, rc) \<notin> set (rn_queue s d)" for d rc
    using wait_okD(1) [OF wait, of r rc d] wait_okD(3) [OF wait replied(2)] by force
  ultimately show ?thesis unfolding wait_ok_def using replied
    by (auto simp: run_defs dest: wait_okD [OF wait])
next
  case closing_idle
  then show ?thesis using wait by (auto simp: wait_ok_def CloseIdleConnections_def split: option.splits)
next
  case (taken c l r rc q)
  have "c < rn_next s" by (rule loop_started [OF wait]) (simp add: taken(2))
  moreover have "rn_trip s r' = TWait c" if "(r', rc') = (r, rc) \<or> (r', rc') \<in> set q" for r' rc'
    using wait_okD(1) [OF wait, of r' rc' c] that taken(3) by auto
  ultimately show ?thesis unfolding wait_ok_def using taken(1) by (auto simp: run_defs dest: wait_okD [OF wait])
qed (unfold wait_ok_def, use loop_started [OF wait] in \<open>auto simp: run_defs add_expected_def dest: wait_okD [OF wait]\<close>)

lemma last_of_simps [simp]:
  "last_of LNone = None" "last_of (LPeek b) = b" "last_of (LTake b) = b" "last_of (LRead r rc) = None"
  "last_of (LReply r turn) = None" "last_of (LBody r) = None" "last_of (LWoken a r) = Some r" "last_of LEnd = None"
  by (simp_all add: last_of_def)

lemma body_okD:
  assumes "body_ok s"
  shows "rn_loop s c = LBody r \<Longrightarrow> rn_body s r = Some c"
    and "rn_loop s c = LReply r turn \<Longrightarrow> lt_wait turn \<Longrightarrow> rn_body s r = Some c \<and> lt_alive turn"
    and "rn_body s r = Some c \<Longrightarrow> rn_loop s c = LBody r \<or> (\<exists>turn. rn_loop s c = LReply r turn \<and> lt_wait turn)"
    and "last_of (rn_loop s c) = Some r \<Longrightarrow> rn_body s r = None"
    and "last_of (rn_loop s c) = Some r \<Longrightarrow> rn_trip s r = TReplied c \<or> rn_trip s r = TDone"
  using assms unfolding body_ok_def by blast+

lemma body_ok_step:
  assumes step: "run_step s s'" and wait: "wait_ok s" and body: "body_ok s"
  shows "body_ok s'"
  using step
proof cases
  case (turned c r rc read gz turn t)
  have w: "lt_wait turn \<longrightarrow> lt_alive turn" by (rule readLoop_turn_cases(1) [OF turned(3)])
  have r: "rn_trip s r = TWait c" using wait turned(2) by (simp add: wait_ok_def)
  then have "rn_loop s d \<noteq> LBody r" "rn_loop s d \<noteq> LReply r turn'" "last_of (rn_loop s d) \<noteq> Some r" if "d \<noteq> c" for d turn'
    using wait_okD(3,4) [OF wait] body that unfolding body_ok_def by fastforce+
  with w turned(1,2) show ?thesis unfolding body_ok_def
    by (auto simp: run_defs dest: body_okD [OF body])
next
  case (dial r x c)
  note n = wait_okD(9) [OF wait, of c] 
  have "rn_body s r' \<noteq> Some c" for r' using n body_okD(3) [OF body, of r' c] dial(5) by auto
  with n show ?thesis unfolding body_ok_def using dial(1,2,5)
    by (auto simp: run_defs dest: body_okD [OF body])
next
  case (replied c r turn)
  have r: "rn_body s r' = Some c \<Longrightarrow> r' = r \<and> lt_wait turn" for r'
    using body_okD(3) [OF body, of r' c] replied(2) by auto
  have "last_of (rn_loop s d) \<noteq> Some r" for d using body_okD(5) [OF body, of d r] replied(3) by auto
  with r show ?thesis unfolding body_ok_def using replied
    by (auto simp: run_defs dest: body_okD [OF body])
next
  case (body_end r c b t)
  have r: "rn_body s r' = Some c \<Longrightarrow> r' = r" for r'
    using body_okD(3) [OF body, of r' c] body_end(3) by auto
  have d: "rn_loop s d = LBody r \<Longrightarrow> d = c" "rn_loop s d = LReply r turn \<Longrightarrow> lt_wait turn \<Longrightarrow> d = c" for d turn
    using body_okD(1,2) [OF body] body_end(2) by fastforce+
  have "rn_trip s r = TReplied c \<or> rn_trip s r = TDone" using wait_okD(4) [OF wait body_end(3)] .
  then show ?thesis unfolding body_ok_def using body_end(1)
    by (auto simp: run_defs dest: body_okD [OF body] r d)
next
  case (peeked c l)
  with body_okD(4,5) [OF body, of c] show ?thesis unfolding body_ok_def
    by (auto simp: run_defs dest: body_okD [OF body])
next
  case (woken c b r)
  with body_okD(4,5) [OF body, of c] show ?thesis unfolding body_ok_def
    by (auto simp: run_defs dest: body_okD [OF body])
qed (unfold body_ok_def, auto simp: run_defs dest: body_okD [OF body])

definition run_ok :: "run \<Rightarrow> bool" where
  "run_ok s \<longleftrightarrow> pool_ok (pool_of s) \<and> use_ok s \<and> wait_ok s \<and> body_ok s"

interpretation run_system: invariant_system run_start run_step run_ok
proof unfold_locales
  fix s assume "run_start s"
  then show "run_ok s"
  proof cases
    case (1 t)
    then have "pool_ok (pool_of s)" by (simp add: pool_of_def pool_ok_def idle_at_def)
    moreover have "\<not> holds s c x" for c x using 1 by (cases x) auto
    ultimately show ?thesis
      using 1 by (simp add: run_ok_def use_ok_def wait_ok_def body_ok_def dead_def)
  qed
next
  fix s s' assume ok: "run_ok s" and step: "run_step s s'"
  then have o: "pool_ok (pool_of s)" "use_ok s" "wait_ok s" "body_ok s" by (simp_all add: run_ok_def)
  have "pool_ok (pool_of s')" using run_step_pool [OF step o(2-4)] pool_step_ok o(1) by metis
  with use_ok_step [OF step o(2-4,1)] wait_ok_step [OF step o(2,3,1)] body_ok_step [OF step o(3,4)]
  show "run_ok s'" by (simp add: run_ok_def)
qed

section \<open>Properties\<close>

text \<open>
  C39: The goroutines use the pool as its system says: whatever their order, the transport is in a
  reachable state of the pool system, in which busy connections are those handed out and not
  given back. In particular a connection is given back at most once for each time it is handed
  out, so that every property of the pool holds for the program as it runs.
\<close>

theorem runs_refine_pool:
  assumes "reachable run_start run_step s"
  shows "reachable pool_start pool_step (pool_of s)"
  using assms
proof (rule run_system.reachable_inv_induct)
  fix s assume "run_start s"
  then have "pool_start (pool_of s)" by cases (simp add: pool_of_def pool_start.intros)
  then show "reachable pool_start pool_step (pool_of s)" by (rule reachable_start)
next
  fix s s' assume ok: "run_ok s" and r: "reachable pool_start pool_step (pool_of s)" and step: "run_step s s'"
  from ok have "use_ok s" "wait_ok s" "body_ok s" by (simp_all add: run_ok_def)
  from run_step_pool [OF step this] r show "reachable pool_start pool_step (pool_of s')"
    by (metis reachable_step)
qed


section \<open>A run\<close>

definition demo_rc :: requestAndChan where
  "demo_rc = \<lparr>rc_method = ''GET'', rc_close = False, rc_addedGzip = False\<rparr>"

definition demo_got :: run where
  "demo_got = \<lparr>rn_t = set_conn 0 (tr_conns demo_transport 0) (demo_transport\<lparr>tr_idle := Some Map.empty\<rparr>),
     rn_trip = (\<lambda>r. TInit)(0 := TGot 0), rn_loop = (\<lambda>c. LNone)(0 := LPeek None), rn_queue = (\<lambda>c. []),
     rn_body = (\<lambda>r. None), rn_busy = {0}, rn_next = 1\<rparr>"

lemma demo_got_reachable: "reachable run_start run_step demo_got"
proof -
  let ?s = "\<lparr>rn_t = demo_transport, rn_trip = (\<lambda>r. TInit), rn_loop = (\<lambda>c. LNone), rn_queue = (\<lambda>c. []),
    rn_body = (\<lambda>r. None), rn_busy = {}, rn_next = 0\<rparr>"
  let ?t = "demo_transport\<lparr>tr_idle := Some Map.empty\<rparr>"
  let ?x = "tr_conns demo_transport 0"
  have start: "run_start ?s" by (rule run_start.intros) (simp add: demo_transport_def)
  have "getIdleConn (pc_cacheKey ?x) (rn_t ?s) = Ret (None, ?t)" by (simp add: getIdleConn_def demo_transport_def)
  then have "run_step ?s (at_trip 0 (TDial (pc_cacheKey ?x)) (?s\<lparr>rn_t := ?t\<rparr>))" by (intro run_step.none_idle) simp_all
  with reachable_start [of run_start, OF start]
  have r: "reachable run_start run_step (at_trip 0 (TDial (pc_cacheKey ?x)) (?s\<lparr>rn_t := ?t\<rparr>))" (is "reachable _ _ ?d")
    by (rule reachable_step)
  have "run_step ?d (at_trip 0 (TGot 0) (at_loop 0 (LPeek None)
      (?d\<lparr>rn_t := set_conn 0 ?x (rn_t ?d), rn_busy := insert 0 (rn_busy ?d), rn_next := Suc 0\<rparr>)))"
    by (rule run_step.dial) (simp_all add: run_defs demo_transport_def)
  with r have "reachable run_start run_step (at_trip 0 (TGot 0) (at_loop 0 (LPeek None)
      (?d\<lparr>rn_t := set_conn 0 ?x (rn_t ?d), rn_busy := insert 0 (rn_busy ?d), rn_next := Suc 0\<rparr>)))"
    by (rule reachable_step)
  then show ?thesis by (simp add: demo_got_def run_defs)
qed

definition demo_counted :: run where
  "demo_counted = at_trip 0 (TWrite 0) (demo_got\<lparr>rn_t := add_expected 1 0 (rn_t demo_got)\<rparr>)"

lemma demo_counted_reachable: "reachable run_start run_step demo_counted"
  unfolding demo_counted_def
  by (intro reachable_step [OF demo_got_reachable run_step.counted]) (simp_all add: demo_got_def set_conn_def demo_transport_def)

definition demo_waiting :: run where
  "demo_waiting = at_loop 0 (LTake None) (at_trip 0 (TWait 0) (demo_counted\<lparr>rn_queue := (\<lambda>c. [])(0 := [(0, demo_rc)])\<rparr>))"

lemma demo_waiting_reachable: "reachable run_start run_step demo_waiting"
proof -
  have q: "rn_queue demo_counted = (\<lambda>c. [])" "rn_trip demo_counted 0 = TWrite 0" "rn_loop demo_counted 0 = LPeek None"
    by (simp_all add: demo_counted_def demo_got_def run_defs)
  have "reachable run_start run_step (at_trip 0 (TWait 0) (demo_counted\<lparr>rn_queue := (rn_queue demo_counted)(0 := rn_queue demo_counted 0 @ [(0, demo_rc)])\<rparr>))"
    (is "reachable _ _ ?s")
    by (rule reachable_step [OF demo_counted_reachable run_step.written]) (simp_all add: q)
  moreover have "run_step ?s (at_loop 0 (LTake None) ?s)"
    by (rule run_step.peeked)
      (simp_all add: run_defs q demo_counted_def demo_got_def add_expected_def set_conn_def demo_transport_def)
  ultimately have "reachable run_start run_step (at_loop 0 (LTake None) ?s)" by (rule reachable_step)
  then show ?thesis by (simp add: demo_waiting_def q run_defs)
qed

theorem runs_refine_pool_witness:
  "reachable pool_start pool_step (pool_of demo_waiting) \<and> ps_busy (pool_of demo_waiting) = {0}"
  using runs_refine_pool [OF demo_waiting_reachable]
  by (simp add: pool_of_def demo_waiting_def demo_counted_def demo_got_def run_defs)


end
