(* ===== verification/Tr_Serve.thy ===== *)
theory Tr_Serve
  imports Tr_Run
begin

text \<open>
  Whether a request gets its answer: what the count of expected responses is for, when a read
  loop cannot end, and the two ways in which a goroutine of the transport is left waiting for
  good.
\<close>

section \<open>The count of expected responses\<close>

definition in_flight :: "run \<Rightarrow> nat \<Rightarrow> nat set" where
  "in_flight s c = {r. rn_trip s r = TWrite c \<or> rn_trip s r = TWait c \<or> rn_trip s r = TReplied c}"

definition count_ok :: "run \<Rightarrow> bool" where
  "count_ok s \<longleftrightarrow>
     (\<forall>c < rn_next s. finite (in_flight s c) \<and> int (card (in_flight s c)) \<le> pc_numExpected (tr_conns (rn_t s) c)) \<and>
     (\<forall>r c. rn_trip s r = TWait c \<longrightarrow>
        r \<in> fst ` set (rn_queue s c) \<or> (\<exists>rc. rn_loop s c = LRead r rc) \<or> (\<exists>turn. rn_loop s c = LReply r turn)) \<and>
     (\<forall>c < rn_next s. rn_loop s c \<noteq> LNone)"

lemma numExpected_keep [simp]:
  "pc_numExpected (tr_conns (pc_close c t) d) = pc_numExpected (tr_conns t d)"
  "pc_numExpected (tr_conns (CloseIdleConnections t) d) = pc_numExpected (tr_conns t d)"
  by (simp_all add: pc_close_def CloseIdleConnections_def set_conn_def split: option.split)

lemma numExpected_put: "putIdleConn c t = Ret (b, t') \<Longrightarrow> pc_numExpected (tr_conns t' d) = pc_numExpected (tr_conns t d)"
  by (auto dest: putIdleConn_cases)

lemma numExpected_turn:
  "readLoop_turn rc read gz c t = Ret (turn, t') \<Longrightarrow> pc_numExpected (tr_conns t' d) = pc_numExpected (tr_conns t d)"
  using readLoop_turn_cases(2) [of rc read gz c t turn t'] numExpected_put [of c t True t'] by (auto split: if_splits)

lemma numExpected_add:
  "pc_numExpected (tr_conns (add_expected i c t) d) = pc_numExpected (tr_conns t d) + (if d = c then i else 0)"
  by (simp add: add_expected_def set_conn_def)

text \<open>A step that takes no request in flight away from its count keeps the count.\<close>

lemma count_keep:
  assumes "count_ok s" and "rn_next s' = rn_next s"
    and "\<And>c. in_flight s' c \<subseteq> in_flight s c"
    and "\<And>c. pc_numExpected (tr_conns (rn_t s') c) = pc_numExpected (tr_conns (rn_t s) c)"
  shows "\<forall>c < rn_next s'. finite (in_flight s' c) \<and> int (card (in_flight s' c)) \<le> pc_numExpected (tr_conns (rn_t s') c)"
proof (intro allI impI)
  fix c assume "c < rn_next s'"
  with assms(1,2) have f: "finite (in_flight s c)" "int (card (in_flight s c)) \<le> pc_numExpected (tr_conns (rn_t s) c)"
    by (simp_all add: count_ok_def)
  with assms(3) [of c] have "finite (in_flight s' c)" "card (in_flight s' c) \<le> card (in_flight s c)"
    by (auto intro: finite_subset card_mono)
  with f assms(4) show "finite (in_flight s' c) \<and> int (card (in_flight s' c)) \<le> pc_numExpected (tr_conns (rn_t s') c)"
    by simp
qed

lemma count_step:
  assumes step: "run_step s s'" and ok: "run_ok s" and count: "count_ok s"
  shows "\<forall>c < rn_next s'. finite (in_flight s' c) \<and> int (card (in_flight s' c)) \<le> pc_numExpected (tr_conns (rn_t s') c)"
proof -
  have wait: "wait_ok s" using ok by (simp add: run_ok_def)
  have fin: "finite (in_flight s c)" "int (card (in_flight s c)) \<le> pc_numExpected (tr_conns (rn_t s) c)" if "c < rn_next s" for c
    using count that by (simp_all add: count_ok_def)
  from step show ?thesis
  proof cases
    case (got_idle r key c t)
    with getIdleConn_result [OF got_idle(3)] show ?thesis
      by (intro count_keep [OF count]) (auto simp: run_defs in_flight_def split: if_splits)
  next
    case (none_idle r key t)
    with getIdleConn_result [OF none_idle(3)] show ?thesis
      by (intro count_keep [OF count]) (auto simp: run_defs in_flight_def split: if_splits)
  next
    case (dial r x c)
    have e: "in_flight s' d = (if d = c then {} else in_flight s d)" for d
      using dial(1,2,5) wait_okD(6-8) [OF wait, of _ c] by (auto simp: run_defs in_flight_def)
    show ?thesis
    proof (intro allI impI)
      fix d assume "d < rn_next s'"
      then have "d = c \<or> d < rn_next s" using dial(1,5) by (auto simp: run_defs)
      with fin [of d] dial(1,4,5) e show "finite (in_flight s' d) \<and> int (card (in_flight s' d)) \<le> pc_numExpected (tr_conns (rn_t s') d)"
        by (auto simp: run_defs set_conn_def)
    qed
  next
    case (counted r c)
    have e: "in_flight s' d = (if d = c then insert r (in_flight s d) else in_flight s d)" "r \<notin> in_flight s d" for d
      using counted(1,2) by (auto simp: run_defs in_flight_def)
    show ?thesis
    proof (intro allI impI)
      fix d assume "d < rn_next s'"
      with fin [of d] counted(1) e show "finite (in_flight s' d) \<and> int (card (in_flight s' d)) \<le> pc_numExpected (tr_conns (rn_t s') d)"
        by (auto simp: run_defs numExpected_add)
    qed
  next
    case (returned r c)
    have e: "in_flight s' d = (if d = c then in_flight s d - {r} else in_flight s d)" for d
      using returned(1,2) by (auto simp: run_defs in_flight_def)
    have r: "r \<in> in_flight s c" using returned(2) by (simp add: in_flight_def)
    show ?thesis
    proof (intro allI impI)
      fix d assume d: "d < rn_next s'"
      then have f: "finite (in_flight s d)" "int (card (in_flight s d)) \<le> pc_numExpected (tr_conns (rn_t s) d)"
        using fin [of d] returned(1) by (simp_all add: run_defs)
      have "card (in_flight s c) = Suc (card (in_flight s c - {r}))" if "d = c"
        using card.remove [of "in_flight s c" r] r f(1) that by simp
      with f returned(1) e show "finite (in_flight s' d) \<and> int (card (in_flight s' d)) \<le> pc_numExpected (tr_conns (rn_t s') d)"
        by (auto simp: run_defs numExpected_add)
    qed
  next
    case (turned c r rc read gz turn t)
    with numExpected_turn [OF turned(3)] show ?thesis
      by (intro count_keep [OF count]) (auto simp: run_defs in_flight_def)
  next
    case (body_end r c b t)
    with numExpected_put [OF body_end(4)] show ?thesis
      by (intro count_keep [OF count]) (auto simp: run_defs in_flight_def)
  qed (intro count_keep [OF count]; auto simp: run_defs in_flight_def split: if_splits)+
qed

lemma waiting_step:
  assumes step: "run_step s s'" and ok: "run_ok s" and count: "count_ok s" and w: "rn_trip s' r = TWait c"
  shows "r \<in> fst ` set (rn_queue s' c) \<or> (\<exists>rc. rn_loop s' c = LRead r rc) \<or> (\<exists>turn. rn_loop s' c = LReply r turn)"
proof -
  have old: "r \<in> fst ` set (rn_queue s c) \<or> (\<exists>rc. rn_loop s c = LRead r rc) \<or> (\<exists>turn. rn_loop s c = LReply r turn)"
    if "rn_trip s r = TWait c" using count that unfolding count_ok_def by blast
  from step show ?thesis
  proof cases
    case (dial q x d)
    then have "rn_trip s r = TWait c" using w by (auto simp: run_defs split: if_splits)
    moreover from this have "c < rn_next s" using wait_okD(7) [of s r c] ok by (simp add: run_ok_def)
    ultimately show ?thesis using old dial by (auto simp: run_defs)
  next
    case (written q d rc)
    with old w show ?thesis by (auto simp: run_defs split: if_splits)
  next
    case (taken d l q rc qs)
    with old w show ?thesis by (auto simp: run_defs split: if_splits)
  next
    case (replied d q turn)
    then have "rn_trip s r = TWait c" "r \<noteq> q" using w by (auto simp: run_defs split: if_splits)
    with replied old show ?thesis by (auto simp: run_defs split: if_splits)
  qed (use old w in \<open>auto simp: run_defs split: if_splits\<close>)
qed

lemma started_step: "run_step s s' \<Longrightarrow> \<forall>c < rn_next s. rn_loop s c \<noteq> LNone \<Longrightarrow> c < rn_next s' \<Longrightarrow> rn_loop s' c \<noteq> LNone"
  by (cases rule: run_step.cases) (auto simp: run_defs less_Suc_eq split: if_splits)

lemma count_ok_reachable:
  assumes "reachable run_start run_step s"
  shows "count_ok s"
  using assms
proof (rule run_system.reachable_inv_induct)
  fix s assume "run_start s"
  then show "count_ok s" by cases (simp add: count_ok_def)
next
  fix s s' assume "run_ok s" "count_ok s" "run_step s s'"
  with count_step waiting_step started_step show "count_ok s'" unfolding count_ok_def by blast
qed

section \<open>Properties\<close>

text \<open>
  A read loop does not give up on a request: as long as a request that has been counted waits
  on a connection whose loop is still running, no step ends that loop, except the one that
  answers the request.
\<close>

lemma counted_expected:
  assumes "run_ok s" and "count_ok s" and "rn_trip s r = TWrite c \<or> rn_trip s r = TWait c"
  shows "0 < pc_numExpected (tr_conns (rn_t s) c)"
proof -
  have "c < rn_next s" using assms(1,3) wait_okD(6,7) [of s] by (auto simp: run_ok_def)
  moreover have "r \<in> in_flight s c" using assms(3) by (auto simp: in_flight_def)
  ultimately show ?thesis
    using assms(2) unfolding count_ok_def by (metis card_gt_0_iff empty_iff of_nat_0_less_iff order_less_le_trans)
qed

theorem loop_serves_request:
  assumes r: "reachable run_start run_step s" and step: "run_step s s'"
    and trip: "rn_trip s r = TWrite c \<or> rn_trip s r = TWait c" and loop: "rn_loop s c \<noteq> LEnd"
  shows "rn_loop s' c \<noteq> LEnd \<or> rn_trip s' r = TReplied c"
proof -
  have ok: "use_ok s" "wait_ok s" using run_system.inv_reachable [OF r] by (simp_all add: run_ok_def)
  have count: "count_ok s" by (rule count_ok_reachable [OF r])
  have n: "0 < pc_numExpected (tr_conns (rn_t s) c)"
    using counted_expected [OF run_system.inv_reachable [OF r] count trip] .
  have alive: "\<not> dead (rn_loop s c) \<or> rn_loop s c = LReply r turn" if "\<forall>q t. rn_loop s c = LReply q t \<longrightarrow> t = turn" for turn
  proof (rule ccontr)
    assume d: "\<not> ?thesis"
    then have free: "\<not> holds s c x" for x using ok(1) unfolding use_ok_def by blast
    have "rn_trip s r = TWait c" "r \<notin> fst ` set (rn_queue s c)" using trip free [of "InTrip r"] free [of "InQueue r"] by auto
    moreover have "r \<in> fst ` set (rn_queue s c) \<or> (\<exists>rc. rn_loop s c = LRead r rc) \<or> (\<exists>turn. rn_loop s c = LReply r turn)"
      using count calculation(1) unfolding count_ok_def by blast
    moreover have "\<nexists>rc. rn_loop s c = LRead r rc" using free [of InLoop] by simp
    ultimately show False using d that by blast
  qed
  from step show ?thesis
  proof cases
    case (replied d q turn)
    with alive [of turn] loop show ?thesis by (auto simp: run_defs dead_def)
  next
    case (woken d b q)
    with alive loop show ?thesis by (auto simp: run_defs dead_def)
  qed (use loop n in \<open>auto simp: run_defs split: if_splits\<close>)
qed


text \<open>What is known of the loop of a connection on which a request waits.\<close>

lemma waiting_loop:
  assumes ok: "run_ok s" and count: "count_ok s" and trip: "rn_trip s r = TWait c" and loop: "rn_loop s c \<noteq> LEnd"
  shows "rn_loop s c \<noteq> LNone" and "rn_loop s c \<noteq> LBody q" and "rn_loop s c = LRead q rc \<Longrightarrow> q = r"
    and "rn_loop s c = LWoken b q \<Longrightarrow> b"
    and "rn_loop s c = LReply q turn \<Longrightarrow> q \<noteq> r \<Longrightarrow> lt_alive turn \<and> \<not> lt_wait turn"
    and "rn_loop s c = LTake l \<Longrightarrow> \<exists>rc q. rn_queue s c = (r, rc) # q \<and> (\<forall>b. l = Some b \<longrightarrow> rn_body s b = None)"
proof -
  have use: "use_ok s" and wait: "wait_ok s" and body: "body_ok s" using ok by (simp_all add: run_ok_def)
  have at: "r \<in> fst ` set (rn_queue s c) \<or> (\<exists>rc. rn_loop s c = LRead r rc) \<or> (\<exists>turn. rn_loop s c = LReply r turn)"
    using count trip unfolding count_ok_def by blast
  have queued: "holds s c (InQueue r)" if "\<And>rc. rn_loop s c \<noteq> LRead r rc" "\<And>turn. rn_loop s c \<noteq> LReply r turn"
    using at that by simp
  show "rn_loop s c \<noteq> LNone" using wait_okD(7) [OF wait trip] count unfolding count_ok_def by blast
  show "rn_loop s c \<noteq> LBody q"
  proof
    assume l: "rn_loop s c = LBody q"
    then have "rn_body s q = Some c" using body unfolding body_ok_def by blast
    with use_unique(7) [OF use queued] l show False by simp
  qed
  show "q = r" if "rn_loop s c = LRead q rc"
    using at that no_queue [OF use, of c] by auto
  show b if "rn_loop s c = LWoken b q"
    using use_unique(2) [OF use queued] that by (simp add: dead_def)
  show "lt_alive turn \<and> \<not> lt_wait turn" if l: "rn_loop s c = LReply q turn" and "q \<noteq> r"
  proof -
    have h: "holds s c (InQueue r)" using queued that by simp
    have "\<not> lt_wait turn"
    proof
      assume "lt_wait turn"
      then have "rn_body s q = Some c" using body l unfolding body_ok_def by blast
      with use_unique(7) [OF use h] show False by simp
    qed
    with use_unique(2) [OF use h] l show ?thesis by (simp add: dead_def)
  qed
  show "\<exists>rc q. rn_queue s c = (r, rc) # q \<and> (\<forall>b. l = Some b \<longrightarrow> rn_body s b = None)" if l: "rn_loop s c = LTake l"
  proof -
    have h: "holds s c (InQueue r)" using queued l by simp
    then obtain p rc q where q: "rn_queue s c = (p, rc) # q" by (cases "rn_queue s c") auto
    with use_unique(5) [OF use h, of p rc] have "p = r" by simp
    moreover have "rn_body s b = None" if "l = Some b" for b
    proof -
      have "last_of (rn_loop s c) = Some b" using l that by (simp add: last_of_def)
      with body show ?thesis unfolding body_ok_def by blast
    qed
    ultimately show ?thesis using q by blast
  qed
qed

text \<open>How far the loop is from the answer to r; 6 is the answer to the request before.\<close>

definition loop_rank :: "nat \<Rightarrow> loop_pc \<Rightarrow> nat" where
  "loop_rank r l = (case l of LReply q turn \<Rightarrow> if q = r then 1 else 6 | LWoken b q \<Rightarrow> 5
     | LPeek b \<Rightarrow> 4 | LTake b \<Rightarrow> 3 | LRead q rc \<Rightarrow> 2 | _ \<Rightarrow> 0)"

lemma waiting_loop_enabled:
  assumes ok: "run_ok s" and count: "count_ok s" and trip: "rn_trip s r = TWait c" and loop: "rn_loop s c \<noteq> LEnd"
  shows "\<exists>s'. run_step s s' \<and> rn_loop s' c \<noteq> rn_loop s c"
proof -
  note w = waiting_loop [OF assms]
  have e: ?thesis if "run_step s t" and "rn_loop t c \<noteq> rn_loop s c" for t using that by blast
  show ?thesis
  proof (cases "rn_loop s c")
    case (LPeek l)
    with e [OF run_step.peeked [OF LPeek]] counted_expected [OF ok count disjI2 [OF trip]] show ?thesis
      by (simp add: run_defs)
  next
    case (LTake l)
    with w(6) [OF LTake] obtain rc q where q: "rn_queue s c = (r, rc) # q" "\<forall>b. l = Some b \<longrightarrow> rn_body s b = None" by blast
    from e [OF run_step.taken [OF LTake q]] LTake show ?thesis by (simp add: run_defs)
  next
    case (LRead q rc)
    have "readLoop_turn rc (Inl io_EOF) None c (rn_t s) =
        Ret (\<lparr>lt_resp = None, lt_err = Some io_EOF, lt_gunzip = False, lt_alive = False, lt_wait = False\<rparr>, pc_close c (rn_t s))"
      by (simp add: readLoop_turn_def response_read_def)
    from e [OF run_step.turned [OF LRead this]] LRead show ?thesis by (simp add: run_defs)
  next
    case (LReply q turn)
    then have "rn_trip s q = TWait c" using wait_okD(3) [of s c q turn] ok by (simp add: run_ok_def)
    from e [OF run_step.replied [OF LReply this]] LReply show ?thesis by (simp add: run_defs)
  next
    case (LWoken b q)
    from e [OF run_step.woken [OF LWoken]] LWoken show ?thesis by (simp add: run_defs)
  qed (use w loop in auto)
qed

lemma waiting_loop_step:
  assumes ok: "run_ok s" and count: "count_ok s" and trip: "rn_trip s r = TWait c" and loop: "rn_loop s c \<noteq> LEnd"
    and step: "run_step s s'"
  shows "rn_trip s' r = TReplied c \<or> rn_trip s' r = TWait c \<and> rn_loop s' c \<noteq> LEnd \<and>
    (rn_loop s' c = rn_loop s c \<or> loop_rank r (rn_loop s' c) < loop_rank r (rn_loop s c))"
proof -
  note w = waiting_loop [OF assms(1-4)]
  have n: "pc_numExpected (tr_conns (rn_t s) c) \<noteq> 0" "c \<noteq> rn_next s"
    using counted_expected [OF ok count disjI2 [OF trip]] wait_okD(7) [of s r c] trip ok by (auto simp: run_ok_def)
  from step show ?thesis
  proof cases
    case (turned d q rc read gz turn t)
    with w(3) [of q rc] trip loop show ?thesis by (auto simp: run_defs loop_rank_def)
  next
    case (replied d q turn)
    with w(5) [of q turn] trip loop show ?thesis by (auto simp: run_defs loop_rank_def)
  next
    case (woken d b q)
    with w(4) [of b q] trip loop show ?thesis by (auto simp: run_defs loop_rank_def)
  next
    case (body_end q d b t)
    with w(2) [of q] have "d \<noteq> c" by auto
    with body_end trip loop show ?thesis by (auto simp: run_defs)
  qed (use trip loop n in \<open>auto simp: run_defs loop_rank_def\<close>)
qed

text \<open>
  C24: A request that waits on a connection whose read loop is running is answered: the loop always
  has a step to take, every step of it brings the answer nearer, at most six are needed, and
  no step of anything else puts it off.
\<close>

theorem waiting_request_answered:
  assumes "reachable run_start run_step s" and "rn_trip s r = TWait c" and "rn_loop s c \<noteq> LEnd"
  shows "(\<exists>s'. run_step s s' \<and> rn_loop s' c \<noteq> rn_loop s c) \<and> loop_rank r (rn_loop s c) \<le> 6 \<and>
    (\<forall>s'. run_step s s' \<longrightarrow> rn_trip s' r = TReplied c \<or> rn_trip s' r = TWait c \<and> rn_loop s' c \<noteq> LEnd \<and>
      (rn_loop s' c = rn_loop s c \<or> loop_rank r (rn_loop s' c) < loop_rank r (rn_loop s c)))"
proof -
  note ok = run_system.inv_reachable [OF assms(1)] count_ok_reachable [OF assms(1)] assms(2,3)
  have "loop_rank r l \<le> 6" for l by (simp add: loop_rank_def split: loop_pc.split)
  with waiting_loop_enabled [OF ok] waiting_loop_step [OF ok] show ?thesis by blast
qed


lemma ended_loop_step:
  assumes "run_step s s'" and "wait_ok s" and "rn_loop s c = LEnd" and "rn_trip s r = TWait c"
  shows "rn_loop s' c = LEnd \<and> rn_trip s' r = TWait c"
proof -
  have c: "c \<noteq> rn_next s" using wait_okD(7) [OF assms(2,4)] by simp
  from assms(1) show ?thesis by cases (use assms(3,4) c in \<open>auto simp: run_defs split: if_splits\<close>)
qed


text \<open>
  A read loop can wait for good. When writing a request fails, roundTrip closes the connection
  and returns with its response still counted; the loop, woken by the closing, waits for a
  request that can never come, because a closed connection is not handed out again.
\<close>

definition idle_loop_stuck :: "nat option \<Rightarrow> nat \<Rightarrow> run \<Rightarrow> bool" where
  "idle_loop_stuck l c s \<longleftrightarrow> run_ok s \<and> c \<in> rn_busy s \<and> rn_loop s c = LTake l \<and> rn_queue s c = [] \<and>
     (\<forall>r. rn_trip s r \<noteq> TGot c \<and> rn_trip s r \<noteq> TWrite c \<and> rn_body s r \<noteq> Some c)"

lemma idle_loop_stuck_step:
  assumes step: "run_step s s'" and stuck: "idle_loop_stuck l c s"
  shows "idle_loop_stuck l c s'"
proof -
  have ok: "run_ok s" and stay: "c \<in> rn_busy s" "rn_loop s c = LTake l" "rn_queue s c = []"
    "\<And>r. rn_trip s r \<noteq> TGot c" "\<And>r. rn_trip s r \<noteq> TWrite c" "\<And>r. rn_body s r \<noteq> Some c"
    using stuck by (simp_all add: idle_loop_stuck_def)
  have pool: "pool_ok (pool_of s)" using ok by (simp add: run_ok_def)
  have n: "c \<noteq> rn_next s" using pool stay(1) by (auto simp: pool_ok_def pool_of_def)
  have "c \<in> rn_busy s' \<and> rn_loop s' c = LTake l \<and> rn_queue s' c = [] \<and>
      (\<forall>r. rn_trip s' r \<noteq> TGot c \<and> rn_trip s' r \<noteq> TWrite c \<and> rn_body s' r \<noteq> Some c)"
    using step
  proof cases
    case (got_idle r key d t)
    with getIdleConn_ok [OF pool, of key "Some d" t] stay(1) have "d \<noteq> c" by (auto simp: pool_of_def)
    with got_idle(1) stay show ?thesis by (auto simp: run_defs)
  next
    case (written r d rc)
    then have "d \<noteq> c" using stay(5) by auto
    with written(1) stay show ?thesis by (auto simp: run_defs)
  qed (use stay n in \<open>auto simp: run_defs\<close>)
  moreover have "run_ok s'" by (rule run_system.inv_step [OF ok step])
  ultimately show ?thesis by (simp add: idle_loop_stuck_def)
qed

theorem failed_write_leaves_loop:
  assumes "reachable run_start run_step s" and "rn_trip s r = TWrite c" and "rn_loop s c = LTake l"
    and "run_step\<^sup>*\<^sup>* (at_trip r TDone (s\<lparr>rn_t := pc_close c (rn_t s)\<rparr>)) s'"
  shows "rn_loop s' c = LTake l"
proof -
  let ?s = "at_trip r TDone (s\<lparr>rn_t := pc_close c (rn_t s)\<rparr>)"
  have ok: "run_ok s" by (rule run_system.inv_reachable [OF assms(1)])
  then have use: "use_ok s" by (simp add: run_ok_def)
  have h: "holds s c (InTrip r)" using assms(2) by simp
  note u = use_unique [OF use h]
  have "rn_queue ?s c = []"
  proof (rule ccontr)
    assume "rn_queue ?s c \<noteq> []"
    then obtain q rc qs where "rn_queue s c = (q, rc) # qs" by (auto simp: run_defs neq_Nil_conv)
    with u(5) [of q rc] show False by simp
  qed
  moreover have "rn_trip ?s q \<noteq> TGot c \<and> rn_trip ?s q \<noteq> TWrite c \<and> rn_body ?s q \<noteq> Some c" for q
    using u(3) [of q] u(4) [of q] u(7) [of q] by (cases "q = r") (simp_all add: run_defs, blast+)
  moreover have "run_ok ?s" by (rule run_system.inv_step [OF ok run_step.not_written [OF assms(2)]])
  ultimately have "idle_loop_stuck l c ?s" using u(1) assms(3) by (simp add: idle_loop_stuck_def run_defs)
  with assms(4) have "idle_loop_stuck l c s'"
    by (induction rule: rtranclp_induct) (auto intro: idle_loop_stuck_step)
  then show ?thesis by (simp add: idle_loop_stuck_def)
qed

section \<open>Witnesses\<close>

theorem loop_serves_request_witness:
  "rn_loop (at_loop 0 (LTake None) demo_counted) 0 \<in> - {LEnd} \<or> rn_trip (at_loop 0 (LTake None) demo_counted) 0 = TReplied 0"
proof -
  have d: "rn_loop demo_counted 0 = LPeek None" "rn_trip demo_counted 0 = TWrite 0"
    "pc_numExpected (tr_conns (rn_t demo_counted) 0) \<noteq> 0"
    by (simp_all add: demo_counted_def demo_got_def run_defs add_expected_def set_conn_def demo_transport_def)
  show ?thesis
    using loop_serves_request [OF demo_counted_reachable run_step.peeked [OF d(1,3)], of 0 0] d by simp
qed

theorem waiting_request_answered_witness:
  "\<exists>s'. run_step demo_waiting s' \<and> rn_loop s' 0 \<noteq> LTake None"
proof -
  have d: "rn_trip demo_waiting 0 = TWait 0" "rn_loop demo_waiting 0 = LTake None"
    by (simp_all add: demo_waiting_def run_defs)
  from waiting_request_answered [OF demo_waiting_reachable d(1)] d(2) show ?thesis by auto
qed


theorem failed_write_leaves_loop_witness:
  "rn_loop (at_trip 0 TDone (at_loop 0 (LTake None) (demo_counted\<lparr>rn_t := pc_close 0 (rn_t demo_counted)\<rparr>))) 0 = LTake None"
proof -
  let ?s = "at_loop 0 (LTake None) demo_counted"
  have d: "rn_loop demo_counted 0 = LPeek None" "rn_trip demo_counted 0 = TWrite 0"
    "pc_numExpected (tr_conns (rn_t demo_counted) 0) \<noteq> 0"
    by (simp_all add: demo_counted_def demo_got_def run_defs add_expected_def set_conn_def demo_transport_def)
  let ?u = "at_trip 0 TDone (?s\<lparr>rn_t := pc_close 0 (rn_t ?s)\<rparr>)"
  have "reachable run_start run_step ?s" by (rule reachable_step [OF demo_counted_reachable run_step.peeked [OF d(1,3)]])
  from failed_write_leaves_loop [OF this, of 0 0 None ?u] d(2) have "rn_loop ?u 0 = LTake None" by (simp add: run_defs)
  then show ?thesis by (simp add: run_defs)
qed

end
