(* ===== verification/Tr_Trip.thy ===== *)
theory Tr_Trip
  imports Tr_Loop
begin

text \<open>
  goproxy/transport put together: a request goes through connectMethodForRequest, getConn,
  roundTrip and one turn of the connection's read loop. Resolving and dialling addresses, TLS
  and the messages of net/http stay parameters.
\<close>

section \<open>Dialling\<close>

text \<open>
  dial: the address is resolved first, also where the transport has a dialling function of its
  own. The result is the connection with the address and its resolution.
\<close>

definition tr_dial :: "(string \<Rightarrow> werror + 'c) option \<Rightarrow> (string \<Rightarrow> werror + 'ip) \<Rightarrow> ('ip \<Rightarrow> werror + 'c) \<Rightarrow> string
    \<Rightarrow> werror + ('c \<times> string \<times> 'ip)" where
  "tr_dial custom resolve tcp addr =
     (case resolve addr of
        Inl e \<Rightarrow> Inl e
      | Inr ip \<Rightarrow>
          (case (case custom of Some f \<Rightarrow> f addr | None \<Rightarrow> tcp ip) of
             Inl e \<Rightarrow> Inl e
           | Inr c \<Rightarrow> Inr (c, addr, ip)))"

definition dial_error :: "werror + 'a \<Rightarrow> werror option" where
  "dial_error r = (case r of Inl e \<Rightarrow> Some e | Inr _ \<Rightarrow> None)"

section \<open>The answer of the read loop\<close>

text \<open>
  What a request that has been written gets back from its connection's loop: the response of
  the turn. A loop that has ended answers nothing, and the request waits.
\<close>

definition loop_answer :: "werror + (http_response \<times> bool) \<Rightarrow> werror option \<Rightarrow> requestAndChan \<Rightarrow> nat \<Rightarrow> transport
    \<Rightarrow> ((http_response option \<times> werror option) \<times> transport) outcome" where
  "loop_answer read gz rc c t =
     (case readLoop_step rc read gz c t of
        Ret (None, t) \<Rightarrow> Block
      | Ret (Some turn, t) \<Rightarrow> Ret ((lt_resp turn, lt_err turn), t)
      | Block \<Rightarrow> Block
      | Panic m \<Rightarrow> Panic m)"

text \<open>A request through all parts; c is the address of a connection that has to be dialled.\<close>

definition http_trip :: "(url \<Rightarrow> werror + url option) option \<Rightarrow> (url \<Rightarrow> string option) \<Rightarrow> (string \<Rightarrow> werror + 'c) option
    \<Rightarrow> (string \<Rightarrow> werror + 'ip) \<Rightarrow> ('ip \<Rightarrow> werror + 'c)
    \<Rightarrow> (string \<Rightarrow> string \<Rightarrow> werror + (nat \<times> string)) \<Rightarrow> (string \<Rightarrow> werror option)
    \<Rightarrow> (bool \<Rightarrow> http_request \<Rightarrow> werror option) \<Rightarrow> werror + (http_response \<times> bool) \<Rightarrow> werror option
    \<Rightarrow> nat \<Rightarrow> bool \<Rightarrow> http_request \<Rightarrow> transport
    \<Rightarrow> ((roundTripDetails option \<times> http_response option \<times> werror option) \<times> transport) outcome" where
  "http_trip proxy user custom resolve tcp connect tls write read gz c close req t =
     DetailedRoundTrip (\<lambda>s. None) proxy
       (\<lambda>cm. getConn user (\<lambda>addr. dial_error (tr_dial custom resolve tcp addr)) connect tls cm c)
       (roundTrip write (loop_answer read gz) close) req t"

section \<open>Properties\<close>

lemma getIdleConn_keeps:
  "getIdleConn key t = Ret (x, t') \<Longrightarrow> tr_DisableKeepAlives t' = tr_DisableKeepAlives t \<and>
    tr_DisableCompression t' = tr_DisableCompression t \<and> tr_MaxIdle t' = tr_MaxIdle t"
  by (auto simp: getIdleConn_def Let_def split: option.splits if_splits prod.splits)

lemma getIdleConn_none:
  assumes "getIdleConn key t = Ret (None, t')"
  obtains m where "tr_idle t' = Some m" and "m key = None"
proof -
  obtain m where m: "tr_idle t' = Some m" using getIdleConn_result [OF assms] by auto
  have "idle_at t' key = None" using getIdleConn_result [OF assms] by (auto split: option.splits)
  with m show thesis using that by (simp add: idle_at_def)
qed


text \<open>A request whose host has no address gives an error and no details of a trip.\<close>

lemma unresolved_no_details:
  assumes "url_Scheme (req_URL req) = ''http''" and "resolve (canonicalAddr (req_URL req)) = Inl e"
    and "getIdleConn (cm_String \<lparr>cm_proxyURL = None, cm_targetScheme = ''http'', cm_targetAddr = canonicalAddr (req_URL req)\<rparr>) t =
      Ret (None, t1)"
  shows "http_trip None user custom resolve tcp connect tls write read gz c close req t = Ret ((None, None, Some e), t1)"
  using assms
  by (simp add: http_trip_def DetailedRoundTrip_def Let_def connectMethodForRequest_def getConn_def cm_addr_def tr_dial_def dial_error_def)

definition demo_trip_req :: http_request where
  "demo_trip_req = \<lparr>req_Method = ''GET'', req_URL = \<lparr>url_Scheme = ''http'', url_Host = ''a'', url_Path = ''/'',
     url_RequestURI = ''/'', url_String = ''http://a/''\<rparr>, req_Host = ''a'', req_RemoteAddr = [], req_RequestURI = ''/'',
     req_Header = [], req_Body = no_body, req_TLS = False\<rparr>"

definition demo_trip_resp :: http_response where
  "demo_trip_resp = \<lparr>resp_StatusCode = 204, resp_Status = [], resp_Header = [], resp_Body = no_body, resp_ContentLength = 0\<rparr>"


end
