(* ===== verification/Ex_Dump.thy ===== *)
theory Ex_Dump
  imports Gp_Https Tr_Trip
begin

text \<open>
  The example program examples/httpdump: a proxy that records what goes through it. Its parts
  are files that are created when first written to, a reader that copies to a file what it
  reads, the records of the log, and a listener that knows when all its connections are closed.
  os.Create, the dumps of net/http/httputil and the clock are parameters.
\<close>

section \<open>FileStream\<close>

record file_stream =
  fs_path :: string
  fs_f :: "conn option"

definition NewFileStream :: "string \<Rightarrow> file_stream" where
  "NewFileStream path = \<lparr>fs_path = path, fs_f = None\<rparr>"

definition fs_Write :: "(string \<Rightarrow> werror + conn) \<Rightarrow> bytes \<Rightarrow> file_stream \<Rightarrow> (nat \<times> werror option) \<times> file_stream" where
  "fs_Write create b fs =
     (case (case fs_f fs of None \<Rightarrow> create (fs_path fs) | Some f \<Rightarrow> Inr f) of
        Inl e \<Rightarrow> ((0, Some e), fs)
      | Inr f \<Rightarrow> (case conn_Write b f of (r, f) \<Rightarrow> (r, fs\<lparr>fs_f := Some f\<rparr>)))"

definition fs_Close :: "(conn \<Rightarrow> werror option) \<Rightarrow> file_stream \<Rightarrow> werror option" where
  "fs_Close close fs = (case fs_f fs of
      None \<Rightarrow> Some (OtherError ''FileStream was never written into'')
    | Some f \<Rightarrow> close f)"

definition fs_sent :: "file_stream \<Rightarrow> bytes" where
  "fs_sent fs = (case fs_f fs of None \<Rightarrow> [] | Some f \<Rightarrow> cn_out f)"

definition fs_sound :: "file_stream \<Rightarrow> bool" where
  "fs_sound fs = (case fs_f fs of None \<Rightarrow> True | Some f \<Rightarrow> conn_sound f)"

text \<open>Where the files can be created, the stream keeps the contract of an io.Writer.\<close>

interpretation file_sink: byte_sink "fs_Write (\<lambda>path. Inr new_conn)" fs_sent fs_sound
proof unfold_locales
  fix b fs n e fs'
  assume w: "fs_Write (\<lambda>path. Inr new_conn) b fs = ((n, e), fs')"
  then obtain f where f: "conn_Write b (case fs_f fs of None \<Rightarrow> new_conn | Some f \<Rightarrow> f) = ((n, e), f)" "fs_f fs' = Some f"
    by (auto simp: fs_Write_def split: option.splits prod.splits)
  with conn_sink.write_val [OF f(1)] show "n \<le> length b \<and> fs_sent fs' = fs_sent fs @ take n b \<and> (e = None \<longrightarrow> n = length b)"
    by (cases "fs_f fs") (simp_all add: fs_sent_def new_conn_def)
next
  fix b fs assume s: "fs_sound fs"
  then have "conn_sound (case fs_f fs of None \<Rightarrow> new_conn | Some f \<Rightarrow> f)"
    by (simp add: fs_sound_def conn_sound_def new_conn_def split: option.splits)
  then obtain f where "conn_Write b (case fs_f fs of None \<Rightarrow> new_conn | Some f \<Rightarrow> f) = ((length b, None), f)" "conn_sound f"
    using conn_sink.write_sound by blast
  then show "\<exists>fs'. fs_Write (\<lambda>path. Inr new_conn) b fs = ((length b, None), fs') \<and> fs_sound fs'"
    by (cases "fs_f fs") (simp_all add: fs_Write_def fs_sound_def)
qed

section \<open>TeeReadCloser\<close>

text \<open>
  io.TeeReader: what is read is written to the file before it is handed on. (A failing write
  gives its error; the bytes that Go returns along with it are left out.)
\<close>

definition tee_Read :: "(nat \<Rightarrow> 's \<Rightarrow> bytes rres \<times> 's) \<Rightarrow> (bytes \<Rightarrow> 'w \<Rightarrow> (nat \<times> werror option) \<times> 'w) \<Rightarrow> nat \<Rightarrow> 's \<times> 'w
    \<Rightarrow> bytes rres \<times> 's \<times> 'w" where
  "tee_Read rd wr n t =
     (case t of (s, w) \<Rightarrow>
        (case rd n s of
           (RVal b, s) \<Rightarrow>
             if b = [] then (RVal b, s, w)
             else (case wr b w of
                     ((_, Some e), w) \<Rightarrow> (RErr e, s, w)
                   | ((_, None), w) \<Rightarrow> (RVal b, s, w))
         | (RErr e, s) \<Rightarrow> (RErr e, s, w)
         | (RBlock, s) \<Rightarrow> (RBlock, s, w)))"

definition tee_Close :: "('s \<Rightarrow> werror option \<times> 's) \<Rightarrow> ('w \<Rightarrow> werror option \<times> 'w) \<Rightarrow> 's \<times> 'w \<Rightarrow> werror option \<times> 's \<times> 'w" where
  "tee_Close close1 close2 t =
     (case t of (s, w) \<Rightarrow>
        (case close1 s of (err1, s) \<Rightarrow>
           (case close2 w of (err2, w) \<Rightarrow>
              (if err1 = None \<and> err2 = None then None else if err1 \<noteq> None then err2 else err1, s, w))))"

text \<open>The tee delivers what its reader does, and keeps a copy of all that it delivered.\<close>

lemma tee_Read_rd:
  assumes "rd_complete r" and "fs_sound fs"
  shows "\<exists>r' fs'. tee_Read rd_Read (fs_Write (\<lambda>path. Inr new_conn)) n (r, fs) = (fst (rd_Read n r), r', fs') \<and>
    r' = snd (rd_Read n r) \<and> fs_sound fs' \<and>
    fs_sent fs' = fs_sent fs @ (case fst (rd_Read n r) of RVal b \<Rightarrow> b | _ \<Rightarrow> [])"
proof -
  obtain x r' where x: "rd_Read n r = (x, r')" by fastforce
  show ?thesis
  proof (cases x)
    case (RVal b)
    obtain fs' where "fs_Write (\<lambda>path. Inr new_conn) b fs = ((length b, None), fs')" "fs_sound fs'" "fs_sent fs' = fs_sent fs @ b"
      by (rule file_sink.write_steps [OF assms(2)])
    with x RVal assms(2) show ?thesis by (simp add: tee_Read_def)
  qed (use x assms(2) in \<open>simp_all add: tee_Read_def\<close>)
qed

interpretation tee: byte_source "tee_Read rd_Read (fs_Write (\<lambda>path. Inr new_conn))" "\<lambda>t. rd_in (fst t)"
  "\<lambda>t. rd_complete (fst t) \<and> fs_sound (snd t)"
proof unfold_locales
  fix s s' :: "rbuf \<times> file_stream" and n b
  assume g: "rd_complete (fst s) \<and> fs_sound (snd s)"
    and r: "tee_Read rd_Read (fs_Write (\<lambda>path. Inr new_conn)) n s = (RVal b, s')"
  from tee_Read_rd [of "fst s" "snd s" n] g r have *: "rd_Read n (fst s) = (RVal b, fst s')" "fs_sound (snd s')"
    by (auto simp: prod_eq_iff)
  from bufio.read_val [OF _ *(1)] g *(2)
  show "(rd_complete (fst s') \<and> fs_sound (snd s')) \<and> rd_in (fst s) = b @ rd_in (fst s') \<and> length b \<le> n" by simp
next
  fix s :: "rbuf \<times> file_stream" and n :: nat
  assume g: "rd_complete (fst s) \<and> fs_sound (snd s)" and n: "0 < n" "rd_in (fst s) = []"
  then obtain r' where "rd_Read n (fst s) = (RErr io_EOF, r')" using bufio.read_end by blast
  with tee_Read_rd [of "fst s" "snd s" n] g
  show "\<exists>s'. tee_Read rd_Read (fs_Write (\<lambda>path. Inr new_conn)) n s = (RErr io_EOF, s')" by auto
next
  fix s :: "rbuf \<times> file_stream" and n :: nat
  assume g: "rd_complete (fst s) \<and> fs_sound (snd s)" and n: "0 < n" "rd_in (fst s) \<noteq> []"
  then obtain b r' where "rd_Read n (fst s) = (RVal b, r')" "b \<noteq> []" using bufio.read_step by blast
  with tee_Read_rd [of "fst s" "snd s" n] g
  show "\<exists>b s'. tee_Read rd_Read (fs_Write (\<lambda>path. Inr new_conn)) n s = (RVal b, s') \<and> b \<noteq> []" by auto
qed

text \<open>A body read to its end through the tee is delivered whole, and the file holds the same bytes.\<close>

theorem tee_records:
  assumes "rd_complete r" and "length (rd_in r) < k" and "0 < sz"
  shows "\<exists>r' fs'. ReadAll (tee_Read rd_Read (fs_Write (\<lambda>path. Inr new_conn))) k sz [] (r, NewFileStream path) =
    (RVal (rd_in r, None), r', fs') \<and> fs_sent fs' = rd_in r"
proof -
  let ?rd = "tee_Read rd_Read (fs_Write (\<lambda>path. Inr new_conn))"
  let ?P = "\<lambda>t. rd_complete (fst t) \<and> fs_sound (snd t) \<and> fs_sent (snd t) @ rd_in (fst t) = rd_in r"
  have new: "fs_sound (NewFileStream path)" "fs_sent (NewFileStream path) = []"
    by (simp_all add: NewFileStream_def fs_sound_def fs_sent_def)
  obtain t where t: "ReadAll ?rd k sz [] (r, NewFileStream path) = (RVal (rd_in r, None), t)"
    using tee.ReadAll_rest [of "(r, NewFileStream path)" sz k "[]"] assms new by auto
  have step: "?P t'" if P: "?P s" and s: "?rd n s = (x, t')" for n s x t'
  proof -
    obtain r' fs' where e: "?rd n (fst s, snd s) = (fst (rd_Read n (fst s)), r', fs')" "r' = snd (rd_Read n (fst s))"
      "fs_sound fs'" "fs_sent fs' = fs_sent (snd s) @ (case fst (rd_Read n (fst s)) of RVal b \<Rightarrow> b | _ \<Rightarrow> [])"
      using tee_Read_rd [of "fst s" "snd s" n] P by blast
    then have t': "t' = (r', fs')" using s by simp
    show ?thesis
    proof (cases "fst (rd_Read n (fst s))")
      case (RVal b)
      then have "rd_Read n (fst s) = (RVal b, r')" using e(2) by (simp add: prod_eq_iff)
      from bufio.read_val [OF _ this] P e(3,4) RVal t' show ?thesis by simp
    next
      case RBlock
      then have "r' = fst s" using e(2) by (auto simp: rd_Read_def split: if_splits)
      with P e RBlock t' show ?thesis by simp
    next
      case (RErr y)
      then have "r' = fst s" using e(2) by (auto simp: rd_Read_def split: if_splits)
      with P e RErr t' show ?thesis by simp
    qed
  qed
  have start: "?P (r, NewFileStream path)" using assms(1) new by simp
  have "\<exists>u. ?P u \<and> ?rd sz u = (RErr io_EOF, t)"
    by (rule ReadAll_end [where P = ?P, OF _ start t]) (rule step)
  then obtain u where u: "?P u" "?rd sz u = (RErr io_EOF, t)" by blast
  have "rd_in (fst u) = []"
  proof (rule ccontr)
    assume "rd_in (fst u) \<noteq> []"
    then obtain b s' where "?rd sz u = (RVal b, s')" using tee.read_step [of u sz] u(1) assms(3) by blast
    with u(2) show False by simp
  qed
  moreover have "?P t" by (rule step [OF u])
  ultimately have "fs_sent (snd t) = rd_in r" using tee_Read_rd [of "fst u" "snd u" sz] u by auto
  with t show ?thesis by (cases t) simp
qed

text \<open>
  Close of the tee reports an error only when both its parts fail, and then the file's: the
  tests of the two errors are the wrong way round.
\<close>

theorem tee_close_errors:
  "fst (tee_Close close1 close2 (s, w)) =
    (if fst (close1 s) = None then None else fst (close2 w))"
  by (simp add: tee_Close_def split: prod.split)

section \<open>The records of the log\<close>

record meta =
  m_req :: "http_request option"
  m_resp :: "http_response option"
  m_err :: "werror option"
  m_t :: string
  m_sess :: int
  m_from :: string

definition put_bytes :: "(bytes \<Rightarrow> 'w \<Rightarrow> (nat \<times> werror option) \<times> 'w) \<Rightarrow> bytes \<Rightarrow> (nat \<times> werror option) \<times> 'w
    \<Rightarrow> (nat \<times> werror option) \<times> 'w" where
  "put_bytes wr b acc =
     (case acc of
        ((nr, Some e), w) \<Rightarrow> acc
      | ((nr, None), w) \<Rightarrow> (case wr b w of ((n, e), w) \<Rightarrow> ((nr + n, e), w)))"

definition WriteTo :: "(bytes \<Rightarrow> 'w \<Rightarrow> (nat \<times> werror option) \<times> 'w) \<Rightarrow> (http_request \<Rightarrow> werror + bytes)
    \<Rightarrow> (http_response \<Rightarrow> werror + bytes) \<Rightarrow> meta \<Rightarrow> 'w \<Rightarrow> (nat \<times> werror option) \<times> 'w" where
  "WriteTo wr DumpRequest DumpResponse m w =
     (let fprintf = (\<lambda>s. put_bytes wr (bytes_of s));
          dump = (\<lambda>d acc. case d of
              Inl err2 \<Rightarrow> ((fst (fst acc), Some err2), snd acc)
            | Inr buf \<Rightarrow> put_bytes wr buf acc);
          acc = ((0, None), w);
          acc = (if m_req m \<noteq> None then fprintf (''Type: request'' @ crlf) acc
                 else if m_resp m \<noteq> None then fprintf (''Type: response'' @ crlf) acc else acc);
          acc = fprintf (''ReceivedAt: '' @ m_t m @ crlf) acc;
          acc = fprintf (''Session: '' @ Itoa (m_sess m) @ crlf) acc;
          acc = fprintf (''From: '' @ m_from m @ crlf) acc
      in case m_err m of
           Some e \<Rightarrow> fprintf (''Error: '' @ error_string e @ crlf @ crlf @ crlf @ crlf) acc
         | None \<Rightarrow>
             (case m_req m of
                Some req \<Rightarrow> dump (DumpRequest req) (fprintf crlf acc)
              | None \<Rightarrow>
                  (case m_resp m of
                     Some resp \<Rightarrow> dump (DumpResponse resp) (fprintf crlf acc)
                   | None \<Rightarrow> acc)))"

context byte_sink
begin

lemma put_bytes_count:
  assumes "sent (snd acc) = sent w @ out" and "fst (fst acc) = length out"
  shows "\<exists>out'. sent (snd (put_bytes write b acc)) = sent w @ out' \<and> fst (fst (put_bytes write b acc)) = length out'"
proof -
  obtain nr e v where fields: "acc = ((nr, e), v)" by (metis prod.exhaust)
  show ?thesis
  proof (cases e)
    case None
    obtain n x v' where v: "write b v = ((n, x), v')" by (metis prod.exhaust)
    from write_val [OF this] assms fields None v show ?thesis
      by (intro exI [of _ "out @ take n b"]) (simp add: put_bytes_def)
  qed (use assms fields in \<open>simp add: put_bytes_def\<close>)
qed

lemma WriteTo_count:
  "\<exists>out. sent (snd (WriteTo write dq dr m w)) = sent w @ out \<and> fst (fst (WriteTo write dq dr m w)) = length out"
proof -
  define ok where "ok acc \<longleftrightarrow> (\<exists>out. sent (snd acc) = sent w @ out \<and> fst (fst acc) = length out)"
    for acc :: "(nat \<times> werror option) \<times> 'w"
  have put: "ok (put_bytes write b acc)" if "ok acc" for b acc
    using that put_bytes_count unfolding ok_def by blast
  have start: "ok ((0, None), w)" by (simp add: ok_def)
  have err: "ok ((fst (fst acc), Some e), snd acc)" if "ok acc" for acc e using that by (simp add: ok_def)
  have "ok (WriteTo write dq dr m w)"
    unfolding WriteTo_def Let_def by (intro put start err | split option.split sum.split if_split | intro conjI impI allI)+
  then show ?thesis by (simp add: ok_def)
qed

end

section \<open>The logger\<close>

text \<open>
  HttpLogger: the records go through a channel to the goroutine that writes them to the file;
  closing the channel closes the file after the last. The channel has no buffer, so a record
  sent is taken before the next; an error of writing is only logged. path.Join is given for
  clean paths, as in the program.
\<close>

record http_logger =
  lg_path :: string
  lg_file :: conn
  lg_closed :: bool

definition NewLogger :: "(string \<Rightarrow> werror + conn) \<Rightarrow> string \<Rightarrow> werror + http_logger" where
  "NewLogger create basepath = (case create (basepath @ ''/log'') of
      Inl e \<Rightarrow> Inl e
    | Inr f \<Rightarrow> Inr \<lparr>lg_path = basepath, lg_file = f, lg_closed = False\<rparr>)"

definition LogMeta :: "(http_request \<Rightarrow> werror + bytes) \<Rightarrow> (http_response \<Rightarrow> werror + bytes) \<Rightarrow> meta \<Rightarrow> http_logger
    \<Rightarrow> http_logger outcome" where
  "LogMeta dq dr m lg = (if lg_closed lg then Panic ''send on closed channel''
     else Ret (lg\<lparr>lg_file := snd (WriteTo conn_Write dq dr m (lg_file lg))\<rparr>))"

definition Logger_Close :: "(conn \<Rightarrow> werror option) \<Rightarrow> http_logger \<Rightarrow> (werror option \<times> http_logger) outcome" where
  "Logger_Close close lg = (if lg_closed lg then Panic ''close of closed channel''
     else Ret (close (lg_file lg), lg\<lparr>lg_closed := True, lg_file := conn_Close (lg_file lg)\<rparr>))"

text \<open>
  LogResp and LogReq: the record that is sent, and the file that the body is copied to. A nil
  message is logged as an empty one and has no body. The user data of the context is a pointer
  to the details of the round trip, which can be nil inside the interface.
\<close>

definition LogResp :: "string \<Rightarrow> string \<Rightarrow> http_response \<Rightarrow> ('d \<Rightarrow> string) \<Rightarrow> nat option \<Rightarrow> ('r, 'd option) pctx
    \<Rightarrow> (meta \<times> file_stream option) outcome" where
  "LogResp lpath now emptyResp tcp_addr resp ctx =
     (let send = (\<lambda>from. Ret
        (\<lparr>m_req = None, m_resp = Some (case resp of None \<Rightarrow> emptyResp | Some x \<Rightarrow> resps ctx x), m_err = ctx_Error ctx, m_t = now,
           m_sess = sint (ctx_Session ctx), m_from = from\<rparr>,
         case resp of None \<Rightarrow> None
         | Some x \<Rightarrow> Some (NewFileStream (lpath @ ''/'' @ Itoa (sint (ctx_Session ctx)) @ ''_resp'')))) in
      case ctx_UserData ctx of
        None \<Rightarrow> send []
      | Some None \<Rightarrow> Panic ''nil pointer dereference''
      | Some (Some d) \<Rightarrow> send (tcp_addr d))"

definition LogReq :: "string \<Rightarrow> string \<Rightarrow> http_request \<Rightarrow> nat option \<Rightarrow> ('r, 'd option) pctx
    \<Rightarrow> meta \<times> file_stream option" where
  "LogReq lpath now emptyReq req ctx =
     (let q = (case req of None \<Rightarrow> emptyReq | Some x \<Rightarrow> reqs ctx x) in
      (\<lparr>m_req = Some q, m_resp = None, m_err = ctx_Error ctx, m_t = now, m_sess = sint (ctx_Session ctx), m_from = req_RemoteAddr q\<rparr>,
       case req of None \<Rightarrow> None
       | Some x \<Rightarrow> Some (NewFileStream (lpath @ ''/'' @ Itoa (sint (ctx_Session ctx)) @ ''_req''))))"

text \<open>
  What is logged is only ever added to the file. The interrupt closes the logger while
  connections may still be served, and the first request logged after that is a panic.
\<close>

theorem logger_appends:
  "LogMeta dq dr m lg = Ret lg' \<Longrightarrow> \<exists>out. cn_out (lg_file lg') = cn_out (lg_file lg) @ out"
  using conn_sink.WriteTo_count [of dq dr m "lg_file lg"] by (auto simp: LogMeta_def split: if_splits)

theorem log_after_close_panics:
  "Logger_Close close lg = Ret (e, lg') \<Longrightarrow> is_panic (LogMeta dq dr m lg')"
  by (auto simp: Logger_Close_def LogMeta_def split: if_splits)

section \<open>The proxy of main\<close>

text \<open>
  The round tripper that the request handler puts into the context: it goes through the
  program's own transport and leaves the details of the trip in the context. \<open>tr\<close> is
  DetailedRoundTrip, x the address of the response.
\<close>

definition dump_round_trip :: "(http_request \<Rightarrow> 'd option \<times> (werror + http_response)) \<Rightarrow> nat \<Rightarrow> nat \<Rightarrow> ('r, 'd option) pctx
    \<Rightarrow> (werror + nat) \<times> ('r, 'd option) pctx" where
  "dump_round_trip tr x req ctx =
     (case tr (reqs ctx req) of (details, res) \<Rightarrow>
        let ctx = ctx\<lparr>ctx_UserData := Some details\<rparr> in
        (case res of Inl err \<Rightarrow> (Inl err, ctx) | Inr resp \<Rightarrow> (Inr x, set_resp x resp ctx)))"

text \<open>The two handlers, with the record that each sends to the logger and the file of the body.\<close>

definition dump_request :: "'r \<Rightarrow> string \<Rightarrow> string \<Rightarrow> http_request \<Rightarrow> nat \<Rightarrow> ('r, 'd option) pctx
    \<Rightarrow> ((meta \<times> file_stream option) \<times> (nat option \<times> nat option)) \<times> ('r, 'd option) pctx" where
  "dump_request rt lpath now emptyReq req ctx =
     (let ctx = ctx\<lparr>ctx_RoundTripper := Some rt\<rparr>
      in ((LogReq lpath now emptyReq (Some req) ctx, (Some req, None)), ctx))"

definition dump_response :: "string \<Rightarrow> string \<Rightarrow> http_response \<Rightarrow> ('d \<Rightarrow> string) \<Rightarrow> nat option \<Rightarrow> ('r, 'd option) pctx
    \<Rightarrow> ((meta \<times> file_stream option) \<times> nat option) outcome" where
  "dump_response lpath now emptyResp tcp_addr resp ctx =
     (case LogResp lpath now emptyResp tcp_addr resp ctx of
        Ret l \<Rightarrow> Ret (l, resp)
      | Block \<Rightarrow> Block
      | Panic m \<Rightarrow> Panic m)"

text \<open>
  What a response is logged with: the request's session, which names the file of the body, and
  the address of the trip that brought it. A trip that fails before it has a connection leaves
  a nil pointer in the context, which is not the nil interface that LogResp tests for: instead
  of logging the error the handler of the response panics.
\<close>

theorem response_logged_with_address:
  assumes "tr (reqs ctx req) = (Some d, Inr resp)"
  shows "\<exists>ctx' m f. dump_round_trip tr x req ctx = (Inr x, ctx') \<and>
    dump_response lpath now emptyResp tcp_addr (Some x) ctx' = Ret ((m, Some f), Some x) \<and>
    m_resp m = Some resp \<and> m_from m = tcp_addr d \<and> m_sess m = sint (ctx_Session ctx) \<and>
    f = NewFileStream (lpath @ ''/'' @ Itoa (sint (ctx_Session ctx)) @ ''_resp'')"
  using assms by (simp add: dump_round_trip_def dump_response_def LogResp_def set_resp_def)

theorem unreachable_host_panics:
  assumes "tr (reqs ctx req) = (None, Inl err)"
  shows "\<exists>ctx'. dump_round_trip tr x req ctx = (Inl err, ctx') \<and>
    is_panic (dump_response lpath now emptyResp tcp_addr None (ctx'\<lparr>ctx_Error := Some err\<rparr>))"
  using assms by (simp add: dump_round_trip_def dump_response_def LogResp_def)

definition demo_dump_ctx :: "(nat, roundTripDetails option) pctx" where
  "demo_dump_ctx = \<lparr>reqs = (\<lambda>p. demo_trip_req), resps = (\<lambda>p. demo_trip_resp), ctx_Req = 0, ctx_Resp = None,
     ctx_RoundTripper = None, ctx_Error = None, ctx_UserData = None, ctx_Session = 1\<rparr>"

theorem unreachable_host_panics_witness:
  "\<exists>ctx'. dump_round_trip (\<lambda>req. case http_trip None (\<lambda>u. None) None (\<lambda>a. Inl io_EOF) (\<lambda>ip::nat. Inr ()) (\<lambda>p a. Inl io_EOF) (\<lambda>h. None)
        (\<lambda>p r. None) (Inl io_EOF) None 7 False req demo_transport of
          Ret ((details, resp, Some err), t) \<Rightarrow> (details, Inl err) | _ \<Rightarrow> (None, Inr demo_trip_resp)) 1 0
      demo_dump_ctx = (Inl io_EOF, ctx') \<and>
    is_panic (dump_response ''db'' [] demo_trip_resp rd_Host None (ctx'\<lparr>ctx_Error := Some io_EOF\<rparr>))"
proof -
  have s: "url_Scheme (req_URL demo_trip_req) = ''http''" by (simp add: demo_trip_req_def)
  have "http_trip None (\<lambda>u. None) None (\<lambda>a. Inl io_EOF) (\<lambda>ip::nat. Inr ()) (\<lambda>p a. Inl io_EOF) (\<lambda>h. None)
      (\<lambda>p r. None) (Inl io_EOF) None 7 False demo_trip_req demo_transport =
      Ret ((None, None, Some io_EOF), demo_transport\<lparr>tr_idle := Some Map.empty\<rparr>)"
    by (rule unresolved_no_details [OF s]) (simp_all add: getIdleConn_def demo_transport_def)
  moreover have "reqs demo_dump_ctx 0 = demo_trip_req" by (simp add: demo_dump_ctx_def)
  ultimately show ?thesis by (intro unreachable_host_panics) simp
qed

section \<open>The listener\<close>

text \<open>
  A WaitGroup's counter, the accepted connections that are open, and how far the handling of
  the interrupt has got: 0 not begun, 1 the listener is closed, 2 done.
\<close>

record stoppable =
  sl_wg :: int
  sl_open :: "nat set"
  sl_next :: nat
  sl_stop :: nat

definition wg_Add :: "int \<Rightarrow> stoppable \<Rightarrow> stoppable outcome" where
  "wg_Add d s = (if sl_wg s + d < 0 then Panic ''sync: negative WaitGroup counter''
     else Ret (s\<lparr>sl_wg := sl_wg s + d\<rparr>))"

definition sl_Accept :: "stoppable \<Rightarrow> stoppable outcome" where
  "sl_Accept s = wg_Add 1 (s\<lparr>sl_open := insert (sl_next s) (sl_open s), sl_next := Suc (sl_next s)\<rparr>)"

definition sc_Close :: "nat \<Rightarrow> stoppable \<Rightarrow> stoppable outcome" where
  "sc_Close c s = wg_Add (-1) (s\<lparr>sl_open := sl_open s - {c}\<rparr>)"

inductive stop_step :: "stoppable \<Rightarrow> stoppable \<Rightarrow> bool" where
  accepted: "sl_stop s = 0 \<Longrightarrow> sl_Accept s = Ret t \<Longrightarrow> stop_step s t"
| closed: "c \<in> sl_open s \<Longrightarrow> sc_Close c s = Ret t \<Longrightarrow> stop_step s t"
| interrupt: "sl_stop s = 0 \<Longrightarrow> wg_Add 1 s = Ret t \<Longrightarrow> stop_step s (t\<lparr>sl_stop := 1\<rparr>)"
| logged: "sl_stop s = 1 \<Longrightarrow> wg_Add (-1) s = Ret t \<Longrightarrow> stop_step s (t\<lparr>sl_stop := 2\<rparr>)"

definition stop_start :: "stoppable \<Rightarrow> bool" where
  "stop_start s \<longleftrightarrow> s = \<lparr>sl_wg = 0, sl_open = {}, sl_next = 0, sl_stop = 0\<rparr>"

definition stop_ok :: "stoppable \<Rightarrow> bool" where
  "stop_ok s \<longleftrightarrow> finite (sl_open s) \<and> (\<forall>c \<in> sl_open s. c < sl_next s) \<and>
     sl_wg s = int (card (sl_open s)) + (if sl_stop s = 1 then 1 else 0)"

interpretation stop_system: invariant_system stop_start stop_step stop_ok
proof unfold_locales
  show "stop_ok s" if "stop_start s" for s using that by (simp add: stop_start_def stop_ok_def)
next
  fix s t assume ok: "stop_ok s" and "stop_step s t"
  from this(2) show "stop_ok t"
  proof cases
    case accepted
    moreover have "sl_next s \<notin> sl_open s" using ok by (auto simp: stop_ok_def)
    ultimately show ?thesis
      using ok by (auto simp: stop_ok_def sl_Accept_def wg_Add_def less_Suc_eq split: if_splits)
  next
    case (closed c)
    then have "0 < card (sl_open s)" using ok by (auto simp: stop_ok_def card_gt_0_iff)
    then have n: "int (card (sl_open s - {c})) = int (card (sl_open s)) - 1" using closed(1) by simp
    have t: "t = s\<lparr>sl_open := sl_open s - {c}, sl_wg := sl_wg s - 1\<rparr>"
      using closed(2) by (simp add: sc_Close_def wg_Add_def split: if_splits)
    show ?thesis unfolding t using ok n by (simp add: stop_ok_def del: card_Diff_insert)
  qed (use ok in \<open>auto simp: stop_ok_def wg_Add_def split: if_splits\<close>)
qed

text \<open>Nothing guards against closing a connection twice: the last one closed again is a panic.\<close>

lemma double_close_panics:
  assumes "stop_ok s" and "sl_stop s = 0" and "sl_open s = {c}"
  shows "\<exists>t. sc_Close c s = Ret t \<and> is_panic (sc_Close c t)"
  using assms by (auto simp: stop_ok_def sc_Close_def wg_Add_def)

text \<open>
  The program ends in order: Wait returns, which it does when the counter is 0, only when every
  accepted connection has been closed and the interrupt, if it came, has been handled in full;
  and no close of an open connection makes the counter negative.
\<close>

theorem wait_means_all_closed:
  assumes "reachable stop_start stop_step s"
  shows "(sl_wg s = 0 \<longleftrightarrow> sl_open s = {} \<and> sl_stop s \<noteq> 1) \<and> (\<forall>c \<in> sl_open s. \<not> is_panic (sc_Close c s))"
proof -
  have ok: "stop_ok s" by (rule stop_system.inv_reachable [OF assms])
  have "\<not> is_panic (sc_Close c s)" if "c \<in> sl_open s" for c
  proof -
    have "0 < card (sl_open s)" using ok that by (auto simp: stop_ok_def card_gt_0_iff)
    with ok show ?thesis by (auto simp: stop_ok_def sc_Close_def wg_Add_def)
  qed
  with ok show ?thesis by (auto simp: stop_ok_def)
qed

end
