(* ===== verification/Ex_Handlers.thy ===== *)
theory Ex_Handlers
  imports Gp_Https
begin

text \<open>
  The example programs that register request and CONNECT handlers: examples/basic,
  noRedditAtWorktime, sslstrip, eavesdropper and sokeepalive. The clock, the dialling and what
  URL.String gives after a change of the URL are parameters.
\<close>

section \<open>basic\<close>

definition basic_proxy :: "('r, 'u) proxy" where
  "basic_proxy = NewProxyHttpServer"

section \<open>noRedditAtWorktime\<close>

text \<open>The hour is the one the clock gives when the request is handled.\<close>

definition noReddit :: "int \<Rightarrow> nat \<Rightarrow> ('r, 'u) req_handler" where
  "noReddit h fresh r ctx =
     (if 8 \<le> h \<and> h \<le> 17 then
        ((Some r, Some fresh), set_resp fresh (NewResponse fresh ''text/plain'' 403 ''Don't waste your time!'') ctx)
      else ((Some r, None), ctx))"

definition noReddit_proxy :: "int \<Rightarrow> nat \<Rightarrow> ('r, 'u) proxy" where
  "noReddit_proxy h fresh = Do_request [DstHostIs ''www.reddit.com''] (noReddit h fresh) NewProxyHttpServer"

text \<open>
  During work time a request to the host is answered without the transport, whatever that is:
  403 with the reproach. Any other request, or any request at another time, is treated by the
  filter as if no handler were there.
\<close>

theorem noReddit_at_worktime:
  assumes "url_Host (req_URL (reqs st r)) = ''www.reddit.com''" and "8 \<le> h" and "h \<le> 17"
    and "url_Scheme (req_URL (reqs st r)) \<noteq> []"
  shows "\<exists>w' ctx. (\<forall>call tr. fst (ServeHTTP call tr (noReddit_proxy h fresh) w r st) = Ret (w', ctx)) \<and>
    cw_Status w' = Some 403 \<and> cw_Body w' = cw_Body w @ bytes_of ''Don't waste your time!''"
  using assms
  by (simp add: ServeHTTP_def noReddit_proxy_def Do_request_def NewProxyHttpServer_def filterRequest_def cond_req_handler_def
      DstHostIs_def noReddit_def new_ctx_def send_response_def filterResponse_def set_resp_def NewResponse_def buffer_body_def Let_def)

theorem noReddit_otherwise:
  "filterRequest (noReddit_proxy h fresh) r ctx =
    (if url_Host (req_URL (reqs ctx r)) = ''www.reddit.com'' \<and> 8 \<le> h \<and> h \<le> 17
     then ((Some r, Some fresh), set_resp fresh (NewResponse fresh ''text/plain'' 403 ''Don't waste your time!'') ctx)
     else filterRequest NewProxyHttpServer r ctx)"
  by (simp add: noReddit_proxy_def Do_request_def NewProxyHttpServer_def filterRequest_def cond_req_handler_def
      DstHostIs_def noReddit_def)

text \<open>The block is one of plain requests: a CONNECT to the host is tunnelled at any time.\<close>

lemma noReddit_connect: "httpsHandlers (noReddit_proxy h fresh) = []"
  by (simp add: noReddit_proxy_def Do_request_def NewProxyHttpServer_def)

section \<open>sslstrip\<close>

definition strip_tls :: "(url \<Rightarrow> string) \<Rightarrow> ('r, 'u) req_handler" where
  "strip_tls show r ctx =
     (let req = reqs ctx r; u = (req_URL req)\<lparr>url_Scheme := ''http''\<rparr> in
      if url_Scheme (req_URL req) = ''https''
      then ((Some r, None), set_req r (req\<lparr>req_URL := u\<lparr>url_String := show u\<rparr>\<rparr>) ctx)
      else ((Some r, None), ctx))"

definition sslstrip_proxy :: "(url \<Rightarrow> string) \<Rightarrow> ('r, 'u) proxy" where
  "sslstrip_proxy show = Do_request [] (strip_tls show) (HandleConnect [] AlwaysMitm NewProxyHttpServer)"

text \<open>
  Every CONNECT is intercepted, and no request leaves with TLS: after the filter the scheme is
  not https, while the method, the host, the path, the header and the body are the client's.
\<close>

theorem sslstrip_downgrades:
  "\<exists>ctx'. filterRequest (sslstrip_proxy show) r ctx = ((Some r, None), ctx') \<and>
    (let q = reqs ctx' r; q0 = reqs ctx r in
      url_Scheme (req_URL q) = (if url_Scheme (req_URL q0) = ''https'' then ''http'' else url_Scheme (req_URL q0)) \<and>
      url_Host (req_URL q) = url_Host (req_URL q0) \<and> url_Path (req_URL q) = url_Path (req_URL q0) \<and>
      req_Method q = req_Method q0 \<and> req_Header q = req_Header q0 \<and> req_Body q = req_Body q0) \<and>
    fst (connect_loop (httpsHandlers (sslstrip_proxy show :: ('r, 'u) proxy)) OkConnect host ctx) = (MitmConnect, host)"
  by (simp add: sslstrip_proxy_def Do_request_def HandleConnect_def NewProxyHttpServer_def filterRequest_def
      cond_req_handler_def cond_https_handler_def strip_tls_def set_req_def AlwaysMitm_def Let_def)

section \<open>eavesdropper\<close>

text \<open>
  The three expressions \<open>^.*baidu.com$\<close>, \<open>^.*$\<close> and \<open>^.*:80$\<close>; the dot is any character but a
  newline.
\<close>

definition no_newline :: "string \<Rightarrow> bool" where
  "no_newline s \<longleftrightarrow> CHR 0x0A \<notin> set s"

definition re_baidu :: "string \<Rightarrow> bool" where
  "re_baidu s \<longleftrightarrow> no_newline s \<and> 9 \<le> length s \<and> take 5 (drop (length s - 9) s) = ''baidu'' \<and> drop (length s - 3) s = ''com''"

definition re_port80 :: "string \<Rightarrow> bool" where
  "re_port80 s \<longleftrightarrow> no_newline s \<and> HasSuffix s '':80''"

definition eavesdropper_proxy :: "nat \<Rightarrow> ('r, 'u) proxy" where
  "eavesdropper_proxy hijack =
     HijackConnect [ReqHostMatches [re_port80]] hijack
       (HandleConnect [ReqHostMatches [no_newline]] AlwaysMitm
         (HandleConnect [ReqHostMatches [re_baidu]] AlwaysReject NewProxyHttpServer))"

text \<open>
  The function for port 80: an exchange of requests and responses on the two connections, whose
  only end is a panic, which is recovered: the client is told of an error and closed, the
  remote connection is not. \<open>xs\<close> are the requests read from the client, each with the response
  then read from the remote; the last one fails.
\<close>

definition cannot_reach :: bytes where
  "cannot_reach = bytes_of (''HTTP/1.1 500 Cannot reach destination'' @ crlf @ crlf)"

definition recovered :: "conn \<Rightarrow> conn" where
  "recovered client = conn_Close (snd (conn_Write cannot_reach client))"

fun hijack_loop :: "((werror + bytes) \<times> (werror + bytes)) list \<Rightarrow> conn \<Rightarrow> conn \<Rightarrow> conn \<times> conn" where
  "hijack_loop [] client remote = (recovered client, remote)"
| "hijack_loop ((Inl e, y) # xs) client remote = (recovered client, remote)"
| "hijack_loop ((Inr req, y) # xs) client remote =
     (case conn_Write req remote of
        ((_, Some e), remote) \<Rightarrow> (recovered client, remote)
      | ((_, None), remote) \<Rightarrow>
          (case y of
             Inl e \<Rightarrow> (recovered client, remote)
           | Inr resp \<Rightarrow>
               (case conn_Write resp client of
                  ((_, Some e), client) \<Rightarrow> (recovered client, remote)
                | ((_, None), client) \<Rightarrow> hijack_loop xs client remote)))"

definition hijack :: "(string \<Rightarrow> werror + conn) \<Rightarrow> string \<Rightarrow> ((werror + bytes) \<times> (werror + bytes)) list \<Rightarrow> conn
    \<Rightarrow> conn \<times> conn option" where
  "hijack dial host xs client = (case dial host of
      Inl e \<Rightarrow> (recovered client, None)
    | Inr remote \<Rightarrow> (case hijack_loop xs client remote of (client, remote) \<Rightarrow> (client, Some remote)))"

text \<open>
  The rejection of one site does not work: the handler that intercepts every host comes later
  and takes its place, so that no request is ever rejected.
\<close>

theorem eavesdropper_never_rejects:
  assumes "no_newline (req_Host (reqs ctx (ctx_Req ctx)))"
  shows "fst (connect_loop (httpsHandlers (eavesdropper_proxy f :: ('r, 'u) proxy)) OkConnect host ctx) =
    (if re_port80 (req_Host (reqs ctx (ctx_Req ctx))) then ((action_only ConnectHijack)\<lparr>ca_Hijack := Some f\<rparr>, host)
     else (MitmConnect, host))"
  using assms
  by (simp add: eavesdropper_proxy_def HijackConnect_def HandleConnect_def NewProxyHttpServer_def cond_https_handler_def
      ReqHostMatches_def AlwaysMitm_def AlwaysReject_def)

theorem eavesdropper_never_rejects_witness:
  "fst (connect_loop (httpsHandlers (eavesdropper_proxy 7 :: (nat, nat) proxy)) OkConnect ''www.baidu.com''
      (demo_ctx (demo_request ''www.baidu.com'' ''/'' []))) = (MitmConnect, ''www.baidu.com'')"
  by (subst eavesdropper_never_rejects)
    (simp_all add: demo_ctx_def demo_request_def no_newline_def re_port80_def HasSuffix_def)

text \<open>
  The exchange hands every request over and every answer back, in order; at its end, also the
  normal one, the client gets an error it did not ask for, and the remote connection stays open.
\<close>

theorem hijack_exchange:
  assumes "conn_sound client" and "conn_sound remote" and "\<not> cn_closed remote"
  shows "\<exists>c r. hijack_loop (map (\<lambda>(q, y). (Inr q, Inr y)) xs @ [(Inl io_EOF, z)]) client remote = (c, r) \<and>
    cn_out r = cn_out remote @ concat (map fst xs) \<and> cn_out c = cn_out client @ concat (map snd xs) @ cannot_reach \<and>
    cn_closed c \<and> \<not> cn_closed r"
  using assms
proof (induction xs arbitrary: client remote)
  case Nil
  then show ?case by (simp add: recovered_def conn_Close_def conn_Write_def conn_sound_def)
next
  case (Cons x xs)
  obtain q y where x: "x = (q, y)" by fastforce
  obtain r1 where r1: "conn_Write q remote = ((length q, None), r1)" "conn_sound r1" "cn_out r1 = cn_out remote @ q"
    by (rule conn_sink.write_steps [OF Cons.prems(2)])
  obtain c1 where c1: "conn_Write y client = ((length y, None), c1)" "conn_sound c1" "cn_out c1 = cn_out client @ y"
    by (rule conn_sink.write_steps [OF Cons.prems(1)])
  have "\<not> cn_closed r1" using r1(1) Cons.prems(2,3) by (auto simp: conn_Write_def conn_sound_def)
  from Cons.IH [OF c1(2) r1(2) this] x r1 c1 show ?case by auto
qed

section \<open>sokeepalive\<close>

text \<open>
  The dialling function, with the flag that keep-alive has been set. A failed dial of Go gives
  a nil connection of the interface, whose type assertion does not hold.
\<close>

definition so_dial :: "(string \<Rightarrow> werror + conn) \<Rightarrow> string \<Rightarrow> (werror + conn) \<times> bool" where
  "so_dial dial addr =
     (let res = dial addr;
          ok = (case res of Inl e \<Rightarrow> False | Inr c \<Rightarrow> True);
          failed = (case res of Inl e \<Rightarrow> True | Inr c \<Rightarrow> False)
      in (res, failed \<and> ok))"

text \<open>Keep-alive is never set: the test of the error is the wrong way round.\<close>

theorem so_keepalive_never: "\<not> snd (so_dial dial addr)"
  by (simp add: so_dial_def Let_def split: sum.split)

end
