(* ===== verification/Gp_Regret.thy ===== *)
theory Gp_Regret
  imports Ws_Io
begin

text \<open>
  goproxy/regretable/regretreader.go: a reader that remembers what was read in a buffer of
  fixed size and can go back to its start. Over any reader that keeps the contract of an
  io.Reader it keeps that contract itself, and Regret brings back every byte read since the
  last Forget.
\<close>

section \<open>The reader\<close>

record 's regretable =
  rg_reader :: 's
  rg_overflow :: bool
  rg_r :: nat
  rg_w :: nat
  rg_buf :: bytes

definition NewRegretableReaderSize :: "'s \<Rightarrow> nat \<Rightarrow> 's regretable" where
  "NewRegretableReaderSize r sz =
     \<lparr>rg_reader = r, rg_overflow = False, rg_r = 0, rg_w = 0, rg_buf = replicate sz 0\<rparr>"

definition defaultBufferSize :: nat where "defaultBufferSize = 500"

definition NewRegretableReader :: "'s \<Rightarrow> 's regretable" where
  "NewRegretableReader r = NewRegretableReaderSize r defaultBufferSize"

definition Regret :: "'s regretable \<Rightarrow> 's regretable outcome" where
  "Regret rb = (if rg_overflow rb then Panic ''regretting after overflow makes no sense''
     else Ret (rb\<lparr>rg_r := 0\<rparr>))"

definition Forget :: "'s regretable \<Rightarrow> 's regretable outcome" where
  "Forget rb = (if rg_overflow rb then Panic ''forgetting after overflow makes no sense''
     else Ret (rb\<lparr>rg_r := 0, rg_w := 0\<rparr>))"

text \<open>copy(dst[i:], src)\<close>

definition copy_at :: "nat \<Rightarrow> bytes \<Rightarrow> bytes \<Rightarrow> bytes" where
  "copy_at i src dst = (let n = min (length dst - i) (length src)
     in take i dst @ take n src @ drop (i + n) dst)"

definition regret_Read :: "(nat \<Rightarrow> 's \<Rightarrow> bytes rres \<times> 's) \<Rightarrow> nat \<Rightarrow> 's regretable
    \<Rightarrow> bytes rres \<times> 's regretable" where
  "regret_Read rd n rb =
     (if rg_overflow rb then
        (case rd n (rg_reader rb) of (x, s) \<Rightarrow> (x, rb\<lparr>rg_reader := s\<rparr>))
      else if rg_r rb < rg_w rb then
        (let k = min n (rg_w rb - rg_r rb)
         in (RVal (take k (drop (rg_r rb) (rg_buf rb))), rb\<lparr>rg_r := rg_r rb + k\<rparr>))
      else
        (case rd n (rg_reader rb) of
           (RVal b, s) \<Rightarrow>
             let bn = min (length (rg_buf rb) - rg_w rb) (length b)
             in (RVal b, rb\<lparr>rg_reader := s, rg_buf := copy_at (rg_w rb) b (rg_buf rb),
                  rg_r := rg_w rb + length b, rg_w := rg_w rb + bn, rg_overflow := bn < length b\<rparr>)
         | (RErr e, s) \<Rightarrow> (RErr e, rb\<lparr>rg_reader := s, rg_r := rg_w rb\<rparr>)
         | (RBlock, s) \<Rightarrow> (RBlock, rb\<lparr>rg_reader := s\<rparr>)))"

lemma length_copy_at [simp]: "i \<le> length dst \<Longrightarrow> length (copy_at i src dst) = length dst"
  by (simp add: copy_at_def Let_def min_def)

lemma take_copy_at:
  "i \<le> length dst \<Longrightarrow> n = min (length dst - i) (length src) \<Longrightarrow>
    take (i + n) (copy_at i src dst) = take i dst @ take n src"
  by (simp add: copy_at_def Let_def min_def)

section \<open>The contract\<close>

text \<open>The indices stay inside the buffer until it overflows.\<close>

definition regret_ok :: "'s regretable \<Rightarrow> bool" where
  "regret_ok rb \<longleftrightarrow> rg_overflow rb \<or> rg_r rb \<le> rg_w rb \<and> rg_w rb \<le> length (rg_buf rb)"

definition regret_rest :: "('s \<Rightarrow> bytes) \<Rightarrow> 's regretable \<Rightarrow> bytes" where
  "regret_rest rest rb = (if rg_overflow rb then rest (rg_reader rb)
     else drop (rg_r rb) (take (rg_w rb) (rg_buf rb)) @ rest (rg_reader rb))"

text \<open>All bytes since the last Forget, while the buffer holds them.\<close>

definition remembered :: "('s \<Rightarrow> bytes) \<Rightarrow> 's regretable \<Rightarrow> bytes" where
  "remembered rest rb = take (rg_w rb) (rg_buf rb) @ rest (rg_reader rb)"

definition regret_good :: "('s \<Rightarrow> bool) \<Rightarrow> 's regretable \<Rightarrow> bool" where
  "regret_good good rb \<longleftrightarrow> regret_ok rb \<and> good (rg_reader rb)"

lemma regret_ok_new: "regret_ok (NewRegretableReaderSize r sz)"
  by (simp add: regret_ok_def NewRegretableReaderSize_def)

lemma take_drop_split: "k \<le> w - r \<Longrightarrow> drop r (take w xs) = take k (drop r xs) @ drop (r + k) (take w xs)"
proof -
  assume "k \<le> w - r"
  then have "take k (drop r (take w xs)) = take k (drop r xs)" by (simp add: drop_take min_def)
  moreover have "drop (r + k) (take w xs) = drop k (drop r (take w xs))" by (simp add: add.commute)
  ultimately show ?thesis by (metis append_take_drop_id)
qed

context byte_source
begin

lemma regret_Read_buffered:
  assumes "\<not> rg_overflow rb" and "rg_r rb < rg_w rb" and "regret_ok rb"
    and "regret_Read read n rb = (x, rb')"
  shows "\<exists>b. x = RVal b \<and> length b \<le> n \<and> (0 < n \<longrightarrow> b \<noteq> []) \<and> regret_ok rb' \<and>
    rg_reader rb' = rg_reader rb \<and> \<not> rg_overflow rb' \<and> regret_rest rest rb = b @ regret_rest rest rb' \<and>
    remembered rest rb' = remembered rest rb"
proof -
  let ?k = "min n (rg_w rb - rg_r rb)"
  have x: "x = RVal (take ?k (drop (rg_r rb) (rg_buf rb)))" "rb' = rb\<lparr>rg_r := rg_r rb + ?k\<rparr>"
    using assms by (simp_all add: regret_Read_def Let_def)
  have "?k \<le> rg_w rb - rg_r rb" by simp
  from take_drop_split [OF this, of "rg_buf rb"] assms x show ?thesis
    by (auto simp: regret_rest_def regret_ok_def remembered_def)
qed

lemma regret_Read_fresh:
  assumes "\<not> rg_overflow rb" and "\<not> rg_r rb < rg_w rb" and ok: "regret_ok rb" and g: "good (rg_reader rb)"
    and "regret_Read read n rb = (RVal b, rb')"
  shows "length b \<le> n \<and> regret_ok rb' \<and> good (rg_reader rb') \<and> regret_rest rest rb = b @ regret_rest rest rb' \<and>
    (\<not> rg_overflow rb' \<longrightarrow> remembered rest rb' = remembered rest rb)"
proof -
  obtain s where rd: "read n (rg_reader rb) = (RVal b, s)"
    and rb': "rb' = rb\<lparr>rg_reader := s, rg_buf := copy_at (rg_w rb) b (rg_buf rb), rg_r := rg_w rb + length b,
      rg_w := rg_w rb + min (length (rg_buf rb) - rg_w rb) (length b),
      rg_overflow := min (length (rg_buf rb) - rg_w rb) (length b) < length b\<rparr>"
    using assms by (auto simp: regret_Read_def Let_def split: prod.splits rres.splits)
  note v = read_val [OF g rd]
  have w: "rg_w rb \<le> length (rg_buf rb)" "rg_r rb = rg_w rb" using ok assms(1,2) by (auto simp: regret_ok_def)
  show ?thesis
  proof (cases "length b \<le> length (rg_buf rb) - rg_w rb")
    case True
    then have "take (rg_w rb + length b) (copy_at (rg_w rb) b (rg_buf rb)) = take (rg_w rb) (rg_buf rb) @ b"
      using take_copy_at [OF w(1), of "length b" b] by simp
    with True w v assms(1) show ?thesis
      by (auto simp: rb' regret_ok_def regret_rest_def remembered_def min_def)
  next
    case False
    with w v assms(1) show ?thesis by (auto simp: rb' regret_ok_def regret_rest_def min_def)
  qed
qed

lemma regret_Read_val:
  assumes "regret_good good rb" and r: "regret_Read read n rb = (RVal b, rb')"
  shows "regret_good good rb' \<and> regret_rest rest rb = b @ regret_rest rest rb' \<and> length b \<le> n \<and>
    (\<not> rg_overflow rb' \<longrightarrow> \<not> rg_overflow rb \<and> remembered rest rb' = remembered rest rb)"
proof -
  have g: "regret_ok rb" "good (rg_reader rb)" using assms(1) by (simp_all add: regret_good_def)
  consider "rg_overflow rb" | "\<not> rg_overflow rb" "rg_r rb < rg_w rb" | "\<not> rg_overflow rb" "\<not> rg_r rb < rg_w rb" by blast
  then show ?thesis
  proof cases
    case 1
    with r obtain s where "read n (rg_reader rb) = (RVal b, s)" "rb' = rb\<lparr>rg_reader := s\<rparr>"
      by (auto simp: regret_Read_def split: prod.splits)
    with 1 read_val [OF g(2)] show ?thesis by (simp add: regret_good_def regret_ok_def regret_rest_def)
  next
    case 2
    from regret_Read_buffered [OF 2 g(1) r] g(2) 2 show ?thesis by (auto simp: regret_good_def)
  next
    case 3
    from regret_Read_fresh [OF 3 g r] 3 show ?thesis by (auto simp: regret_good_def)
  qed
qed

lemma regret_is_source: "byte_source (regret_Read read) (regret_rest rest) (regret_good good)"
proof
  fix rb rb' :: "'s regretable" and n b
  assume "regret_good good rb" and "regret_Read read n rb = (RVal b, rb')"
  then show "regret_good good rb' \<and> regret_rest rest rb = b @ regret_rest rest rb' \<and> length b \<le> n"
    using regret_Read_val by blast
next
  fix rb :: "'s regretable" and n :: nat
  assume g: "regret_good good rb" and n: "0 < n" and e: "regret_rest rest rb = []"
  have "rg_overflow rb \<or> \<not> rg_r rb < rg_w rb" "rest (rg_reader rb) = []"
    using g e by (auto simp: regret_good_def regret_ok_def regret_rest_def split: if_splits)
  moreover obtain s where "read n (rg_reader rb) = (RErr io_EOF, s)"
    using read_end [OF _ n] g \<open>rest (rg_reader rb) = []\<close> by (auto simp: regret_good_def)
  ultimately show "\<exists>rb'. regret_Read read n rb = (RErr io_EOF, rb')"
    by (auto simp: regret_Read_def)
next
  fix rb :: "'s regretable" and n :: nat
  assume g: "regret_good good rb" and n: "0 < n" and e: "regret_rest rest rb \<noteq> []"
  show "\<exists>b rb'. regret_Read read n rb = (RVal b, rb') \<and> b \<noteq> []"
  proof (cases "\<not> rg_overflow rb \<and> rg_r rb < rg_w rb")
    case True
    with g n regret_Read_buffered [of rb n] show ?thesis
      by (cases "regret_Read read n rb") (auto simp: regret_good_def)
  next
    case False
    with e have "rest (rg_reader rb) \<noteq> []" by (auto simp: regret_rest_def split: if_splits)
    moreover have "good (rg_reader rb)" using g by (simp add: regret_good_def)
    ultimately obtain b s where "read n (rg_reader rb) = (RVal b, s)" "b \<noteq> []"
      using read_some [OF _ n] by blast
    with False show ?thesis by (auto simp: regret_Read_def Let_def)
  qed
qed

end

interpretation regret_bufio: byte_source "regret_Read rd_Read" "regret_rest rd_in" "regret_good rd_complete"
  by (rule bufio.regret_is_source)

section \<open>Going back\<close>

text \<open>Reads of the given sizes; the end of the input gives nothing.\<close>

fun regret_Reads :: "(nat \<Rightarrow> 's \<Rightarrow> bytes rres \<times> 's) \<Rightarrow> nat list \<Rightarrow> 's regretable \<Rightarrow> bytes \<times> 's regretable" where
  "regret_Reads rd [] rb = ([], rb)"
| "regret_Reads rd (n # ns) rb =
     (case regret_Read rd n rb of
        (RVal b, rb) \<Rightarrow> (case regret_Reads rd ns rb of (bs, rb) \<Rightarrow> (b @ bs, rb))
      | (RErr e, rb) \<Rightarrow> ([], rb)
      | (RBlock, rb) \<Rightarrow> ([], rb))"

lemma rd_Read_err: "rd_Read n r = (x, r') \<Longrightarrow> \<forall>b. x \<noteq> RVal b \<Longrightarrow> r' = r"
  by (auto simp: rd_Read_def split: if_splits)

lemma regret_bufio_other:
  assumes "regret_Read rd_Read n rb = (x, rb')" and "\<And>b. x \<noteq> RVal b" and "regret_good rd_complete rb"
  shows "regret_good rd_complete rb' \<and> rg_reader rb' = rg_reader rb \<and> rg_overflow rb' = rg_overflow rb \<and>
    rg_w rb' = rg_w rb \<and> rg_buf rb' = rg_buf rb"
  using assms
  by (auto simp: regret_Read_def regret_good_def regret_ok_def Let_def
      split: if_splits prod.splits rres.splits dest!: rd_Read_err)

lemma regret_Reads_keep:
  "regret_good rd_complete rb \<Longrightarrow> regret_Reads rd_Read ns rb = (bs, rb') \<Longrightarrow>
    regret_good rd_complete rb' \<and>
    (\<not> rg_overflow rb' \<longrightarrow> \<not> rg_overflow rb \<and> remembered rd_in rb' = remembered rd_in rb)"
proof (induction ns arbitrary: rb bs)
  case (Cons n ns)
  obtain x rb1 where r: "regret_Read rd_Read n rb = (x, rb1)" by fastforce
  show ?case
  proof (cases x)
    case (RVal b)
    note v = bufio.regret_Read_val [OF Cons.prems(1) r [unfolded RVal]]
    obtain cs where rs: "regret_Reads rd_Read ns rb1 = (cs, rb')"
      using Cons.prems(2) r RVal by (auto split: prod.splits)
    from Cons.IH [OF _ rs] v show ?thesis by auto
  next
    case (RErr e)
    then have "rb' = rb1" using Cons.prems(2) r by simp
    with regret_bufio_other [OF r _ Cons.prems(1)] RErr show ?thesis by (auto simp: remembered_def)
  next
    case RBlock
    then have "rb' = rb1" using Cons.prems(2) r by simp
    with regret_bufio_other [OF r _ Cons.prems(1)] RBlock show ?thesis by (auto simp: remembered_def)
  qed
qed simp

text \<open>
  C34: Regret undoes all reads since the reader was made: whatever was read, with whatever
  sizes, if the buffer did not overflow the reader afterwards delivers the whole input again
  from its start.
\<close>

theorem regret_replays:
  assumes "regret_Reads rd_Read ns (NewRegretableReaderSize r sz) = (bs, rb)" and "rd_end r = Some io_EOF"
    and "\<not> rg_overflow rb" and "length (rd_in r) < k"
  shows "\<exists>rb' s. Regret rb = Ret rb' \<and> ReadAll (regret_Read rd_Read) k 512 [] rb' = (RVal (rd_in r, None), s)"
proof -
  have g: "regret_good rd_complete (NewRegretableReaderSize r sz)"
    using assms(2) regret_ok_new by (simp add: regret_good_def rd_complete_def NewRegretableReaderSize_def regret_ok_def)
  note keep = regret_Reads_keep [OF g assms(1)]
  let ?rb = "rb\<lparr>rg_r := 0\<rparr>"
  have rest: "regret_rest rd_in ?rb = rd_in r"
    using keep assms(3) by (simp add: regret_rest_def remembered_def NewRegretableReaderSize_def)
  have "regret_good rd_complete ?rb" using keep assms(3) by (simp add: regret_good_def regret_ok_def)
  from regret_bufio.ReadAll_rest [OF this, of 512 k "[]"] rest assms(3,4) show ?thesis
    by (auto simp: Regret_def)
qed

theorem regret_replays_witness:
  "\<exists>rb s. Regret (snd (regret_Reads rd_Read [1, 1] (NewRegretableReaderSize
      \<lparr>rd_in = [1, 2, 3], rd_end = Some io_EOF, rd_sizes = []\<rparr> 2))) = Ret rb \<and>
    ReadAll (regret_Read rd_Read) 4 512 [] rb = (RVal ([1, 2, 3], None), s)"
proof -
  have "regret_Reads rd_Read [1, 1] (NewRegretableReaderSize \<lparr>rd_in = [1, 2, 3], rd_end = Some io_EOF, rd_sizes = []\<rparr> 2) =
      ([1, 2], \<lparr>rg_reader = \<lparr>rd_in = [3], rd_end = Some io_EOF, rd_sizes = []\<rparr>, rg_overflow = False, rg_r = 2, rg_w = 2, rg_buf = [1, 2]\<rparr>)"
    by (simp add: regret_Read_def rd_Read_def rd_size_def NewRegretableReaderSize_def copy_at_def eval_nat_numeral)
  from regret_replays [OF this, of 4] \<open>regret_Reads _ _ _ = _\<close> show ?thesis by simp
qed

text \<open>
  Forget does not keep its word after a Regret: the comment says it forgets everything
  read so far, but it drops the bytes that were pushed back and not read again, so the reader
  goes on at the underlying reader's position and the input loses those bytes.
\<close>

theorem forget_loses_pushed_back:
  assumes "regret_ok rb" and "\<not> rg_overflow rb"
  shows "\<exists>rb1 rb2. Regret rb = Ret rb1 \<and> Forget rb1 = Ret rb2 \<and>
    regret_rest rest rb1 = remembered rest rb \<and> regret_rest rest rb2 = rest (rg_reader rb)"
  using assms by (simp add: Regret_def Forget_def regret_rest_def remembered_def)

theorem forget_loses_pushed_back_witness:
  "\<exists>rb1 rb2. Regret \<lparr>rg_reader = [3 :: byte], rg_overflow = False, rg_r = 2, rg_w = 2, rg_buf = [1, 2]\<rparr> = Ret rb1 \<and>
    Forget rb1 = Ret rb2 \<and> regret_rest id rb1 = [1, 2, 3] \<and> regret_rest id rb2 = [3]"
  using forget_loses_pushed_back [of "\<lparr>rg_reader = [3 :: byte], rg_overflow = False, rg_r = 2, rg_w = 2, rg_buf = [1, 2]\<rparr>" id]
  by (simp add: regret_ok_def remembered_def)

end
