(* ===== verification/Gp_Ext.thy ===== *)
theory Gp_Ext
  imports Gp_Dispatch Gp_Regret
begin

text \<open>
  goproxy/ext: the conditions and body handlers for HTML (ext/html/html.go) and images
  (ext/image/image.go). Decoders, encoders and character sets are parameters; a decoder reads
  the body through a reader that can be regretted.
\<close>

section \<open>HTML\<close>

definition IsHtml :: "('r, 'u) resp_cond" where "IsHtml = ContentTypeIs ''text/html'' []"
definition IsCss :: "('r, 'u) resp_cond" where "IsCss = ContentTypeIs ''text/css'' []"
definition IsJavaScript :: "('r, 'u) resp_cond" where
  "IsJavaScript = ContentTypeIs ''text/javascript'' [''application/javascript'']"
definition IsJson :: "('r, 'u) resp_cond" where "IsJson = ContentTypeIs ''text/json'' []"
definition IsXml :: "('r, 'u) resp_cond" where "IsXml = ContentTypeIs ''text/xml'' []"
definition IsWebRelatedText :: "('r, 'u) resp_cond" where
  "IsWebRelatedText = ContentTypeIs ''text/html''
     [''text/css'', ''text/javascript'', ''application/javascript'', ''text/xml'', ''text/json'']"

text \<open>
  HandleStringReader: the body goes through f in UTF-8. f gets the bytes of a reader and the
  error after them (None is the end of the body) and gives a reader in the same form. For
  another character set the bytes are translated to UTF-8 and back; \<open>to_utf8 cs\<close> and
  \<open>from_utf8 cs\<close> are those translations, with an error for a character set that is not known.
  The new body has a new identity.
\<close>

type_synonym input = "bytes \<times> werror option"

definition HandleStringReader :: "(input \<Rightarrow> ('r, 'u) pctx \<Rightarrow> input) \<Rightarrow> (string \<Rightarrow> werror + (bytes \<Rightarrow> bytes))
    \<Rightarrow> (string \<Rightarrow> werror + (bytes \<Rightarrow> bytes)) \<Rightarrow> nat \<Rightarrow> nat option \<Rightarrow> ('r, 'u) pctx
    \<Rightarrow> (nat option \<times> ('r, 'u) pctx) outcome" where
  "HandleStringReader f to_utf8 from_utf8 fresh resp ctx =
     (case Charset ctx of
        Panic m \<Rightarrow> Panic m
      | Block \<Rightarrow> Block
      | Ret cs0 \<Rightarrow>
          let charsetName = (if cs0 = [] then ''utf-8'' else cs0) in
          (case resp of
             None \<Rightarrow> Panic ''nil pointer dereference''
           | Some p \<Rightarrow>
               let x = resps ctx p; body = resp_Body x;
                   with_body = (\<lambda>(b, e). Ret (Some p,
                     set_resp p (x\<lparr>resp_Body := \<lparr>body_id = fresh, body_data = b, body_err = e\<rparr>\<rparr>) ctx))
               in if ToLower charsetName \<noteq> ''utf-8'' then
                    (case to_utf8 charsetName of
                       Inl e \<Rightarrow> Ret (Some p, ctx)
                     | Inr dec \<Rightarrow>
                         (case from_utf8 charsetName of
                            Inl e \<Rightarrow> Ret (Some p, ctx)
                          | Inr enc \<Rightarrow> with_body (apfst enc (f (dec (body_data body), body_err body) ctx))))
                  else with_body (f (body_data body, body_err body) ctx)))"

text \<open>HandleString gives back a reader that fails, read up to its error.\<close>

definition HandleString :: "(string \<Rightarrow> ('r, 'u) pctx \<Rightarrow> string) \<Rightarrow> input \<Rightarrow> ('r, 'u) pctx \<Rightarrow> input" where
  "HandleString f r ctx = (case r of
      (b, None) \<Rightarrow> (bytes_of (f (text_of b) ctx), None)
    | (b, Some e) \<Rightarrow> ([], Some e))"

text \<open>Close of the reader that closes both: both are closed, the errors are joined.\<close>

definition html_Close :: "('s \<Rightarrow> werror option \<times> 's) \<Rightarrow> ('s \<Rightarrow> werror option \<times> 's) \<Rightarrow> 's \<Rightarrow> werror option \<times> 's" where
  "html_Close close1 close2 s =
     (case close1 s of (err1, s) \<Rightarrow>
        (case close2 s of (err2, s) \<Rightarrow>
           ((case (err1, err2) of
               (Some a, Some b) \<Rightarrow> Some (OtherError (error_string a @ '', '' @ error_string b))
             | (Some a, None) \<Rightarrow> Some a
             | (None, _) \<Rightarrow> err2), s)))"

section \<open>Images\<close>

definition RespIsImage :: "('r, 'u) resp_cond" where
  "RespIsImage = ContentTypeIs ''image/gif''
     [''image/jpeg'', ''image/pjpeg'', ''application/octet-stream'', ''image/png'']"

definition body_reader :: "body \<Rightarrow> rbuf" where
  "body_reader b = \<lparr>rd_in = body_data b, rd_end = Some (case body_err b of None \<Rightarrow> io_EOF | Some e \<Rightarrow> e), rd_sizes = []\<rparr>"

text \<open>
  \<open>decode\<close> gives the sizes of the reads it makes and the image with its type; \<open>encode\<close> writes in
  the format named. The format for a content type; None is the default branch's panic, the
  empty format writes nothing.
\<close>

definition image_format :: "string \<Rightarrow> string \<Rightarrow> string option" where
  "image_format contentType imgType =
     (if contentType = ''image/gif'' \<or> contentType = ''image/png'' then Some ''png''
      else if contentType = ''image/jpeg'' \<or> contentType = ''image/pjpeg'' then Some ''jpeg''
      else if contentType = ''application/octet-stream'' then
        Some (if imgType = ''jpeg'' then ''jpeg'' else if imgType = ''png'' \<or> imgType = ''gif'' then ''png'' else [])
      else None)"

definition HandleImage :: "(bytes \<Rightarrow> nat list \<times> ('img \<times> string) option) \<Rightarrow> (string \<Rightarrow> 'img \<Rightarrow> werror + bytes)
    \<Rightarrow> ('img \<Rightarrow> ('r, 'u) pctx \<Rightarrow> 'img) \<Rightarrow> nat \<Rightarrow> nat option \<Rightarrow> ('r, 'u) pctx \<Rightarrow> (nat option \<times> ('r, 'u) pctx) outcome" where
  "HandleImage decode encode f fresh resp ctx =
     (case resp of
        None \<Rightarrow> Ret (None, ctx)
      | Some p \<Rightarrow>
          let x = resps ctx p;
              contentType = hdr_Get (resp_Header x) ''Content-Type'';
              put = (\<lambda>h b. Ret (Some p, set_resp p (x\<lparr>resp_Header := h, resp_Body := b\<rparr>) ctx))
          in if \<not> HandleResp RespIsImage (Some p) ctx \<or> resp_StatusCode x \<noteq> 200 then Ret (Some p, ctx)
             else
               (case decode (body_data (resp_Body x)) of
                  (ns, res) \<Rightarrow>
                    (case regret_Reads rd_Read ns (NewRegretableReader (body_reader (resp_Body x))) of
                       (_, rb) \<Rightarrow>
                         (case res of
                            None \<Rightarrow>
                              (case Regret rb of
                                 Panic m \<Rightarrow> Panic m
                               | Block \<Rightarrow> Block
                               | Ret rb \<Rightarrow> put (resp_Header x) ((resp_Body x)\<lparr>body_data := regret_rest rd_in rb\<rparr>))
                          | Some (img, imgType) \<Rightarrow>
                              let result = f img ctx in
                              (case image_format contentType imgType of
                                 None \<Rightarrow> Panic (''unhandlable type'' @ contentType)
                               | Some fmt \<Rightarrow>
                                   if fmt = [] then put (resp_Header x) (buffer_body fresh [])
                                   else (case encode fmt result of
                                           Inl e \<Rightarrow> put (resp_Header x) ((resp_Body x)\<lparr>body_data := regret_rest rd_in rb\<rparr>)
                                         | Inr b \<Rightarrow>
                                             put (if contentType = ''image/gif'' \<or> contentType = ''image/png''
                                                  then hdr_Set ''Content-Type'' ''image/png'' (resp_Header x)
                                                  else resp_Header x) (buffer_body fresh b)))))))"

section \<open>Properties\<close>

text \<open>
  A response handler for images stops the program on an image it cannot decode, if the
  decoder's first read takes more than the 500 bytes the reader can give back: the fallback to
  the original image is a panic.
\<close>

theorem image_decode_error_panics:
  assumes "HandleResp RespIsImage (Some p) ctx" and "resp_StatusCode (resps ctx p) = 200"
    and "decode (body_data (resp_Body (resps ctx p))) = ([n], None)" and "500 < n"
    and "500 < length (body_data (resp_Body (resps ctx p)))"
  shows "HandleImage decode encode f fresh (Some p) ctx = Panic ''regretting after overflow makes no sense''"
proof -
  let ?d = "body_data (resp_Body (resps ctx p))"
  let ?r = "body_reader (resp_Body (resps ctx p))"
  have "?d \<noteq> []" using assms(5) by auto
  then have "rd_Read n ?r = (RVal (take n ?d), ?r\<lparr>rd_in := drop n ?d\<rparr>)"
    using assms(4) by (simp add: rd_Read_def body_reader_def rd_size_def min_def)
  then have "rg_overflow (snd (regret_Reads rd_Read [n] (NewRegretableReader ?r)))"
    using assms(4,5) by (simp add: regret_Read_def NewRegretableReader_def NewRegretableReaderSize_def defaultBufferSize_def Let_def)
  then obtain bs rb where "regret_Reads rd_Read [n] (NewRegretableReader ?r) = (bs, rb)" and "rg_overflow rb"
    by (cases "regret_Reads rd_Read [n] (NewRegretableReader ?r)") simp
  then show ?thesis using assms(1-3)
    by (simp add: HandleImage_def Let_def Regret_def del: regret_Reads.simps)
qed

definition image_response :: "string \<Rightarrow> bytes \<Rightarrow> http_response" where
  "image_response ct data = \<lparr>resp_StatusCode = 200, resp_Status = ''200 OK'', resp_Header = [(''Content-Type'', [ct])],
     resp_Body = buffer_body 0 data, resp_ContentLength = int (length data)\<rparr>"

definition image_ctx :: "string \<Rightarrow> bytes \<Rightarrow> (nat, nat) pctx" where
  "image_ctx ct data = (demo_ctx (demo_request ''a'' ''/'' []))\<lparr>resps := (\<lambda>p. image_response ct data)\<rparr>"

lemma image_ctx_type: "hdr_Get (resp_Header (resps (image_ctx ct data) p)) ''Content-Type'' = ct"
proof -
  have "canonicalKey ''Content-Type'' = ''Content-Type''" by code_simp
  then show ?thesis by (simp add: image_ctx_def image_response_def hdr_Get_def hdr_values_def)
qed

theorem image_decode_error_panics_witness:
  "HandleImage (\<lambda>b. ([4096], None :: (nat \<times> string) option)) (\<lambda>k i. Inr []) (\<lambda>i c. i) 1 (Some 0) (image_ctx ''image/png'' (replicate 600 1)) =
    Panic ''regretting after overflow makes no sense''"
proof (rule image_decode_error_panics [where n = 4096])
  show "HandleResp RespIsImage (Some 0) (image_ctx ''image/png'' (replicate 600 1))"
    by (simp add: RespIsImage_def ContentTypeIs_def Let_def image_ctx_type HasPrefix_def)
qed (simp_all add: image_ctx_def image_response_def buffer_body_def)

text \<open>
  A content type with a parameter passes the test for images but not the choice of the
  encoder: a decoded image with such a type is a panic.
\<close>

theorem image_parameter_panics:
  assumes "resp_StatusCode (resps ctx p) = 200"
    and "hdr_Get (resp_Header (resps ctx p)) ''Content-Type'' = ''image/png;'' @ param"
    and "decode (body_data (resp_Body (resps ctx p))) = (ns, Some (img, imgType))"
  shows "HandleImage decode encode f fresh (Some p) ctx = Panic (''unhandlable type'' @ ''image/png;'' @ param)"
proof -
  have "HandleResp RespIsImage (Some p) ctx"
    by (simp add: RespIsImage_def ContentTypeIs_def Let_def assms(2) HasPrefix_def)
  moreover have "image_format (''image/png;'' @ param) imgType = None" by (simp add: image_format_def)
  ultimately show ?thesis using assms by (simp add: HandleImage_def Let_def split: prod.split)
qed

theorem image_parameter_panics_witness:
  "HandleImage (\<lambda>b. ([4], Some ((), ''png''))) (\<lambda>k i. Inr []) (\<lambda>i c. i) 1 (Some 0) (image_ctx ''image/png; x=y'' [1, 2]) =
    Panic ''unhandlable typeimage/png; x=y''"
proof -
  have "hdr_Get (resp_Header (resps (image_ctx ''image/png; x=y'' [1, 2]) 0)) ''Content-Type'' = ''image/png;'' @ '' x=y''"
    by (simp add: image_ctx_type)
  from image_parameter_panics [OF _ this, of "\<lambda>b. ([4], Some ((), ''png''))" "[4]" "()" "''png''" "\<lambda>k i. Inr []" "\<lambda>i c. i" 1]
  show ?thesis by (simp add: image_ctx_def image_response_def)
qed

end
