(* ===== verification/Ex_Bodies.thy ===== *)
theory Ex_Bodies
  imports Gp_Ext Go_Conn
begin

text \<open>
  The example programs that look at response bodies: examples/avgSize counts their bytes,
  jqueryVersion searches them for scripts, upside-down-ternet turns images over.
\<close>

section \<open>avgSize\<close>

text \<open>The channel of the counts is the list of what has been sent; a full channel (10) blocks.\<close>

record 's CountReadCloser =
  cc_Id :: string
  cc_R :: 's
  cc_nr :: i64

definition count_Read :: "(nat \<Rightarrow> 's \<Rightarrow> bytes rres \<times> 's) \<Rightarrow> nat \<Rightarrow> 's CountReadCloser \<Rightarrow> bytes rres \<times> 's CountReadCloser" where
  "count_Read rd n c =
     (case rd n (cc_R c) of
        (RVal b, s) \<Rightarrow> (RVal b, c\<lparr>cc_R := s, cc_nr := cc_nr c + of_nat (length b)\<rparr>)
      | (RErr e, s) \<Rightarrow> (RErr e, c\<lparr>cc_R := s\<rparr>)
      | (RBlock, s) \<Rightarrow> (RBlock, c\<lparr>cc_R := s\<rparr>))"

definition count_Close :: "('s \<Rightarrow> werror option \<times> 's) \<Rightarrow> 's CountReadCloser \<Rightarrow> (string \<times> i64) list
    \<Rightarrow> ((werror option \<times> 's) \<times> (string \<times> i64) list) outcome" where
  "count_Close close c ch =
     (if 10 \<le> length ch then Block else Ret (close (cc_R c), ch @ [(cc_Id c, cc_nr c)]))"

text \<open>The goroutine of the statistics: a count received is added to its address.\<close>

definition stat_add :: "string \<times> i64 \<Rightarrow> (string \<Rightarrow> i64) \<Rightarrow> string \<Rightarrow> i64" where
  "stat_add c m = m(fst c := m (fst c) + snd c)"

definition avg_handler :: "(nat \<Rightarrow> url) \<Rightarrow> nat \<Rightarrow> 's \<Rightarrow> 's CountReadCloser" where
  "avg_handler urls r body = \<lparr>cc_Id = url_String (urls r), cc_R = body, cc_nr = 0\<rparr>"

text \<open>A reader that counts keeps the contract of the one it wraps.\<close>

lemma counting_source:
  fixes rd :: "nat \<Rightarrow> 's \<Rightarrow> bytes rres \<times> 's"
  assumes "byte_source rd rest good"
  shows "byte_source (count_Read rd) (\<lambda>c. rest (cc_R c)) (\<lambda>c. good (cc_R c))"
proof
  fix s s' :: "'s CountReadCloser" and n b
  assume "good (cc_R s)" and "count_Read rd n s = (RVal b, s')"
  then show "good (cc_R s') \<and> rest (cc_R s) = b @ rest (cc_R s') \<and> length b \<le> n"
    using byte_source.read_val [OF assms, of "cc_R s" n b "cc_R s'"]
    by (auto simp: count_Read_def split: prod.splits rres.splits)
next
  fix s :: "'s CountReadCloser" and n :: nat
  assume "good (cc_R s)" and "0 < n" and "rest (cc_R s) = []"
  with byte_source.read_end [OF assms] obtain t where "rd n (cc_R s) = (RErr io_EOF, t)" by blast
  then show "\<exists>s'. count_Read rd n s = (RErr io_EOF, s')" by (simp add: count_Read_def)
next
  fix s :: "'s CountReadCloser" and n :: nat
  assume "good (cc_R s)" and "0 < n" and "rest (cc_R s) \<noteq> []"
  with byte_source.read_some [OF assms] obtain b t where "rd n (cc_R s) = (RVal b, t)" "b \<noteq> []" by blast
  then show "\<exists>b s'. count_Read rd n s = (RVal b, s') \<and> b \<noteq> []" by (simp add: count_Read_def)
qed

interpretation counted: byte_source "count_Read rd_Read" "\<lambda>c. rd_in (cc_R c)" "\<lambda>c. rd_complete (cc_R c)"
  by (rule counting_source) (rule bufio.byte_source_axioms)

text \<open>
  A body read to its end is delivered as it is, and its count is its length; the statistics of
  an address are the sum of the counts sent for it.
\<close>

theorem avgSize_counts:
  assumes "rd_complete r" and "length (rd_in r) < k" and "0 < sz"
  shows "\<exists>c. ReadAll (count_Read rd_Read) k sz [] \<lparr>cc_Id = i, cc_R = r, cc_nr = 0\<rparr> = (RVal (rd_in r, None), c) \<and>
    cc_nr c = of_nat (length (rd_in r)) \<and> cc_Id c = i"
proof -
  let ?c0 = "\<lparr>cc_Id = i, cc_R = r, cc_nr = 0\<rparr>"
  let ?P = "\<lambda>c. rd_complete (cc_R c) \<and> cc_Id c = i \<and> cc_nr c + of_nat (length (rd_in (cc_R c))) = of_nat (length (rd_in r))"
  obtain c where c: "ReadAll (count_Read rd_Read) k sz [] ?c0 = (RVal (rd_in r, None), c)"
    using counted.ReadAll_rest [of ?c0 sz k "[]"] assms by auto
  have step: "?P t" if P: "?P s" and x: "count_Read rd_Read n s = (x, t)" for n s x t
  proof (cases x)
    case (RVal b)
    with x have t: "rd_Read n (cc_R s) = (RVal b, cc_R t)" "cc_nr t = cc_nr s + of_nat (length b)" "cc_Id t = cc_Id s"
      by (auto simp: count_Read_def split: prod.splits rres.splits)
    from bufio.read_val [OF _ t(1)] P t(2,3) show ?thesis by (simp add: add.assoc)
  next
    case RBlock
    with x P show ?thesis by (auto simp: count_Read_def rd_Read_def split: prod.splits rres.splits if_splits)
  next
    case (RErr e)
    with x P show ?thesis by (auto simp: count_Read_def rd_Read_def split: prod.splits rres.splits if_splits)
  qed
  have start: "?P ?c0" using assms(1) by simp
  have "\<exists>u. ?P u \<and> count_Read rd_Read sz u = (RErr io_EOF, c)"
    by (rule ReadAll_end [where P = ?P, OF _ start c]) (rule step)
  then obtain u where u: "?P u" "count_Read rd_Read sz u = (RErr io_EOF, c)" by blast
  have "rd_in (cc_R u) = []"
  proof (rule ccontr)
    assume "rd_in (cc_R u) \<noteq> []"
    then obtain b s' where "count_Read rd_Read sz u = (RVal b, s')" using counted.read_step [of u sz] u(1) assms(3) by blast
    with u(2) show False by simp
  qed
  moreover from u(2) have "cc_nr c = cc_nr u" "cc_Id c = cc_Id u"
    by (auto simp: count_Read_def split: prod.splits rres.splits)
  ultimately show ?thesis using c u(1) by simp
qed

lemma stat_sum: "fold stat_add cs m i = m i + sum_list (map snd (filter (\<lambda>c. fst c = i) cs))"
  by (induction cs arbitrary: m) (auto simp: stat_add_def)

section \<open>jqueryVersion\<close>

text \<open>White space of regexp.\<close>

definition re_space :: "char \<Rightarrow> bool" where
  "re_space c \<longleftrightarrow> c \<in> {CHR 0x09, CHR 0x0A, CHR 0x0C, CHR 0x0D, CHR '' ''}"

text \<open>
  \<open>(?i:<script\s+)\<close>: what follows each match, from the last white space of the match on. The
  matches do not overlap, so the search goes on behind each.
\<close>

definition script_at :: "string \<Rightarrow> string option" where
  "script_at s = (if HasPrefix (ToLower s) ''<script'' \<and> takeWhile re_space (drop 7 s) \<noteq> []
     then Some (last (takeWhile re_space (drop 7 s)) # dropWhile re_space (drop 7 s)) else None)"

function scripts :: "string \<Rightarrow> string list" where
  "scripts [] = []"
| "scripts (c # s) =
     (case script_at (c # s) of
        None \<Rightarrow> scripts s
      | Some t \<Rightarrow> t # scripts (tl t))"
  by pat_completeness auto

lemma script_at_length: "script_at s = Some t \<Longrightarrow> length (tl t) < length s"
proof -
  assume "script_at s = Some t"
  then have t: "tl t = dropWhile re_space (drop 7 s)" "takeWhile re_space (drop 7 s) \<noteq> []"
    by (auto simp: script_at_def split: if_splits)
  have "length (takeWhile re_space (drop 7 s)) + length (dropWhile re_space (drop 7 s)) = length (drop 7 s)"
    by (metis length_append takeWhile_dropWhile_id)
  moreover have "0 < length (takeWhile re_space (drop 7 s))" using t(2) by simp
  moreover have "drop 7 s \<noteq> []" using t(2) by auto
  ultimately show ?thesis unfolding t(1) by simp
qed

termination scripts
  by (relation "measure length") (auto dest: script_at_length)

text \<open>
  \<open>^(?i:[^>]*\ssrc=["']([^"']*)["'])\<close>: the first part takes as much as it can, so the last
  possible place counts.
\<close>

definition is_quote :: "char \<Rightarrow> bool" where
  "is_quote c \<longleftrightarrow> c \<in> {CHR 0x22, CHR 0x27}"

definition src_at :: "string \<Rightarrow> string option" where
  "src_at s = (case s of [] \<Rightarrow> None | c # t \<Rightarrow>
     let v = takeWhile (\<lambda>d. \<not> is_quote d) (drop 5 t); u = dropWhile (\<lambda>d. \<not> is_quote d) (drop 5 t) in
     if re_space c \<and> ToLower (take 4 t) = ''src='' \<and> (drop 4 t \<noteq> [] \<and> is_quote (hd (drop 4 t))) \<and> u \<noteq> []
     then Some v else None)"

fun src_attr :: "string \<Rightarrow> string option" where
  "src_attr [] = None"
| "src_attr (c # s) =
     (if c = CHR ''>'' then src_at (c # s)
      else (case src_attr s of Some v \<Rightarrow> Some v | None \<Rightarrow> src_at (c # s)))"

definition findScriptSrc :: "string \<Rightarrow> string list" where
  "findScriptSrc html = List.map_filter src_attr (scripts html)"

text \<open>\<open>(?i:jquery\.)\<close>\<close>

definition jqueryMatcher :: "string \<Rightarrow> bool" where
  "jqueryMatcher s = Contains (ToLower s) ''jquery.''"

text \<open>The loop of the handler over the scripts of a page of a host; the map is the program's.\<close>

fun jquery_loop :: "string \<Rightarrow> string list \<Rightarrow> (string \<rightharpoonup> string) \<Rightarrow> (string \<rightharpoonup> string)" where
  "jquery_loop host [] m = m"
| "jquery_loop host (src # srcs) m =
     (if jqueryMatcher src then
        (case m host of
           Some prev \<Rightarrow> if prev \<noteq> src then m else jquery_loop host srcs (m(host \<mapsto> src))
         | None \<Rightarrow> jquery_loop host srcs (m(host \<mapsto> src)))
      else jquery_loop host srcs m)"

definition jquery_handler :: "string \<Rightarrow> string \<Rightarrow> (string \<rightharpoonup> string) \<Rightarrow> string \<times> (string \<rightharpoonup> string)" where
  "jquery_handler host s m = (s, jquery_loop host (findScriptSrc s) m)"

text \<open>
  The handler leaves every page as it is. The version it keeps for a host is the first it ever
  saw there, and pages of a host do not touch the entry of another.
\<close>

lemma jquery_loop_first:
  "jquery_loop host srcs m h =
    (if h = host \<and> m host = None then find jqueryMatcher srcs else m h)"
proof (induction srcs arbitrary: m)
  case (Cons src srcs)
  show ?case
  proof (cases "jqueryMatcher src \<and> (m host = None \<or> m host = Some src)")
    case True
    then have "jquery_loop host (src # srcs) m h = jquery_loop host srcs (m(host \<mapsto> src)) h" by auto
    also have "\<dots> = (m(host \<mapsto> src)) h" unfolding Cons.IH by simp
    finally show ?thesis using True by auto
  next
    case False
    with Cons.IH [of m] show ?thesis by (auto split: option.split)
  qed
qed simp

theorem jquery_keeps_first:
  "fst (jquery_handler host s m) = s \<and>
    (\<forall>h. snd (jquery_handler host s m) h =
      (if h = host \<and> m host = None then find jqueryMatcher (findScriptSrc s) else m h))"
  by (simp add: jquery_handler_def jquery_loop_first)

lemma findScriptSrc_example:
  "findScriptSrc ''<p><SCRIPT  async src='/a/jQuery.1.js' ></script><script>x</script>'' = [''/a/jQuery.1.js'']"
  by code_simp

section \<open>upside-down-ternet\<close>

text \<open>
  An image is its bounds and its colours; At gives the zero colour outside the bounds, and Set
  does nothing there.
\<close>

record 'c image =
  min_x :: int
  min_y :: int
  max_x :: int
  max_y :: int
  pix :: "int \<Rightarrow> int \<Rightarrow> 'c"

definition in_bounds :: "'c image \<Rightarrow> int \<Rightarrow> int \<Rightarrow> bool" where
  "in_bounds img i j \<longleftrightarrow> min_x img \<le> i \<and> i < max_x img \<and> min_y img \<le> j \<and> j < max_y img"

definition img_At :: "'c \<Rightarrow> 'c image \<Rightarrow> int \<Rightarrow> int \<Rightarrow> 'c" where
  "img_At zero img i j = (if in_bounds img i j then pix img i j else zero)"

definition img_Set :: "int \<Rightarrow> int \<Rightarrow> 'c \<Rightarrow> 'c image \<Rightarrow> 'c image" where
  "img_Set i j c img = (if in_bounds img i j then img\<lparr>pix := (pix img)(i := (pix img i)(j := c))\<rparr> else img)"

definition flip_image :: "'c \<Rightarrow> 'c image \<Rightarrow> 'c image" where
  "flip_image zero img =
     (let dx = max_x img - min_x img; dy = max_y img - min_y img in
      fold (\<lambda>i n. fold (\<lambda>j n. img_Set i j (img_At zero img i (dy - j - 1)) n) [0..dy] n) [0..dx - 1]
        (img\<lparr>pix := (\<lambda>i j. zero)\<rparr>))"

text \<open>
  For an image whose bounds begin at the origin the result is the image upside down: the last
  turn of the inner loop, j = dy, changes nothing, because it is outside.
\<close>

lemma img_Set_bounds [simp]: "in_bounds (img_Set i j c img) = in_bounds img"
  "min_x (img_Set i j c img) = min_x img" "max_x (img_Set i j c img) = max_x img"
  "min_y (img_Set i j c img) = min_y img" "max_y (img_Set i j c img) = max_y img"
  by (simp_all add: img_Set_def in_bounds_def fun_eq_iff)

lemma pix_img_Set: "pix (img_Set i j c img) x y = (if in_bounds img i j \<and> x = i \<and> y = j then c else pix img x y)"
  by (simp add: img_Set_def)

lemma inner_loop:
  "in_bounds (fold (\<lambda>j n. img_Set i j (f j) n) js img) = in_bounds img \<and>
    pix (fold (\<lambda>j n. img_Set i j (f j) n) js img) x y =
      (if x = i \<and> y \<in> set js \<and> in_bounds img i y then f y else pix img x y)"
  by (induction js arbitrary: img) (auto simp: pix_img_Set)

lemma outer_loop:
  "in_bounds (fold (\<lambda>i n. fold (\<lambda>j n. img_Set i j (f i j) n) js n) is img) = in_bounds img \<and>
    pix (fold (\<lambda>i n. fold (\<lambda>j n. img_Set i j (f i j) n) js n) is img) x y =
      (if x \<in> set is \<and> y \<in> set js \<and> in_bounds img x y then f x y else pix img x y)"
proof (induction "is" arbitrary: img)
  case (Cons i "is")
  let ?n = "fold (\<lambda>j n. img_Set i j (f i j) n) js img"
  have "in_bounds ?n = in_bounds img"
    "pix ?n x y = (if x = i \<and> y \<in> set js \<and> in_bounds img i y then f i y else pix img x y)"
    using inner_loop [of i "f i" js img x y] by simp_all
  with Cons.IH [of ?n] show ?case by auto
qed simp

theorem upside_down:
  assumes "min_x img = 0" and "min_y img = 0"
  shows "img_At zero (flip_image zero img) i j = img_At zero img i (max_y img - 1 - j)"
proof -
  let ?z = "img\<lparr>pix := (\<lambda>i j. zero)\<rparr>"
  let ?f = "\<lambda>i j. img_At zero img i (max_y img - j - 1)"
  have z: "in_bounds ?z = in_bounds img" by (simp add: in_bounds_def fun_eq_iff)
  have f: "flip_image zero img = fold (\<lambda>i n. fold (\<lambda>j n. img_Set i j (?f i j) n) [0..max_y img] n) [0..max_x img - 1] ?z"
    using assms by (simp add: flip_image_def Let_def)
  have p: "in_bounds (flip_image zero img) = in_bounds img"
    "pix (flip_image zero img) i j = (if i \<in> {0..max_x img - 1} \<and> j \<in> {0..max_y img} \<and> in_bounds img i j then ?f i j else zero)"
    using outer_loop [of ?f "[0..max_y img]" "[0..max_x img - 1]" ?z i j] unfolding f z by simp_all
  have "i \<in> {0..max_x img - 1} \<and> j \<in> {0..max_y img}" if "in_bounds img i j"
    using that assms by (simp add: in_bounds_def)
  then have "img_At zero (flip_image zero img) i j = (if in_bounds img i j then ?f i j else zero)"
    unfolding img_At_def p by simp
  then show ?thesis using assms by (auto simp: img_At_def in_bounds_def algebra_simps)
qed

text \<open>An image whose bounds begin elsewhere is not: its point (1, 1) below is lost.\<close>

lemma upside_down_offset:
  "img_At 0 (flip_image 0 \<lparr>min_x = 1, min_y = 1, max_x = 2, max_y = 2, pix = (\<lambda>i j. 5 :: nat)\<rparr>) 1 1 = 0"
  by code_simp

end
